(* ===== verification/Prelude.thy ===== *)
theory Prelude
  imports Main
begin

text \<open>
  Shared vocabulary of the development.

  A Go string and a Go byte slice are both sequences of bytes, so both are \<open>char list\<close>:
  the conversions \<^verbatim>\<open>[]byte(s)\<close> and \<^verbatim>\<open>string(b)\<close> keep the contents.  The functions of the
  packages \<^verbatim>\<open>strings\<close> and \<^verbatim>\<open>strconv\<close> that the program calls are defined here on bytes.
  Where Go folds letter case by Unicode tables, the folding is written out for exactly the code
  points that fold to ASCII (the Kelvin sign, the long s, the dotted capital I), and every other
  non-ASCII byte is left as it is: a comparison of the result with an ASCII text, which is the
  only use the program makes of it, has the same outcome.

  The locales are the shapes of reasoning shared by several components: a machine driven by events
  with an invariant, a machine that implements an abstract one, and a bounded channel with a
  non-blocking send.
\<close>

section \<open>Collections of facts\<close>

named_theorems go_str \<open>unfolding of the Go string functions\<close>
named_theorems inv_defs \<open>the invariants of the components\<close>

section \<open>Results\<close>

text \<open>A fallible Go function returns its value or an error: \<open>Inl\<close> is the error.\<close>

abbreviation is_ok :: "'e + 'a \<Rightarrow> bool" where
  "is_ok r \<equiv> \<exists>x. r = Inr x"

definition bind_result :: "'e + 'a \<Rightarrow> ('a \<Rightarrow> 'e + 'b) \<Rightarrow> 'e + 'b" where
  "bind_result r f = (case r of Inl e \<Rightarrow> Inl e | Inr x \<Rightarrow> f x)"

lemma bind_result_simps [simp]:
  "bind_result (Inl e) f = Inl e"
  "bind_result (Inr x) f = f x"
  by (simp_all add: bind_result_def)

lemma bind_result_Inr: "bind_result r f = Inr y \<longleftrightarrow> (\<exists>x. r = Inr x \<and> f x = Inr y)"
  by (cases r) simp_all

section \<open>Go strings\<close>

definition ascii_lower :: "char \<Rightarrow> char" where
  "ascii_lower c = (if 65 \<le> (of_char c :: nat) \<and> of_char c \<le> (90 :: nat)
                    then char_of ((of_char c :: nat) + 32) else c)"

fun to_lower :: "string \<Rightarrow> string" where
  "to_lower [] = []"
| "to_lower (c # cs) =
     (if c = CHR 0xE2 \<and> take 2 cs = [CHR 0x84, CHR 0xAA] then CHR ''k'' # to_lower (drop 2 cs)
      else if c = CHR 0xC4 \<and> take 1 cs = [CHR 0xB0] then CHR ''i'' # to_lower (drop 1 cs)
      else ascii_lower c # to_lower cs)"

fun case_fold :: "string \<Rightarrow> string" where
  "case_fold [] = []"
| "case_fold (c # cs) =
     (if c = CHR 0xE2 \<and> take 2 cs = [CHR 0x84, CHR 0xAA] then CHR ''k'' # case_fold (drop 2 cs)
      else if c = CHR 0xC5 \<and> take 1 cs = [CHR 0xBF] then CHR ''s'' # case_fold (drop 1 cs)
      else ascii_lower c # case_fold cs)"

definition equal_fold :: "string \<Rightarrow> string \<Rightarrow> bool" where
  "equal_fold s t \<longleftrightarrow> case_fold s = case_fold t"

definition has_prefix :: "string \<Rightarrow> string \<Rightarrow> bool" where
  "has_prefix s p \<longleftrightarrow> take (length p) s = p"

definition has_suffix :: "string \<Rightarrow> string \<Rightarrow> bool" where
  "has_suffix s p \<longleftrightarrow> has_prefix (rev s) (rev p)"

definition trim_prefix :: "string \<Rightarrow> string \<Rightarrow> string" where
  "trim_prefix s p = (if has_prefix s p then drop (length p) s else s)"

definition contains_any :: "string \<Rightarrow> string \<Rightarrow> bool" where
  "contains_any s cs \<longleftrightarrow> list_ex (\<lambda>c. c \<in> set cs) s"

text \<open>\<^verbatim>\<open>strings.ReplaceAll\<close> with one-byte patterns, and with an empty replacement.\<close>

definition replace_char :: "char \<Rightarrow> char \<Rightarrow> string \<Rightarrow> string" where
  "replace_char a b s = map (\<lambda>c. if c = a then b else c) s"

definition delete_char :: "char \<Rightarrow> string \<Rightarrow> string" where
  "delete_char a s = filter (\<lambda>c. c \<noteq> a) s"

text \<open>\<^verbatim>\<open>strings.TrimRight(s, "/")\<close>.\<close>

definition trim_right_char :: "char \<Rightarrow> string \<Rightarrow> string" where
  "trim_right_char a s = rev (dropWhile (\<lambda>c. c = a) (rev s))"

text \<open>
  \<^verbatim>\<open>strings.TrimSpace\<close> removes the UTF-8 encodings of the code points of
  \<^verbatim>\<open>unicode.IsSpace\<close> from both ends.
\<close>

definition space_runes :: "string list" where
  "space_runes =
     [[CHR 0x20], [CHR 0x09], [CHR 0x0A], [CHR 0x0B], [CHR 0x0C], [CHR 0x0D],
      [CHR 0xC2, CHR 0x85], [CHR 0xC2, CHR 0xA0], [CHR 0xE1, CHR 0x9A, CHR 0x80],
      [CHR 0xE2, CHR 0x80, CHR 0x80], [CHR 0xE2, CHR 0x80, CHR 0x81],
      [CHR 0xE2, CHR 0x80, CHR 0x82], [CHR 0xE2, CHR 0x80, CHR 0x83],
      [CHR 0xE2, CHR 0x80, CHR 0x84], [CHR 0xE2, CHR 0x80, CHR 0x85],
      [CHR 0xE2, CHR 0x80, CHR 0x86], [CHR 0xE2, CHR 0x80, CHR 0x87],
      [CHR 0xE2, CHR 0x80, CHR 0x88], [CHR 0xE2, CHR 0x80, CHR 0x89],
      [CHR 0xE2, CHR 0x80, CHR 0x8A], [CHR 0xE2, CHR 0x80, CHR 0xA8],
      [CHR 0xE2, CHR 0x80, CHR 0xA9], [CHR 0xE2, CHR 0x80, CHR 0xAF],
      [CHR 0xE2, CHR 0x81, CHR 0x9F], [CHR 0xE3, CHR 0x80, CHR 0x80]]"

function strip_leading :: "string list \<Rightarrow> string \<Rightarrow> string" where
  "strip_leading ps s =
     (case find (\<lambda>p. p \<noteq> [] \<and> has_prefix s p) ps of
        None \<Rightarrow> s
      | Some p \<Rightarrow> strip_leading ps (drop (length p) s))"
  by pat_completeness auto
termination
proof (relation "measure (\<lambda>(ps, s). length s)", goal_cases)
  case 1
  show ?case by simp
next
  case (2 ps s p)
  then have "p \<noteq> []" and "take (length p) s = p"
    by (auto simp: find_Some_iff has_prefix_def)
  then have "0 < length p" and "length p \<le> length s"
    by (auto dest: arg_cong [where f = length])
  then have "length s - length p < length s" by linarith
  then show ?case by simp
qed

declare strip_leading.simps [simp del]

definition trim_space :: "string \<Rightarrow> string" where
  "trim_space s =
     rev (strip_leading (map rev space_runes) (rev (strip_leading space_runes s)))"

text \<open>\<^verbatim>\<open>strings.Split\<close> and \<^verbatim>\<open>strings.Cut\<close> on a one-byte separator.\<close>

fun split_on :: "char \<Rightarrow> string \<Rightarrow> string list" where
  "split_on a [] = [[]]"
| "split_on a (c # cs) =
     (if c = a then [] # split_on a cs
      else (case split_on a cs of [] \<Rightarrow> [[c]] | w # ws \<Rightarrow> (c # w) # ws))"

fun cut_at :: "char \<Rightarrow> string \<Rightarrow> (string \<times> string) option" where
  "cut_at a [] = None"
| "cut_at a (c # cs) =
     (if c = a then Some ([], cs)
      else map_option (\<lambda>(x, y). (c # x, y)) (cut_at a cs))"

lemma split_on_not_Nil [simp]: "split_on a s \<noteq> []"
  by (induction s) (auto split: list.splits)

lemma split_on_no_sep: "w \<in> set (split_on a s) \<Longrightarrow> a \<notin> set w"
proof (induction s arbitrary: w)
  case Nil
  then show ?case by simp
next
  case (Cons c cs)
  then show ?case by (auto split: if_splits list.splits)
qed

fun join_with :: "char \<Rightarrow> string list \<Rightarrow> string" where
  "join_with a [] = []"
| "join_with a [w] = w"
| "join_with a (w # v # ws) = w @ a # join_with a (v # ws)"

lemma join_split: "join_with a (split_on a s) = s"
proof (induction s)
  case Nil
  show ?case by simp
next
  case (Cons c cs)
  then show ?case
    by (cases "split_on a cs" rule: list.exhaust; cases "tl (split_on a cs)") auto
qed

lemma split_append: "a \<notin> set w \<Longrightarrow> split_on a (w @ a # s) = w # split_on a s"
  by (induction w) auto

lemma split_no_sep: "a \<notin> set w \<Longrightarrow> split_on a w = [w]"
  by (induction w) auto

lemma split_join:
  assumes "ws \<noteq> []" and "\<forall>w \<in> set ws. a \<notin> set w"
  shows "split_on a (join_with a ws) = ws"
  using assms by (induction a ws rule: join_with.induct) (auto simp: split_no_sep split_append)

text \<open>
  \<^verbatim>\<open>strconv.ParseInt(s, 10, bits)\<close>: an optional sign and at least one decimal digit, and the
  value must fit.  \<^verbatim>\<open>strconv.Atoi\<close> is the case of 64 bits.
\<close>

definition digit_value :: "char \<Rightarrow> nat option" where
  "digit_value c = (let n = of_char c :: nat in if 48 \<le> n \<and> n \<le> 57 then Some (n - 48) else None)"

fun parse_digits :: "nat \<Rightarrow> string \<Rightarrow> nat option" where
  "parse_digits acc [] = Some acc"
| "parse_digits acc (c # cs) =
     (case digit_value c of None \<Rightarrow> None | Some d \<Rightarrow> parse_digits (10 * acc + d) cs)"

definition parse_uint :: "string \<Rightarrow> nat option" where
  "parse_uint s = (if s = [] then None else parse_digits 0 s)"

definition parse_int :: "nat \<Rightarrow> string \<Rightarrow> int option" where
  "parse_int bits s =
     (let (neg, ds) = (case s of [] \<Rightarrow> (False, [])
                       | c # cs \<Rightarrow> if c = CHR ''-'' then (True, cs)
                                  else if c = CHR ''+'' then (False, cs) else (False, s))
      in case parse_uint ds of
           None \<Rightarrow> None
         | Some n \<Rightarrow>
             let v = (if neg then - int n else int n)
             in if - (2 ^ (bits - 1)) \<le> v \<and> v < 2 ^ (bits - 1) then Some v else None)"

lemma parse_int_range:
  "parse_int bits s = Some v \<Longrightarrow> - (2 ^ (bits - 1)) \<le> v \<and> v < 2 ^ (bits - 1)"
  by (auto simp: parse_int_def Let_def split: option.splits prod.splits if_splits)

text \<open>The decimal text of a number, \<^verbatim>\<open>%d\<close> and \<^verbatim>\<open>strconv.Itoa\<close>.\<close>

fun digits_of :: "nat \<Rightarrow> string" where
  "digits_of n =
     (if n < 10 then [char_of (48 + n)] else digits_of (n div 10) @ [char_of (48 + n mod 10)])"

declare digits_of.simps [simp del]

definition decimal :: "int \<Rightarrow> string" where
  "decimal i = (if i < 0 then CHR ''-'' # digits_of (nat (- i)) else digits_of (nat i))"

section \<open>Shared locales\<close>

text \<open>
  A component driven by events: \<open>step\<close> is its handler, \<open>init\<close> its constructor.  The laws
  ask for an invariant that the constructor establishes and every handler keeps; it then
  holds after any sequence of events.
\<close>

locale event_machine =
  fixes init :: "'s \<Rightarrow> bool"
    and step :: "'s \<Rightarrow> 'e \<Rightarrow> 's"
    and inv :: "'s \<Rightarrow> bool"
  assumes init_inv: "init s \<Longrightarrow> inv s"
    and step_inv: "inv s \<Longrightarrow> inv (step s e)"
begin

lemma run_inv_from: "inv s \<Longrightarrow> inv (foldl step s es)"
  by (induction es arbitrary: s) (auto intro: step_inv)

lemma run_inv: "init s \<Longrightarrow> inv (foldl step s es)"
  by (simp add: run_inv_from init_inv)

end

text \<open>
  A component with an abstract specification: \<open>abs\<close> reads the state, \<open>astep\<close> is what the
  specification does on an event.  The law asks for the two to agree on one step; they then agree on
  any history.
\<close>

locale refinement =
  fixes step :: "'s \<Rightarrow> 'e \<Rightarrow> 's"
    and astep :: "'a \<Rightarrow> 'e \<Rightarrow> 'a"
    and abs :: "'s \<Rightarrow> 'a"
    and inv :: "'s \<Rightarrow> bool"
  assumes step_refines: "inv s \<Longrightarrow> abs (step s e) = astep (abs s) e"
    and step_keeps: "inv s \<Longrightarrow> inv (step s e)"
begin

lemma run_refines: "inv s \<Longrightarrow> abs (foldl step s es) = foldl astep (abs s) es \<and> inv (foldl step s es)"
  by (induction es arbitrary: s) (simp_all add: step_refines step_keeps)

end

text \<open>
  A buffered Go channel: \<open>try_send\<close> is the \<^verbatim>\<open>select\<close> with a \<^verbatim>\<open>default\<close> branch (\<open>None\<close> when
  the buffer is full), \<open>try_recv\<close> the receive with a \<^verbatim>\<open>default\<close> branch (\<open>None\<close> when it is
  empty); \<open>contents\<close> reads the queued values, oldest first.
\<close>

locale bounded_channel =
  fixes capacity :: "'q \<Rightarrow> nat"
    and contents :: "'q \<Rightarrow> 'a list"
    and try_send :: "'q \<Rightarrow> 'a \<Rightarrow> 'q option"
    and try_recv :: "'q \<Rightarrow> ('a \<times> 'q) option"
  assumes send_some: "try_send q x = Some q' \<Longrightarrow>
      contents q' = contents q @ [x] \<and> capacity q' = capacity q \<and> length (contents q') \<le> capacity q'"
    and send_none: "try_send q x = None \<longleftrightarrow> capacity q \<le> length (contents q)"
    and recv_some: "try_recv q = Some (x, q') \<Longrightarrow>
      contents q = x # contents q' \<and> capacity q' = capacity q"
    and recv_none: "try_recv q = None \<longleftrightarrow> contents q = []"
begin

lemma send_bounded: "try_send q x = Some q' \<Longrightarrow> length (contents q') \<le> capacity q"
  using send_some by metis

lemma recv_shrinks: "try_recv q = Some (x, q') \<Longrightarrow> length (contents q') < length (contents q)"
  using recv_some by fastforce

lemma recv_bounded:
  "try_recv q = Some (x, q') \<Longrightarrow> length (contents q) \<le> capacity q \<Longrightarrow> length (contents q') \<le> capacity q'"
  using recv_some by fastforce

lemma send_then_recv_empty:
  assumes "contents q = []" and "0 < capacity q"
  obtains q' q'' where "try_send q x = Some q'" and "try_recv q' = Some (x, q'')" and "contents q'' = []"
proof -
  obtain q' where s: "try_send q x = Some q'"
    using send_none assms by (metis le_zero_eq length_0_conv list.size(3) not_less option.exhaust)
  then have c: "contents q' = [x]" using send_some assms(1) by fastforce
  then obtain y q'' where r: "try_recv q' = Some (y, q'')"
    using recv_none by (metis list.distinct(1) not_None_eq prod.exhaust)
  with c recv_some have "y = x" and "contents q'' = []" by fastforce+
  with s r that show ?thesis by blast
qed

end

text \<open>The channel of the model: its capacity and its buffer.\<close>

record 'a chan =
  chan_cap :: nat
  chan_buf :: "'a list"

definition make_chan :: "nat \<Rightarrow> 'a chan" where
  "make_chan n = \<lparr>chan_cap = n, chan_buf = []\<rparr>"

definition chan_try_send :: "'a chan \<Rightarrow> 'a \<Rightarrow> 'a chan option" where
  "chan_try_send q x =
     (if length (chan_buf q) < chan_cap q then Some (q\<lparr>chan_buf := chan_buf q @ [x]\<rparr>) else None)"

definition chan_try_recv :: "'a chan \<Rightarrow> ('a \<times> 'a chan) option" where
  "chan_try_recv q = (case chan_buf q of [] \<Rightarrow> None | x # xs \<Rightarrow> Some (x, q\<lparr>chan_buf := xs\<rparr>))"

definition chan_ok :: "'a chan \<Rightarrow> bool" where
  "chan_ok q \<longleftrightarrow> length (chan_buf q) \<le> chan_cap q"

interpretation ch: bounded_channel chan_cap chan_buf chan_try_send chan_try_recv
  by unfold_locales
     (auto simp: chan_try_send_def chan_try_recv_def split: if_splits list.splits)

lemma make_chan_ok [simp]: "chan_ok (make_chan n)"
  by (simp add: chan_ok_def make_chan_def)

lemma make_chan_fields [simp]: "chan_cap (make_chan n) = n" "chan_buf (make_chan n) = []"
  by (simp_all add: make_chan_def)

lemma chan_send_ok: "chan_try_send q x = Some q' \<Longrightarrow> chan_ok q'"
  by (auto simp: chan_ok_def dest: ch.send_some)

lemma chan_recv_ok: "chan_ok q \<Longrightarrow> chan_try_recv q = Some (x, q') \<Longrightarrow> chan_ok q'"
  unfolding chan_ok_def by (rule ch.recv_bounded)

section \<open>Facts about the string functions\<close>

text \<open>The simplifier computes closed characters with these.\<close>

lemmas char_eval = char_of_def bit_simps

lemma ascii_lower_idem [simp]: "ascii_lower (ascii_lower c) = ascii_lower c"
  by (simp add: ascii_lower_def)

lemma has_prefix_append [simp]: "has_prefix (p @ s) p"
  by (simp add: has_prefix_def)

lemma has_prefix_iff: "has_prefix s p \<longleftrightarrow> (\<exists>r. s = p @ r)"
  by (metis append_eq_conv_conj append_take_drop_id has_prefix_def)

definition ascii :: "string \<Rightarrow> bool" where
  "ascii s \<longleftrightarrow> list_all (\<lambda>c. (of_char c :: nat) < 128) s"

lemma to_lower_ascii: "ascii s \<Longrightarrow> to_lower s = map ascii_lower s"
  by (induction s) (auto simp: ascii_def)

lemma case_fold_ascii: "ascii s \<Longrightarrow> case_fold s = map ascii_lower s"
  by (induction s) (auto simp: ascii_def)

lemma equal_fold_refl [simp]: "equal_fold s s"
  by (simp add: equal_fold_def)

lemma equal_fold_sym: "equal_fold s t \<Longrightarrow> equal_fold t s"
  by (simp add: equal_fold_def)

end
