(* ===== verification/Encoding.thy ===== *)
theory Encoding
  imports Prelude
begin

text \<open>
  The byte codecs of Go's standard library that the program relies on: standard base64
  (package \<^verbatim>\<open>encoding/base64\<close>, strict and lenient decoding), hexadecimal
  (package \<^verbatim>\<open>encoding/hex\<close>) and the fixed-width integers of package \<^verbatim>\<open>encoding/binary\<close>.
  The locale \<open>prefix_code\<close> is the property of the length-prefixed fields that makes the
  signed transcript unambiguous.
\<close>

section \<open>Bytes and numbers\<close>

abbreviation byte_nat :: "char \<Rightarrow> nat" where
  "byte_nat c \<equiv> of_char c"

abbreviation nat_byte :: "nat \<Rightarrow> char" where
  "nat_byte n \<equiv> char_of n"

lemma byte_nat_less [simp]: "byte_nat c < 256"
  by simp

lemma byte_nat_le [simp]: "byte_nat c \<le> 255"
  using byte_nat_less [of c] by linarith

lemma nat_byte_nat [simp]: "byte_nat (nat_byte n) = n mod 256"
  by (simp add: of_char_of)

section \<open>Base64\<close>

definition b64_char :: "nat \<Rightarrow> char" where
  "b64_char n =
     (if n < 26 then nat_byte (65 + n)
      else if n < 52 then nat_byte (71 + n)
      else if n < 62 then nat_byte (n - 4)
      else if n = 62 then CHR ''+'' else CHR ''/'')"

definition b64_val :: "char \<Rightarrow> nat option" where
  "b64_val c =
     (let n = byte_nat c in
      if 65 \<le> n \<and> n \<le> 90 then Some (n - 65)
      else if 97 \<le> n \<and> n \<le> 122 then Some (n - 71)
      else if 48 \<le> n \<and> n \<le> 57 then Some (n + 4)
      else if n = 43 then Some 62
      else if n = 47 then Some 63 else None)"

fun b64_encode :: "string \<Rightarrow> string" where
  "b64_encode [] = []"
| "b64_encode [x] =
     [b64_char (byte_nat x div 4), b64_char (byte_nat x mod 4 * 16), CHR ''='', CHR ''='']"
| "b64_encode [x, y] =
     [b64_char (byte_nat x div 4), b64_char (byte_nat x mod 4 * 16 + byte_nat y div 16),
      b64_char (byte_nat y mod 16 * 4), CHR ''='']"
| "b64_encode (x # y # z # rest) =
     b64_char (byte_nat x div 4) # b64_char (byte_nat x mod 4 * 16 + byte_nat y div 16)
     # b64_char (byte_nat y mod 16 * 4 + byte_nat z div 64) # b64_char (byte_nat z mod 64)
     # b64_encode rest"

text \<open>
  \<open>strict\<close> is \<^verbatim>\<open>Encoding.Strict()\<close>: the unused bits before the padding must be zero.  Both
  decoders skip carriage returns and newlines.
\<close>

fun b64_quanta :: "bool \<Rightarrow> string \<Rightarrow> string option" where
  "b64_quanta strict [] = Some []"
| "b64_quanta strict (a # b # c # d # rest) =
     (case (b64_val a, b64_val b) of
        (Some va, Some vb) \<Rightarrow>
          (case b64_val c of
             None \<Rightarrow>
               if c = CHR ''='' \<and> d = CHR ''='' \<and> rest = [] \<and> (strict \<longrightarrow> vb mod 16 = 0)
               then Some [nat_byte (va * 4 + vb div 16)] else None
           | Some vc \<Rightarrow>
               (case b64_val d of
                  None \<Rightarrow>
                    if d = CHR ''='' \<and> rest = [] \<and> (strict \<longrightarrow> vc mod 4 = 0)
                    then Some [nat_byte (va * 4 + vb div 16), nat_byte ((vb mod 16) * 16 + vc div 4)]
                    else None
                | Some vd \<Rightarrow>
                    map_option
                      (\<lambda>r. nat_byte (va * 4 + vb div 16) # nat_byte ((vb mod 16) * 16 + vc div 4)
                           # nat_byte ((vc mod 4) * 64 + vd) # r)
                      (b64_quanta strict rest)))
      | _ \<Rightarrow> None)"
| "b64_quanta strict _ = None"

definition b64_decode :: "bool \<Rightarrow> string \<Rightarrow> string option" where
  "b64_decode strict s =
     b64_quanta strict (filter (\<lambda>c. c \<noteq> CHR 0x0A \<and> c \<noteq> CHR 0x0D) s)"

definition b64_encoded_len :: "nat \<Rightarrow> nat" where
  "b64_encoded_len n = (n + 2) div 3 * 4"

lemma b64_val_char [simp]: "n < 64 \<Longrightarrow> b64_val (b64_char n) = Some n"
  by (auto simp: b64_char_def b64_val_def Let_def)

lemma b64_val_pad [simp]: "b64_val (CHR ''='') = None"
  by (simp add: b64_val_def)

lemma b64_val_newline: "b64_val (CHR 0x0A) = None" "b64_val (CHR 0x0D) = None"
  by (simp_all add: b64_val_def)

lemma b64_char_no_newline: "n < 64 \<Longrightarrow> b64_char n \<noteq> CHR 0x0A \<and> b64_char n \<noteq> CHR 0x0D"
  using b64_val_char [of n] b64_val_newline by (metis option.distinct(1))

lemma length_b64_encode: "length (b64_encode s) = b64_encoded_len (length s)"
proof (induction s rule: b64_encode.induct)
  case (4 x y z rest)
  have "(5 + length rest) div 3 = Suc ((2 + length rest) div 3)" by linarith
  with "4" show ?case by (simp add: b64_encoded_len_def)
qed (simp_all add: b64_encoded_len_def)

text \<open>The sextets of up to three bytes, and the bytes they give back.\<close>

lemma sextet_bounds [simp]:
  "byte_nat x div 4 < 64" "byte_nat x mod 4 * 16 < 64"
  "byte_nat x mod 4 * 16 + byte_nat y div 16 < 64" "byte_nat y mod 16 * 4 < 64"
  "byte_nat y mod 16 * 4 + byte_nat z div 64 < 64" "byte_nat z mod 64 < 64"
  using byte_nat_less [of x] byte_nat_less [of y] byte_nat_less [of z] by linarith+

lemma sextets_back [simp]:
  "byte_nat x div 16 div 16 = 0" "byte_nat x div 16 mod 16 = byte_nat x div 16"
  "byte_nat x div 64 div 4 = 0" "byte_nat x div 64 mod 4 = byte_nat x div 64"
proof -
  have "byte_nat x div 16 < 16" and "byte_nat x div 64 < 4"
    using byte_nat_less [of x] by linarith+
  then show "byte_nat x div 16 div 16 = 0" "byte_nat x div 16 mod 16 = byte_nat x div 16"
    "byte_nat x div 64 div 4 = 0" "byte_nat x div 64 mod 4 = byte_nat x div 64"
    by simp_all
qed

lemma b64_encode_no_newline:
  "filter (\<lambda>c. c \<noteq> CHR 0x0A \<and> c \<noteq> CHR 0x0D) (b64_encode s) = b64_encode s"
  by (induction s rule: b64_encode.induct) (simp_all add: b64_char_no_newline)

lemma b64_quanta_encode: "b64_quanta strict (b64_encode s) = Some s"
  by (induction s rule: b64_encode.induct) simp_all

lemma b64_decode_encode [simp]: "b64_decode strict (b64_encode s) = Some s"
  by (simp add: b64_decode_def b64_encode_no_newline b64_quanta_encode)

lemma b64_encode_inj: "b64_encode s = b64_encode t \<longleftrightarrow> s = t"
  using b64_decode_encode [of False] by (metis option.inject)

section \<open>Hexadecimal\<close>

definition hex_val :: "char \<Rightarrow> nat option" where
  "hex_val c =
     (let n = byte_nat c in
      if 48 \<le> n \<and> n \<le> 57 then Some (n - 48)
      else if 97 \<le> n \<and> n \<le> 102 then Some (n - 87)
      else if 65 \<le> n \<and> n \<le> 70 then Some (n - 55) else None)"

definition hex_char :: "nat \<Rightarrow> char" where
  "hex_char n = (if n < 10 then nat_byte (48 + n) else nat_byte (87 + n))"

fun hex_decode :: "string \<Rightarrow> string option" where
  "hex_decode [] = Some []"
| "hex_decode [c] = None"
| "hex_decode (a # b # rest) =
     (case (hex_val a, hex_val b) of
        (Some x, Some y) \<Rightarrow> map_option (\<lambda>r. nat_byte (x * 16 + y) # r) (hex_decode rest)
      | _ \<Rightarrow> None)"

fun hex_encode :: "string \<Rightarrow> string" where
  "hex_encode [] = []"
| "hex_encode (c # cs) = hex_char (byte_nat c div 16) # hex_char (byte_nat c mod 16) # hex_encode cs"

lemma hex_val_char [simp]: "n < 16 \<Longrightarrow> hex_val (hex_char n) = Some n"
  by (auto simp: hex_char_def hex_val_def Let_def)

lemma hex_decode_encode [simp]: "hex_decode (hex_encode s) = Some s"
proof (induction s)
  case (Cons c cs)
  have "byte_nat c div 16 < 16" using byte_nat_less [of c] by linarith
  with Cons show ?case by simp
qed simp

lemma length_hex_encode [simp]: "length (hex_encode s) = 2 * length s"
  by (induction s) simp_all

lemma hex_decode_length: "hex_decode s = Some d \<Longrightarrow> length s = 2 * length d"
  by (induction s arbitrary: d rule: hex_decode.induct) (auto split: option.splits)

section \<open>Fixed-width integers\<close>

text \<open>\<^verbatim>\<open>binary.BigEndian\<close> and \<^verbatim>\<open>binary.LittleEndian\<close> on \<^verbatim>\<open>uint32\<close>: the conversion wraps.\<close>

definition be32 :: "nat \<Rightarrow> string" where
  "be32 n = map nat_byte [n div 256 div 256 div 256, n div 256 div 256, n div 256, n]"

definition le32 :: "nat \<Rightarrow> string" where
  "le32 n = map nat_byte [n, n div 256, n div 256 div 256, n div 256 div 256 div 256]"

fun le32_value :: "string \<Rightarrow> nat" where
  "le32_value (a # b # c # d # _) =
     byte_nat a + 256 * byte_nat b + 65536 * byte_nat c + 16777216 * byte_nat d"
| "le32_value _ = 0"

lemma length_be32 [simp]: "length (be32 n) = 4"
  by (simp add: be32_def)

lemma length_le32 [simp]: "length (le32 n) = 4"
  by (simp add: le32_def)

lemma nat_byte_eq: "nat_byte a = nat_byte b \<longleftrightarrow> a mod 256 = b mod 256"
  by (metis nat_byte_nat of_char_eq_iff)

lemma four_bytes:
  fixes n :: nat
  assumes "n < 2 ^ 32"
  shows "n = n mod 256 + 256 * (n div 256 mod 256) + 65536 * (n div 256 div 256 mod 256)
           + 16777216 * (n div 256 div 256 div 256 mod 256)"
proof -
  have "n div 256 div 256 div 256 < 256"
    using assms by simp
  then have "n div 256 div 256 div 256 mod 256 = n div 256 div 256 div 256" by (rule mod_less)
  moreover have "n = n div 256 * 256 + n mod 256"
    and "n div 256 = n div 256 div 256 * 256 + n div 256 mod 256"
    and "n div 256 div 256 = n div 256 div 256 div 256 * 256 + n div 256 div 256 mod 256"
    by (rule div_mult_mod_eq [symmetric])+
  ultimately show ?thesis by linarith
qed

lemma le32_value_le32: "n < 2 ^ 32 \<Longrightarrow> le32_value (le32 n) = n"
  using four_bytes [of n] by (simp add: le32_def)

lemma be32_inj:
  assumes "m < 2 ^ 32" and "n < 2 ^ 32" and "be32 m = be32 n"
  shows "m = n"
proof -
  from assms(3) have
    "m div 256 div 256 div 256 mod 256 = n div 256 div 256 div 256 mod 256"
    "m div 256 div 256 mod 256 = n div 256 div 256 mod 256"
    "m div 256 mod 256 = n div 256 mod 256" "m mod 256 = n mod 256"
    by (simp_all add: be32_def nat_byte_eq)
  with four_bytes [OF assms(1)] four_bytes [OF assms(2)] show ?thesis by simp
qed

section \<open>Prefix codes\<close>

text \<open>
  An encoding of fields that can be cut off the front of any text unambiguously: a sequence
  of encoded fields then determines the sequence.
\<close>

locale prefix_code =
  fixes ok :: "'a \<Rightarrow> bool"
    and enc :: "'a \<Rightarrow> 'b list"
  assumes enc_cut: "ok x \<Longrightarrow> ok y \<Longrightarrow> enc x @ r = enc y @ r' \<Longrightarrow> x = y \<and> r = r'"
    and enc_nonempty: "ok x \<Longrightarrow> enc x \<noteq> []"
begin

lemma concat_inj:
  assumes "list_all ok xs" and "list_all ok ys" and "concat (map enc xs) = concat (map enc ys)"
  shows "xs = ys"
  using assms
proof (induction xs arbitrary: ys)
  case Nil
  then show ?case by (cases ys) (auto dest: enc_nonempty)
next
  case (Cons x xs)
  then obtain y ys' where ys: "ys = y # ys'"
    by (cases ys) (auto dest: enc_nonempty)
  with Cons.prems have "x = y \<and> concat (map enc xs) = concat (map enc ys')"
    by (intro enc_cut) simp_all
  with Cons ys show ?case by simp
qed

end

text \<open>The field of the program: a big-endian 32-bit length, then the bytes.\<close>

definition length_prefixed :: "string \<Rightarrow> string" where
  "length_prefixed f = be32 (length f) @ f"

definition field_ok :: "string \<Rightarrow> bool" where
  "field_ok f \<longleftrightarrow> length f < 2 ^ 32"

interpretation lp: prefix_code field_ok length_prefixed
proof unfold_locales
  fix x y r r'
  assume ok: "field_ok x" "field_ok y" and eq: "length_prefixed x @ r = length_prefixed y @ r'"
  from eq have "be32 (length x) = be32 (length y)" and tail: "x @ r = y @ r'"
    by (simp_all add: length_prefixed_def append_eq_append_conv)
  with ok have "length x = length y"
    unfolding field_ok_def by (intro be32_inj)
  with tail show "x = y \<and> r = r'" by (simp add: append_eq_append_conv)
next
  fix x
  show "length_prefixed x \<noteq> []"
    by (simp add: length_prefixed_def be32_def)
qed

end
