(* ===== verification/Json.thy ===== *)
theory Json
  imports Prelude
begin

text \<open>
  Decoding of JSON messages into Go structs, as package \<^verbatim>\<open>encoding/json\<close> does it: keys are
  matched exactly first and by letter-case folding otherwise, a later key overrides an earlier
  one, \<^verbatim>\<open>null\<close> leaves a field alone, a value of the wrong kind is an error that decoding
  remembers while it goes on, and an unmarshaler's error stops it.  The lexing of the text into
  a JSON value is a parameter wherever a component receives bytes.
\<close>

datatype json =
    JNull
  | JBool bool
  | JNum string
  | JStr string
  | JArr "json list"
  | JObj "(string \<times> json) list"

text \<open>What storing one JSON value into one struct field does.\<close>

datatype 'v conv = Keep | Set_to 'v | Mismatch | Abort

text \<open>The values of the field types that the program's messages have.\<close>

datatype fval = VStr string | VInt int | VTime int | VBool bool

definition conv_string :: "json \<Rightarrow> fval conv" where
  "conv_string j = (case j of JNull \<Rightarrow> Keep | JStr s \<Rightarrow> Set_to (VStr s) | _ \<Rightarrow> Mismatch)"

definition conv_int :: "nat \<Rightarrow> json \<Rightarrow> fval conv" where
  "conv_int bits j =
     (case j of
        JNull \<Rightarrow> Keep
      | JNum lit \<Rightarrow> (case parse_int bits lit of None \<Rightarrow> Mismatch | Some v \<Rightarrow> Set_to (VInt v))
      | _ \<Rightarrow> Mismatch)"

definition conv_bool :: "json \<Rightarrow> fval conv" where
  "conv_bool j = (case j of JNull \<Rightarrow> Keep | JBool b \<Rightarrow> Set_to (VBool b) | _ \<Rightarrow> Mismatch)"

text \<open>\<^verbatim>\<open>time.Time.UnmarshalJSON\<close>; the RFC 3339 parser is the argument.\<close>

definition conv_time :: "(string \<Rightarrow> int option) \<Rightarrow> json \<Rightarrow> fval conv" where
  "conv_time parse j =
     (case j of
        JNull \<Rightarrow> Keep
      | JStr s \<Rightarrow> (case parse s of None \<Rightarrow> Abort | Some t \<Rightarrow> Set_to (VTime t))
      | _ \<Rightarrow> Abort)"

type_synonym 'v fields = "(string \<times> (json \<Rightarrow> 'v conv)) list"

definition find_field :: "'v fields \<Rightarrow> string \<Rightarrow> (string \<times> (json \<Rightarrow> 'v conv)) option" where
  "find_field fs k =
     (case find (\<lambda>f. fst f = k) fs of
        Some f \<Rightarrow> Some f
      | None \<Rightarrow> find (\<lambda>f. equal_fold (fst f) k) fs)"

text \<open>The decoded fields so far and whether an error has been remembered.\<close>

fun unmarshal_members ::
    "bool \<Rightarrow> 'v fields \<Rightarrow> (string \<times> json) list \<Rightarrow> (string \<rightharpoonup> 'v) \<Rightarrow> bool \<Rightarrow> (string \<rightharpoonup> 'v) \<times> bool" where
  "unmarshal_members strict fs [] m bad = (m, bad)"
| "unmarshal_members strict fs ((k, j) # rest) m bad =
     (case find_field fs k of
        None \<Rightarrow> unmarshal_members strict fs rest m (bad \<or> strict)
      | Some (name, conv) \<Rightarrow>
          (case conv j of
             Keep \<Rightarrow> unmarshal_members strict fs rest m bad
           | Set_to v \<Rightarrow> unmarshal_members strict fs rest (m(name \<mapsto> v)) bad
           | Mismatch \<Rightarrow> unmarshal_members strict fs rest m True
           | Abort \<Rightarrow> (m, True)))"

definition unmarshal :: "bool \<Rightarrow> 'v fields \<Rightarrow> json \<Rightarrow> (string \<rightharpoonup> 'v) \<times> bool" where
  "unmarshal strict fs j =
     (case j of
        JNull \<Rightarrow> (Map.empty, False)
      | JObj ms \<Rightarrow> unmarshal_members strict fs ms Map.empty False
      | _ \<Rightarrow> (Map.empty, True))"

text \<open>Reading the fields: a field that was not set has its type's zero value.\<close>

definition get_str :: "(string \<rightharpoonup> fval) \<Rightarrow> string \<Rightarrow> string" where
  "get_str m k = (case m k of Some (VStr s) \<Rightarrow> s | _ \<Rightarrow> [])"

definition get_int :: "(string \<rightharpoonup> fval) \<Rightarrow> string \<Rightarrow> int" where
  "get_int m k = (case m k of Some (VInt v) \<Rightarrow> v | _ \<Rightarrow> 0)"

definition get_bool :: "(string \<rightharpoonup> fval) \<Rightarrow> string \<Rightarrow> bool" where
  "get_bool m k = (case m k of Some (VBool b) \<Rightarrow> b | _ \<Rightarrow> False)"

definition get_time :: "(string \<rightharpoonup> fval) \<Rightarrow> string \<Rightarrow> int option" where
  "get_time m k = (case m k of Some (VTime t) \<Rightarrow> Some t | _ \<Rightarrow> None)"

lemma unmarshal_bad_mono: "unmarshal_members strict fs ms m True = (m', b) \<Longrightarrow> b"
  by (induction ms arbitrary: m) (auto split: option.splits conv.splits)

text \<open>
  With field names that stay different after case folding, a field's value depends only on the
  members whose key matches its name, in their order.
\<close>

definition fold_distinct :: "'v fields \<Rightarrow> bool" where
  "fold_distinct fs \<longleftrightarrow> distinct (map (case_fold \<circ> fst) fs)"

fun last_value :: "string \<Rightarrow> (json \<Rightarrow> 'v conv) \<Rightarrow> (string \<times> json) list \<Rightarrow> 'v option \<Rightarrow> 'v option" where
  "last_value n conv [] v = v"
| "last_value n conv ((k, j) # rest) v =
     last_value n conv rest
       (if equal_fold n k then (case conv j of Set_to x \<Rightarrow> Some x | _ \<Rightarrow> v) else v)"

lemma fold_distinct_unique:
  "fold_distinct fs \<Longrightarrow> f \<in> set fs \<Longrightarrow> g \<in> set fs \<Longrightarrow> case_fold (fst f) = case_fold (fst g) \<Longrightarrow> f = g"
  unfolding fold_distinct_def distinct_map by (metis comp_apply inj_onD)

lemma find_field_member:
  assumes "find_field fs k = Some f"
  shows "f \<in> set fs \<and> equal_fold (fst f) k"
proof (cases "find (\<lambda>f. fst f = k) fs")
  case None
  with assms show ?thesis by (auto simp: find_field_def find_Some_iff)
next
  case (Some g)
  with assms show ?thesis by (auto simp: find_field_def find_Some_iff)
qed

lemma find_field_fold:
  assumes "fold_distinct fs" and "(n, conv) \<in> set fs"
  shows "find_field fs k = Some (n, conv) \<longleftrightarrow> equal_fold n k"
proof
  assume "find_field fs k = Some (n, conv)"
  then show "equal_fold n k" by (auto dest: find_field_member)
next
  assume e: "equal_fold n k"
  have "find_field fs k \<noteq> None"
  proof (cases "find (\<lambda>f. fst f = k) fs")
    case None
    have "find (\<lambda>f. equal_fold (fst f) k) fs \<noteq> None"
      unfolding find_None_iff using assms(2) e by (metis fst_conv)
    with None show ?thesis by (simp add: find_field_def)
  qed (simp add: find_field_def)
  then obtain f where f: "find_field fs k = Some f" by blast
  from find_field_member [OF f] e assms have "f = (n, conv)"
    by (intro fold_distinct_unique [OF assms(1)]) (simp_all add: equal_fold_def)
  with f show "find_field fs k = Some (n, conv)" by simp
qed

lemma unmarshal_members_field:
  assumes "fold_distinct fs" and "(n, conv) \<in> set fs"
    and "unmarshal_members strict fs ms m bad = (m', False)"
  shows "m' n = last_value n conv ms (m n)"
  using assms(3)
proof (induction ms arbitrary: m bad)
  case Nil
  then show ?case by simp
next
  case (Cons kj ms)
  obtain k j where kj: "kj = (k, j)" by (cases kj)
  show ?case
  proof (cases "find_field fs k")
    case None
    with Cons.prems kj have "m' n = last_value n conv ms (m n)" by (intro Cons.IH) simp
    moreover have "\<not> equal_fold n k" using None find_field_fold [OF assms(1,2), of k] by simp
    ultimately show ?thesis by (simp add: kj)
  next
    case (Some f)
    obtain n' conv' where f: "f = (n', conv')" by (cases f)
    have same: "equal_fold n k \<longleftrightarrow> n' = n \<and> conv' = conv"
      using Some f find_field_fold [OF assms(1,2), of k] by auto
    have other: "n' = n \<Longrightarrow> conv' = conv"
      using find_field_member [OF Some] f fold_distinct_unique [OF assms(1) _ assms(2)] by force
    show ?thesis
    proof (cases "conv' j")
      case (Set_to v)
      with Cons.prems kj Some f have "unmarshal_members strict fs ms (m(n' \<mapsto> v)) bad = (m', False)"
        by simp
      then have "m' n = last_value n conv ms ((m(n' \<mapsto> v)) n)" by (rule Cons.IH)
      with Set_to same other show ?thesis by (auto simp: kj)
    next
      case Keep
      with Cons.prems kj Some f have "m' n = last_value n conv ms (m n)" by (intro Cons.IH) simp
      with Keep same show ?thesis by (auto simp: kj)
    next
      case Mismatch
      with Cons.prems kj Some f show ?thesis by (auto dest: unmarshal_bad_mono)
    next
      case Abort
      with Cons.prems kj Some f show ?thesis by simp
    qed
  qed
qed

definition object_members :: "json \<Rightarrow> (string \<times> json) list" where
  "object_members j = (case j of JObj ms \<Rightarrow> ms | _ \<Rightarrow> [])"

lemma unmarshal_field:
  assumes "unmarshal strict fs j = (m, False)" and "fold_distinct fs" and "(n, conv) \<in> set fs"
  shows "m n = last_value n conv (object_members j) None"
  using assms unmarshal_members_field [OF assms(2,3)]
  by (cases j) (auto simp: unmarshal_def object_members_def)

end
