(* ===== verification/AgentAuth.thy ===== *)
theory AgentAuth
  imports Encoding Json
begin

text \<open>
  The agent authentication protocol: \<^verbatim>\<open>internal/agentauth/protocol.go\<close> (identifiers, the
  canonical base64 fields, the signed transcript, the strict message reader) and the client
  side of the handshake, \<^verbatim>\<open>client/auth.go\<close>.  Random bytes, the Ed25519 signature, the
  socket and the private-key loader are what the environment of a run supplies.
\<close>

section \<open>Protocol constants and messages\<close>

definition Version :: string where
  "Version = ''THESIS-RAT-AGENT-AUTH-V1''"

definition NonceSize :: nat where
  "NonceSize = 32"

definition MessageLimit :: nat where
  "MessageLimit = 4096"

datatype protocol_error = ErrProtocol | ErrCredential | ErrRead

record Hello =
  hello_type :: string
  hello_version :: string
  hello_agent_id :: string
  hello_client_nonce :: string

record Challenge =
  challenge_type :: string
  challenge_version :: string
  challenge_id :: string
  challenge_server_nonce :: string

record Proof =
  proof_type :: string
  proof_version :: string
  proof_challenge_id :: string
  proof_signature :: string

record OK =
  ok_type :: string
  ok_version :: string

section \<open>Identifiers and fields\<close>

definition CanonicalID :: "string \<Rightarrow> protocol_error + string" where
  "CanonicalID i =
     (if length i \<noteq> 36 \<or> i ! 8 \<noteq> CHR ''-'' \<or> i ! 13 \<noteq> CHR ''-'' \<or> i ! 18 \<noteq> CHR ''-'' \<or> i ! 23 \<noteq> CHR ''-''
      then Inl ErrProtocol
      else let raw = delete_char (CHR ''-'') i
           in if length raw \<noteq> 32 then Inl ErrProtocol
              else case hex_decode raw of
                     None \<Rightarrow> Inl ErrProtocol
                   | Some _ \<Rightarrow> Inr (to_lower i))"

definition Decode :: "string \<Rightarrow> nat \<Rightarrow> protocol_error + string" where
  "Decode v n =
     (if length v \<noteq> b64_encoded_len n then Inl ErrProtocol
      else case b64_decode True v of
             None \<Rightarrow> Inl ErrProtocol
           | Some data \<Rightarrow> if length data \<noteq> n \<or> b64_encode data \<noteq> v then Inl ErrProtocol else Inr data)"

definition PublicKey :: "string \<Rightarrow> protocol_error + string" where
  "PublicKey v =
     (if length v > 256 then Inl ErrCredential
      else case Decode (trim_space v) 32 of
             Inl _ \<Rightarrow> Inl ErrCredential
           | Inr key \<Rightarrow> Inr key)"

text \<open>\<open>rand\<close> is what \<^verbatim>\<open>rand.Read\<close> put into the 32-byte buffer, or \<open>None\<close> if it failed.\<close>

definition Random :: "string option \<Rightarrow> protocol_error + string" where
  "Random rand = (case rand of None \<Rightarrow> Inl ErrRead | Some b \<Rightarrow> Inr (b64_encode b))"

definition Transcript :: "string \<Rightarrow> string \<Rightarrow> string \<Rightarrow> string \<Rightarrow> protocol_error + string" where
  "Transcript i challenge cl server =
     (case CanonicalID i of
        Inl _ \<Rightarrow> Inl ErrProtocol
      | Inr canonical \<Rightarrow>
          if canonical \<noteq> i then Inl ErrProtocol
          else bind_result (Decode challenge NonceSize) (\<lambda>c.
               bind_result (Decode cl NonceSize) (\<lambda>cn.
               bind_result (Decode server NonceSize) (\<lambda>sn.
                 Inr (concat (map length_prefixed [Version, i, c, cn, sn]))))))"

section \<open>Reading one message\<close>

text \<open>
  A frame from the socket: whether it is a text message, and its bytes.  \<open>scan\<close> is the JSON
  decoder's view of the bytes: the values at the front and whether only white space follows
  them.
\<close>

record frame =
  frame_text :: bool
  frame_data :: string

type_synonym lexer = "string \<Rightarrow> json list \<times> bool"

definition string_fields :: "string list \<Rightarrow> fval fields" where
  "string_fields ks = map (\<lambda>k. (k, conv_string)) ks"

definition Read :: "lexer \<Rightarrow> fval fields \<Rightarrow> frame option \<Rightarrow> protocol_error + (string \<rightharpoonup> fval)" where
  "Read scan fs fr =
     (case fr of
        None \<Rightarrow> Inl ErrRead
      | Some f \<Rightarrow>
          if \<not> frame_text f \<or> length (frame_data f) > MessageLimit then Inl ErrProtocol
          else case scan (frame_data f) of
                 ([], _) \<Rightarrow> Inl ErrProtocol
               | (j # rest, eof) \<Rightarrow>
                   (case unmarshal True fs j of
                      (m, bad) \<Rightarrow>
                        if bad then Inl ErrProtocol
                        else if rest \<noteq> [] \<or> \<not> eof then Inl ErrProtocol
                        else Inr m))"

definition challenge_of :: "(string \<rightharpoonup> fval) \<Rightarrow> Challenge" where
  "challenge_of m =
     \<lparr>challenge_type = get_str m ''type'', challenge_version = get_str m ''version'',
      challenge_id = get_str m ''challenge_id'', challenge_server_nonce = get_str m ''server_nonce''\<rparr>"

definition ok_of :: "(string \<rightharpoonup> fval) \<Rightarrow> OK" where
  "ok_of m = \<lparr>ok_type = get_str m ''type'', ok_version = get_str m ''version''\<rparr>"

section \<open>The client's handshake\<close>

datatype load_error = ErrMigrationRequired | ErrLoadOther

datatype auth_failure =
    AuthFailed          \<comment> \<open>the fixed text for every protocol failure\<close>
  | NotConfigured
  | MigrationRequired
  | PrivateKeyUnavailable

text \<open>What one run meets: random bytes, writes, reads, the deadline and the key.\<close>

record auth_env =
  env_rand :: "string option"
  env_hello_sent :: bool
  env_challenge :: "frame option"
  env_key :: "load_error + string"
  env_expired_at_key :: bool
  env_proof_sent :: bool
  env_ok :: "frame option"
  env_expired_at_ok :: bool
  env_lex :: lexer
  env_sign :: "string \<Rightarrow> string \<Rightarrow> string"

text \<open>What a run does, in order.\<close>

datatype auth_action =
    SetReadLimit nat
  | SendHello Hello
  | LoadKey
  | ClearKey
  | SendProof Proof

definition clear_key :: "auth_action list \<Rightarrow> 'r \<Rightarrow> auth_action list \<times> 'r" where
  "clear_key t r = (t @ [ClearKey], r)"

definition authenticate_after_key ::
    "auth_env \<Rightarrow> Challenge \<Rightarrow> string \<Rightarrow> auth_action list \<times> auth_failure option" where
  "authenticate_after_key env ch transcript =
     (case env_key env of
        Inl e \<Rightarrow>
          clear_key [LoadKey]
            (Some (if e = ErrMigrationRequired then MigrationRequired else PrivateKeyUnavailable))
      | Inr key \<Rightarrow>
          if length key \<noteq> 64 \<or> env_expired_at_key env
          then clear_key [LoadKey] (Some PrivateKeyUnavailable)
          else
            let proof = \<lparr>proof_type = ''auth_proof'', proof_version = Version,
                         proof_challenge_id = challenge_id ch,
                         proof_signature = b64_encode (env_sign env key transcript)\<rparr>;
                sent = [LoadKey, ClearKey, SendProof proof]
            in if \<not> env_proof_sent env then clear_key sent (Some AuthFailed)
               else case Read (env_lex env) (string_fields [''type'', ''version'']) (env_ok env) of
                      Inl _ \<Rightarrow> clear_key sent (Some AuthFailed)
                    | Inr m \<Rightarrow>
                        if ok_type (ok_of m) \<noteq> ''auth_ok'' \<or> ok_version (ok_of m) \<noteq> Version
                           \<or> env_expired_at_ok env
                        then clear_key sent (Some AuthFailed)
                        else clear_key sent None)"

definition authenticate_after_hello ::
    "auth_env \<Rightarrow> string \<Rightarrow> string \<Rightarrow> auth_action list \<times> auth_failure option" where
  "authenticate_after_hello env i nonce =
     (case Read (env_lex env) (string_fields [''type'', ''version'', ''challenge_id'', ''server_nonce''])
             (env_challenge env) of
        Inl _ \<Rightarrow> ([], Some AuthFailed)
      | Inr m \<Rightarrow>
          let ch = challenge_of m
          in if challenge_type ch \<noteq> ''auth_challenge'' \<or> challenge_version ch \<noteq> Version
             then ([], Some AuthFailed)
             else case Transcript i (challenge_id ch) nonce (challenge_server_nonce ch) of
                    Inl _ \<Rightarrow> ([], Some AuthFailed)
                  | Inr transcript \<Rightarrow> authenticate_after_key env ch transcript)"

definition authenticate_body ::
    "string \<Rightarrow> bool \<Rightarrow> auth_env \<Rightarrow> auth_action list \<times> auth_failure option" where
  "authenticate_body agent_id has_loader env =
     (case CanonicalID agent_id of
        Inl _ \<Rightarrow> ([], Some NotConfigured)
      | Inr i \<Rightarrow>
          if \<not> has_loader then ([], Some NotConfigured)
          else case Random (env_rand env) of
                 Inl _ \<Rightarrow> ([], Some AuthFailed)
               | Inr nonce \<Rightarrow>
                   let hello = SendHello \<lparr>hello_type = ''auth_hello'', hello_version = Version,
                                          hello_agent_id = i, hello_client_nonce = nonce\<rparr>
                   in if \<not> env_hello_sent env then ([hello], Some AuthFailed)
                      else (case authenticate_after_hello env i nonce of
                              (t, r) \<Rightarrow> (hello # t, r)))"

text \<open>The read limit is set for the handshake and restored on every way out.\<close>

definition authenticate ::
    "string \<Rightarrow> bool \<Rightarrow> auth_env \<Rightarrow> auth_action list \<times> auth_failure option" where
  "authenticate agent_id has_loader env =
     (case authenticate_body agent_id has_loader env of
        (t, r) \<Rightarrow> (SetReadLimit MessageLimit # t @ [SetReadLimit 32768], r))"

section \<open>Identifiers, fields and transcripts\<close>

lemma hex_val_lower [simp]: "hex_val (ascii_lower c) = hex_val c"
proof -
  have "byte_nat (ascii_lower c) =
      (if 65 \<le> byte_nat c \<and> byte_nat c \<le> 90 then byte_nat c + 32 else byte_nat c)"
    by (simp add: ascii_lower_def)
  then show ?thesis by (auto simp: hex_val_def Let_def)
qed

lemma hex_val_ascii: "hex_val c \<noteq> None \<Longrightarrow> byte_nat c < 128"
  by (auto simp: hex_val_def Let_def split: if_splits)

lemma hex_decode_iff:
  "(\<exists>d. hex_decode s = Some d) \<longleftrightarrow> even (length s) \<and> (\<forall>c \<in> set s. hex_val c \<noteq> None)"
  by (induction s rule: hex_decode.induct) (auto split: option.splits)

lemma byte_natD: "byte_nat c = byte_nat d \<Longrightarrow> c = d"
  by (simp only: of_char_eq_iff)

lemma ascii_lower_dash: "ascii_lower c = CHR ''-'' \<longleftrightarrow> c = CHR ''-''"
proof
  assume "ascii_lower c = CHR ''-''"
  then have "byte_nat (ascii_lower c) = 45" by simp
  then have "byte_nat c = byte_nat (CHR ''-'')" by (auto simp: ascii_lower_def split: if_splits)
  then show "c = CHR ''-''" by (rule byte_natD)
qed (simp add: ascii_lower_def)

definition dash_positions :: "nat set" where
  "dash_positions = {8, 13, 18, 23}"

definition uuid_shape :: "string \<Rightarrow> bool" where
  "uuid_shape i \<longleftrightarrow>
     length i = 36 \<and>
     (\<forall>k < 36. if k \<in> dash_positions then i ! k = CHR ''-'' else hex_val (i ! k) \<noteq> None)"

lemma hex_val_dash [simp]: "hex_val (CHR ''-'') = None"
  by (simp add: hex_val_def)

lemma uuid_shape_hex: "uuid_shape i \<Longrightarrow> k < 36 \<Longrightarrow> k \<notin> dash_positions \<Longrightarrow> hex_val (i ! k) \<noteq> None"
  by (simp add: uuid_shape_def)

lemma uuid_shape_dash: "uuid_shape i \<Longrightarrow> k \<in> dash_positions \<Longrightarrow> i ! k = CHR ''-''"
  by (auto simp: uuid_shape_def dash_positions_def)

lemma uuid_shape_length: "uuid_shape i \<Longrightarrow> length i = 36"
  by (simp add: uuid_shape_def)

text \<open>
  The identifiers accepted are exactly those with hexadecimal digits everywhere but in the
  four dash positions: the length check on the digits excludes any further dash.
\<close>

lemma dash_count:
  assumes "length i = 36" and "\<forall>k \<in> dash_positions. i ! k = CHR ''-''"
    and "length (delete_char (CHR ''-'') i) = 32"
  shows "{k. k < 36 \<and> i ! k = CHR ''-''} = dash_positions"
proof -
  let ?D = "{k. k < 36 \<and> i ! k = CHR ''-''}"
  have "card {k. k < 36 \<and> i ! k \<noteq> CHR ''-''} = 32"
    using assms(1,3) by (simp add: delete_char_def length_filter_conv_card)
  moreover have "card ?D + card {k. k < 36 \<and> i ! k \<noteq> CHR ''-''} = 36"
  proof -
    have "?D \<union> {k. k < 36 \<and> i ! k \<noteq> CHR ''-''} = {..<36}" by auto
    moreover have "?D \<inter> {k. k < 36 \<and> i ! k \<noteq> CHR ''-''} = {}" by auto
    ultimately show ?thesis
      using card_Un_disjoint [of ?D "{k. k < 36 \<and> i ! k \<noteq> CHR ''-''}"] by simp
  qed
  ultimately have "card ?D = 4" by simp
  moreover have "dash_positions \<subseteq> ?D" using assms(2) by (auto simp: dash_positions_def)
  moreover have "card dash_positions = 4" by (simp add: dash_positions_def)
  moreover have "finite ?D" by simp
  ultimately show ?thesis using card_subset_eq [of ?D dash_positions] by simp
qed

lemma uuid_shape_iff:
  "uuid_shape i \<longleftrightarrow>
     length i = 36 \<and> i ! 8 = CHR ''-'' \<and> i ! 13 = CHR ''-'' \<and> i ! 18 = CHR ''-'' \<and> i ! 23 = CHR ''-''
     \<and> length (delete_char (CHR ''-'') i) = 32 \<and> hex_decode (delete_char (CHR ''-'') i) \<noteq> None"
  (is "_ \<longleftrightarrow> ?R")
proof
  assume u: "uuid_shape i"
  then have len: "length i = 36" by (simp add: uuid_shape_def)
  have D: "{k. k < 36 \<and> i ! k \<noteq> CHR ''-''} = {..<36} - dash_positions"
    using u by (auto simp: uuid_shape_def)
  have "card ({..<36} - dash_positions) = 32"
    by (subst card_Diff_subset) (auto simp: dash_positions_def)
  with D have l: "length (delete_char (CHR ''-'') i) = 32"
    using len by (simp add: delete_char_def length_filter_conv_card)
  have "\<forall>c \<in> set (delete_char (CHR ''-'') i). hex_val c \<noteq> None"
  proof
    fix c
    assume "c \<in> set (delete_char (CHR ''-'') i)"
    then obtain k where "k < 36" "c = i ! k" "i ! k \<noteq> CHR ''-''"
      using len by (auto simp: delete_char_def in_set_conv_nth)
    then show "hex_val c \<noteq> None"
      using uuid_shape_hex [OF u] uuid_shape_dash [OF u] by blast
  qed
  with l len u show ?R
    by (auto simp: hex_decode_iff uuid_shape_def dash_positions_def)
next
  assume r: ?R
  then have D: "{k. k < 36 \<and> i ! k = CHR ''-''} = dash_positions"
    by (intro dash_count) (auto simp: dash_positions_def)
  have "hex_val (i ! k) \<noteq> None" if "k < 36" "k \<notin> dash_positions" for k
  proof -
    have "i ! k \<in> set (delete_char (CHR ''-'') i)"
      using that D r by (auto simp: delete_char_def)
    with r show ?thesis by (simp add: hex_decode_iff)
  qed
  with r show "uuid_shape i"
    by (auto simp: uuid_shape_def dash_positions_def)
qed

lemma uuid_shape_ascii: "uuid_shape i \<Longrightarrow> ascii i"
proof -
  assume u: "uuid_shape i"
  have "byte_nat c < 128" if "c \<in> set i" for c
  proof -
    from that u obtain k where "k < 36" "c = i ! k"
      by (auto simp: in_set_conv_nth uuid_shape_def)
    show ?thesis
    proof (cases "k \<in> dash_positions")
      case True
      with uuid_shape_dash [OF u] \<open>c = i ! k\<close> show ?thesis by simp
    next
      case False
      with uuid_shape_hex [OF u \<open>k < 36\<close>] \<open>c = i ! k\<close> show ?thesis by (intro hex_val_ascii) simp
    qed
  qed
  then show ?thesis by (simp add: ascii_def list_all_iff)
qed

lemma CanonicalID_iff:
  "CanonicalID i = Inr c \<longleftrightarrow> uuid_shape i \<and> c = map ascii_lower i"
proof (cases "uuid_shape i")
  case True
  then have "CanonicalID i = Inr (to_lower i)"
    by (auto simp: CanonicalID_def uuid_shape_iff)
  with True show ?thesis using to_lower_ascii [OF uuid_shape_ascii [OF True]] by auto
next
  case False
  then have "CanonicalID i = Inl ErrProtocol"
    by (auto simp: CanonicalID_def uuid_shape_iff Let_def)
  with False show ?thesis by simp
qed

lemma uuid_shape_lower: "uuid_shape i \<Longrightarrow> uuid_shape (map ascii_lower i)"
  by (simp add: uuid_shape_def ascii_lower_dash)

lemma CanonicalID_idem: "CanonicalID i = Inr c \<Longrightarrow> CanonicalID c = Inr c"
  by (simp add: CanonicalID_iff uuid_shape_lower comp_def)

lemma CanonicalID_length: "CanonicalID i = Inr c \<Longrightarrow> length c = 36"
  by (simp add: CanonicalID_iff uuid_shape_def)

lemma Decode_iff: "Decode v n = Inr d \<longleftrightarrow> length d = n \<and> v = b64_encode d"
proof
  assume "Decode v n = Inr d"
  then show "length d = n \<and> v = b64_encode d"
    by (cases "b64_decode True v") (simp_all add: Decode_def split: if_splits)
next
  assume "length d = n \<and> v = b64_encode d"
  then show "Decode v n = Inr d"
    by (auto simp: Decode_def length_b64_encode)
qed

lemma Transcript_iff:
  "Transcript i ch cl sv = Inr t \<longleftrightarrow>
     CanonicalID i = Inr i \<and>
     (\<exists>c cn sn. length c = NonceSize \<and> length cn = NonceSize \<and> length sn = NonceSize
        \<and> ch = b64_encode c \<and> cl = b64_encode cn \<and> sv = b64_encode sn
        \<and> t = concat (map length_prefixed [Version, i, c, cn, sn]))"
  by (auto simp: Transcript_def bind_result_Inr Decode_iff split: sum.splits)

lemma transcript_fields_ok:
  assumes "length i = 36" "length c = NonceSize" "length cn = NonceSize" "length sn = NonceSize"
  shows "list_all field_ok [Version, i, c, cn, sn]"
  using assms by (simp add: field_ok_def Version_def NonceSize_def)

lemma Transcript_unambiguous:
  assumes "Transcript i ch cl sv = Inr t" and "Transcript i' ch' cl' sv' = Inr t"
  shows "i = i' \<and> ch = ch' \<and> cl = cl' \<and> sv = sv'"
proof -
  from assms(1) obtain c cn sn where 1: "length i = 36" "length c = NonceSize" "length cn = NonceSize"
      "length sn = NonceSize" "ch = b64_encode c" "cl = b64_encode cn" "sv = b64_encode sn"
    and t: "t = concat (map length_prefixed [Version, i, c, cn, sn])"
    by (auto simp: Transcript_iff dest: CanonicalID_length)
  from assms(2) obtain c' cn' sn' where 2: "length i' = 36" "length c' = NonceSize" "length cn' = NonceSize"
      "length sn' = NonceSize" "ch' = b64_encode c'" "cl' = b64_encode cn'" "sv' = b64_encode sn'"
    and t': "t = concat (map length_prefixed [Version, i', c', cn', sn'])"
    by (auto simp: Transcript_iff dest: CanonicalID_length)
  have "[Version, i, c, cn, sn] = [Version, i', c', cn', sn']"
    using t t' by (intro lp.concat_inj transcript_fields_ok 1 2) simp
  with 1 2 show ?thesis by simp
qed

lemma Transcript_length: "Transcript i ch cl sv = Inr t \<Longrightarrow> length t = 176"
  by (auto simp: Transcript_iff length_prefixed_def Version_def NonceSize_def dest: CanonicalID_length)

section \<open>The handshake\<close>

lemmas authenticate_defs =
  authenticate_def authenticate_body_def authenticate_after_hello_def authenticate_after_key_def
  clear_key_def

definition the_hello :: "string \<Rightarrow> string \<Rightarrow> Hello" where
  "the_hello i nonce =
     \<lparr>hello_type = ''auth_hello'', hello_version = Version, hello_agent_id = i, hello_client_nonce = nonce\<rparr>"

definition the_proof :: "string \<Rightarrow> string \<Rightarrow> Proof" where
  "the_proof challenge sig =
     \<lparr>proof_type = ''auth_proof'', proof_version = Version, proof_challenge_id = challenge,
      proof_signature = b64_encode sig\<rparr>"

text \<open>The challenge that a run accepts, if any, and the transcript it signs.\<close>

definition accepted_challenge :: "auth_env \<Rightarrow> Challenge option" where
  "accepted_challenge env =
     (case Read (env_lex env) (string_fields [''type'', ''version'', ''challenge_id'', ''server_nonce''])
             (env_challenge env) of
        Inl _ \<Rightarrow> None
      | Inr m \<Rightarrow>
          if challenge_type (challenge_of m) = ''auth_challenge'' \<and> challenge_version (challenge_of m) = Version
          then Some (challenge_of m) else None)"

lemma authenticate_after_key_proof:
  assumes "SendProof p \<in> set (fst (authenticate_after_key env ch tr))"
  obtains key where "env_key env = Inr key" and "length key = 64"
    and "p = the_proof (challenge_id ch) (env_sign env key tr)"
  using assms
  by (auto simp: authenticate_after_key_def clear_key_def Let_def the_proof_def
      split: sum.splits if_splits)

lemma authenticate_after_hello_proof:
  assumes "SendProof p \<in> set (fst (authenticate_after_hello env i nonce))"
  obtains ch tr key where "accepted_challenge env = Some ch"
    and "Transcript i (challenge_id ch) nonce (challenge_server_nonce ch) = Inr tr"
    and "env_key env = Inr key" and "p = the_proof (challenge_id ch) (env_sign env key tr)"
  using assms
  by (auto simp: authenticate_after_hello_def accepted_challenge_def Let_def
      split: sum.splits if_splits elim!: authenticate_after_key_proof)

lemma authenticate_body_hello:
  assumes "authenticate_body a ld env = (t, r)" and "t \<noteq> []"
  obtains i nonce where "CanonicalID a = Inr i" and "Random (env_rand env) = Inr nonce"
    and "t = SendHello (the_hello i nonce) #
             (if env_hello_sent env then fst (authenticate_after_hello env i nonce) else [])"
    and "r = (if env_hello_sent env then snd (authenticate_after_hello env i nonce) else Some AuthFailed)"
  using assms
  by (auto simp: authenticate_body_def the_hello_def Let_def split: sum.splits if_splits prod.splits)

lemma authenticate_after_key_cleared:
  "\<exists>t. fst (authenticate_after_key env ch tr) = LoadKey # t @ [ClearKey]"
  by (auto simp: authenticate_after_key_def clear_key_def Let_def split: sum.splits)

lemma authenticate_after_hello_cleared:
  "fst (authenticate_after_hello env i nonce) = [] \<or>
   (\<exists>t. fst (authenticate_after_hello env i nonce) = LoadKey # t @ [ClearKey])"
  using authenticate_after_key_cleared
  by (auto simp: authenticate_after_hello_def Let_def split: sum.splits)

text \<open>
  C1. A signed transcript determines all of its inputs: two handshakes that sign the same
  bytes have the same agent, challenge, client nonce and server nonce, so a proof cannot be
  replayed for any other of them.
\<close>

theorem transcript_injective:
  assumes "Transcript i ch cl sv = Inr t" and "Transcript i' ch' cl' sv' = Inr t"
  shows "i = i' \<and> ch = ch' \<and> cl = cl' \<and> sv = sv'"
  using assms by (rule Transcript_unambiguous)

text \<open>
  A base64 field is accepted exactly when it is the canonical encoding of a value of the
  expected size: padding variants, line breaks, non-zero trailing bits and other lengths are
  all refused, and every value has an accepted encoding.
\<close>

theorem field_decoding_canonical:
  "Decode v n = Inr d \<longleftrightarrow> length d = n \<and> v = b64_encode d"
  by (rule Decode_iff)

text \<open>
  An agent identifier is accepted exactly when it is a hyphenated UUID text, with dashes in
  the four fixed positions only and hexadecimal digits elsewhere; the result is its lower-case
  form, and canonicalising that changes nothing.
\<close>

theorem canonical_id_spec:
  "CanonicalID i = Inr c \<longleftrightarrow> uuid_shape i \<and> c = map ascii_lower i \<and> CanonicalID c = Inr c"
  using CanonicalID_iff CanonicalID_idem by blast

lemma sent_proof:
  assumes "SendProof p \<in> set (fst (authenticate a ld env))"
  shows "\<exists>i nonce ch tr key.
      CanonicalID a = Inr i \<and> SendHello (the_hello i nonce) \<in> set (fst (authenticate a ld env))
      \<and> accepted_challenge env = Some ch
      \<and> Transcript i (challenge_id ch) nonce (challenge_server_nonce ch) = Inr tr
      \<and> env_key env = Inr key
      \<and> p = the_proof (challenge_id ch) (env_sign env key tr)"
proof -
  obtain t r where b: "authenticate_body a ld env = (t, r)" by (cases "authenticate_body a ld env")
  with assms have p: "SendProof p \<in> set t" by (auto simp: authenticate_def)
  then have "t \<noteq> []" by auto
  with b obtain i nonce where i: "CanonicalID a = Inr i" and t: "t = SendHello (the_hello i nonce) #
      (if env_hello_sent env then fst (authenticate_after_hello env i nonce) else [])"
    by (rule authenticate_body_hello)
  with p have "SendProof p \<in> set (fst (authenticate_after_hello env i nonce))"
    by (auto split: if_splits)
  with i b t show ?thesis
    by (elim authenticate_after_hello_proof) (fastforce simp: authenticate_def)
qed

text \<open>
  C2. In any run, whatever the peer sends and whichever write, read, deadline or key access
  fails: a proof goes out only after a challenge of the right type and version was accepted and
  the key was loaded, and it signs the transcript of this run's own identifier and nonce with
  that challenge.
\<close>

theorem proof_only_for_accepted_challenge:
  assumes "SendProof p \<in> set (fst (authenticate a ld env))"
  shows "\<exists>i nonce ch tr key.
      CanonicalID a = Inr i \<and> SendHello (the_hello i nonce) \<in> set (fst (authenticate a ld env))
      \<and> accepted_challenge env = Some ch
      \<and> Transcript i (challenge_id ch) nonce (challenge_server_nonce ch) = Inr tr
      \<and> env_key env = Inr key
      \<and> p = the_proof (challenge_id ch) (env_sign env key tr)"
  using assms by (rule sent_proof)

text \<open>
  On every way out of the handshake the socket's read limit is restored, and when the
  private key was loaded it is cleared afterwards, as the last thing but that.
\<close>

theorem handshake_cleans_up:
  "last (fst (authenticate a ld env)) = SetReadLimit 32768
   \<and> (LoadKey \<in> set (fst (authenticate a ld env)) \<longrightarrow>
        last (butlast (fst (authenticate a ld env))) = ClearKey)"
proof -
  obtain t r where b: "authenticate_body a ld env = (t, r)" by (cases "authenticate_body a ld env")
  have "last t = ClearKey \<and> t \<noteq> []" if "LoadKey \<in> set t"
  proof -
    from that have "t \<noteq> []" by auto
    with b obtain i nonce where "t = SendHello (the_hello i nonce) #
      (if env_hello_sent env then fst (authenticate_after_hello env i nonce) else [])"
      by (rule authenticate_body_hello)
    with that show ?thesis
      using authenticate_after_hello_cleared [of env i nonce] by (auto split: if_splits)
  qed
  with b show ?thesis by (auto simp: authenticate_def butlast_append)
qed

text \<open>
  C8. The handshake succeeds only by the whole exchange in order: hello, key loaded, key
  cleared, proof, and an acceptance message of the right type and version read before the
  deadline.
\<close>

theorem handshake_success:
  assumes "snd (authenticate a ld env) = None"
  shows "\<exists>i nonce ch tr key m.
      fst (authenticate a ld env) =
        [SetReadLimit 4096, SendHello (the_hello i nonce), LoadKey, ClearKey,
         SendProof (the_proof (challenge_id ch) (env_sign env key tr)), ClearKey, SetReadLimit 32768]
      \<and> CanonicalID a = Inr i \<and> accepted_challenge env = Some ch
      \<and> Transcript i (challenge_id ch) nonce (challenge_server_nonce ch) = Inr tr
      \<and> Read (env_lex env) (string_fields [''type'', ''version'']) (env_ok env) = Inr m
      \<and> ok_of m = \<lparr>ok_type = ''auth_ok'', ok_version = Version\<rparr> \<and> \<not> env_expired_at_ok env"
  using assms
  by (auto simp: authenticate_defs Let_def the_hello_def the_proof_def accepted_challenge_def
      MessageLimit_def ok_of_def split: sum.splits if_splits prod.splits)

section \<open>Witnesses\<close>

text \<open>A run in which everything succeeds.\<close>

definition sample_id :: string where
  "sample_id = ''11111111-1111-4111-8111-111111111111''"

definition sample_nonce :: string where
  "sample_nonce = replicate 32 (CHR ''x'')"

definition sample_docs :: "string \<Rightarrow> json list \<times> bool" where
  "sample_docs d =
     (if d = ''challenge''
      then ([JObj [(''type'', JStr ''auth_challenge''), (''version'', JStr Version),
                   (''challenge_id'', JStr (b64_encode sample_nonce)),
                   (''server_nonce'', JStr (b64_encode sample_nonce))]], True)
      else ([JObj [(''type'', JStr ''auth_ok''), (''version'', JStr Version)]], True))"

definition sample_env :: auth_env where
  "sample_env =
     \<lparr>env_rand = Some sample_nonce, env_hello_sent = True,
      env_challenge = Some \<lparr>frame_text = True, frame_data = ''challenge''\<rparr>,
      env_key = Inr (replicate 64 (CHR ''k'')), env_expired_at_key = False, env_proof_sent = True,
      env_ok = Some \<lparr>frame_text = True, frame_data = ''ok''\<rparr>, env_expired_at_ok = False,
      env_lex = sample_docs, env_sign = (\<lambda>k t. t)\<rparr>"

lemma sample_id_shape: "uuid_shape sample_id"
  unfolding uuid_shape_iff
  by (simp add: sample_id_def delete_char_def hex_val_def numeral_eq_Suc)

lemma sample_canonical: "CanonicalID sample_id = Inr sample_id"
  using sample_id_shape by (simp add: CanonicalID_iff sample_id_def ascii_lower_def)

definition sample_transcript :: string where
  "sample_transcript = concat (map length_prefixed [Version, sample_id, sample_nonce, sample_nonce, sample_nonce])"

lemma sample_signed:
  "Transcript sample_id (b64_encode sample_nonce) (b64_encode sample_nonce) (b64_encode sample_nonce)
   = Inr sample_transcript"
  by (simp add: Transcript_iff sample_canonical sample_transcript_def sample_nonce_def NonceSize_def
      b64_encode_inj)

lemma sample_run:
  "authenticate sample_id True sample_env =
     ([SetReadLimit 4096, SendHello (the_hello sample_id (b64_encode sample_nonce)), LoadKey, ClearKey,
       SendProof (the_proof (b64_encode sample_nonce) sample_transcript), ClearKey, SetReadLimit 32768], None)"
  by (simp add: authenticate_defs sample_env_def sample_canonical Random_def Read_def MessageLimit_def
      sample_docs_def unmarshal_def find_field_def string_fields_def conv_string_def get_str_def
      challenge_of_def ok_of_def sample_signed the_hello_def the_proof_def Let_def)

theorem transcript_injective_witness:
  "\<exists>t. Transcript sample_id (b64_encode sample_nonce) (b64_encode sample_nonce) (b64_encode sample_nonce) = Inr t
     \<and> sample_id = sample_id"
  using transcript_injective [OF sample_signed sample_signed] sample_signed by blast

theorem proof_only_for_accepted_challenge_witness:
  "\<exists>ch. accepted_challenge sample_env = Some ch
     \<and> SendProof (the_proof (b64_encode sample_nonce) sample_transcript)
         \<in> set (fst (authenticate sample_id True sample_env))"
proof -
  have p: "SendProof (the_proof (b64_encode sample_nonce) sample_transcript)
      \<in> set (fst (authenticate sample_id True sample_env))"
    by (simp add: sample_run)
  show ?thesis using proof_only_for_accepted_challenge [OF p] p by blast
qed

theorem handshake_cleans_up_witness:
  "LoadKey \<in> set (fst (authenticate sample_id True sample_env))
   \<and> last (butlast (fst (authenticate sample_id True sample_env))) = ClearKey"
  using handshake_cleans_up [of sample_id True sample_env] by (simp add: sample_run)

theorem handshake_success_witness:
  "snd (authenticate sample_id True sample_env) = None \<and> \<not> env_expired_at_ok sample_env"
proof -
  have n: "snd (authenticate sample_id True sample_env) = None" by (simp add: sample_run)
  show ?thesis using handshake_success [OF n] n by blast
qed

end
