(* ===== verification/Doubles.thy ===== *)
theory Doubles
  imports Prelude
begin

text \<open>
  The part of IEEE 754 double arithmetic that the program uses on natural numbers: rounding to 53
  significant bits, ties to even, and the quotient of two integers.  A quotient is a pair of an integer and an
  exponent: \<open>(m, s)\<close> stands for \<open>m / 2 ^ s\<close>.  All values here are far from the ends of the exponent range.
\<close>

section \<open>Double rounding\<close>

fun bit_length :: "nat \<Rightarrow> nat" where
  "bit_length n = (if n = 0 then 0 else Suc (bit_length (n div 2)))"

declare bit_length.simps [simp del]

definition round_half_even :: "nat \<Rightarrow> nat \<Rightarrow> nat" where
  "round_half_even n d =
     (let q = n div d; r = n mod d
      in if 2 * r < d \<or> (2 * r = d \<and> even q) then q else q + 1)"

definition round53 :: "nat \<Rightarrow> nat" where
  "round53 n =
     (if bit_length n \<le> 53 then n
      else let d = 2 ^ (bit_length n - 53) in round_half_even n d * d)"

section \<open>Quotients\<close>

text \<open>The double nearest to \<open>a / b\<close>: the exponent that leaves 53 significant bits, then one rounding.\<close>

definition quotient_shift :: "nat \<Rightarrow> nat \<Rightarrow> nat" where
  "quotient_shift a b =
     (let s = 53 + bit_length b - bit_length a in if a * 2 ^ s < b * 2 ^ 53 then s else s - 1)"

definition quotient :: "nat \<Rightarrow> nat \<Rightarrow> nat \<times> nat" where
  "quotient a b = (let s = quotient_shift a b in (round_half_even (a * 2 ^ s) b, s))"

definition double_le :: "nat \<times> nat \<Rightarrow> nat \<times> nat \<Rightarrow> bool" where
  "double_le x y \<longleftrightarrow> fst x * 2 ^ snd y \<le> fst y * 2 ^ snd x"

text \<open>The integer part of the product of an integer and a double.\<close>

definition scaled :: "nat \<Rightarrow> nat \<times> nat \<Rightarrow> nat" where
  "scaled n x = round53 (round53 n * fst x) div 2 ^ snd x"

section \<open>Rounding facts\<close>

lemma bit_length_le: "n < 2 ^ k \<Longrightarrow> bit_length n \<le> k"
proof (induction k arbitrary: n)
  case 0
  then show ?case by (simp add: bit_length.simps)
next
  case (Suc k)
  then have "n div 2 < 2 ^ k" by auto
  then have "bit_length (n div 2) \<le> k" by (rule Suc.IH)
  then show ?case by (subst bit_length.simps) simp
qed

lemma bit_length_bound: "n < 2 ^ bit_length n"
proof (induction n rule: bit_length.induct)
  case (1 n)
  show ?case
  proof (cases "n = 0")
    case True
    then show ?thesis by (simp add: bit_length.simps)
  next
    case False
    with "1" have "n div 2 < 2 ^ bit_length (n div 2)" by simp
    then have "n < 2 * 2 ^ bit_length (n div 2)" by linarith
    with False show ?thesis by (subst bit_length.simps) simp
  qed
qed

lemma round_half_even_le: "0 < d \<Longrightarrow> n \<le> m * d \<Longrightarrow> round_half_even n d \<le> m"
proof -
  assume d: "0 < d" and n: "n \<le> m * d"
  show ?thesis
  proof (cases "n mod d = 0")
    case True
    with d have "round_half_even n d = n div d" by (simp add: round_half_even_def Let_def)
    also have "\<dots> \<le> m" using d n by (metis div_le_mono nonzero_mult_div_cancel_right less_not_refl)
    finally show ?thesis .
  next
    case False
    then have "n \<noteq> m * d" by auto
    with n have "n < m * d" by simp
    then have "n div d < m" using d by (simp add: less_mult_imp_div_less)
    then show ?thesis by (simp add: round_half_even_def Let_def)
  qed
qed

text \<open>
  Rounding cannot pass a multiple of \<open>2 ^ 53\<close> with a small factor: the product with a draw of
  the unit interval stays below the whole window.
\<close>

lemma round53_le:
  assumes "n \<le> w * 2 ^ 53" and "w < 2 ^ 53"
  shows "round53 n \<le> w * 2 ^ 53"
proof (cases "bit_length n \<le> 53")
  case True
  with assms show ?thesis by (simp add: round53_def)
next
  case False
  let ?e = "bit_length n - 53"
  have "n < 2 ^ 106"
  proof -
    have "w * 2 ^ 53 < 2 ^ 53 * 2 ^ 53" using assms(2) by (intro mult_strict_right_mono) simp_all
    with assms(1) show ?thesis by (simp add: power_add [symmetric])
  qed
  then have "bit_length n \<le> 106" by (rule bit_length_le)
  then have e: "?e \<le> 53" by simp
  have split: "w * 2 ^ 53 = (w * 2 ^ (53 - ?e)) * 2 ^ ?e"
    using e by (simp add: mult.assoc power_add [symmetric])
  have "n \<le> (w * 2 ^ (53 - ?e)) * 2 ^ ?e"
    using assms(1) by (simp only: split [symmetric])
  then have "round_half_even n (2 ^ ?e) \<le> w * 2 ^ (53 - ?e)"
    by (intro round_half_even_le) simp_all
  then have "round_half_even n (2 ^ ?e) * 2 ^ ?e \<le> w * 2 ^ 53"
    by (subst split) (rule mult_right_mono, simp_all)
  with False show ?thesis by (simp add: round53_def Let_def)
qed

lemma round53_small: "n < 2 ^ 53 \<Longrightarrow> round53 n = n"
  by (simp add: round53_def bit_length_le)

text \<open>A rounding is off by at most half a unit of its last place.\<close>

lemma round_half_even_bounds:
  assumes "0 < d"
  shows "2 * (round_half_even n d * d) \<le> 2 * n + d" "2 * n \<le> 2 * (round_half_even n d * d) + d"
proof -
  have n: "n = n div d * d + n mod d" by simp
  have r: "n mod d < d" using assms by simp
  have e: "round_half_even n d * d = n div d * d \<and> 2 * (n mod d) \<le> d
      \<or> round_half_even n d * d = n div d * d + d \<and> d \<le> 2 * (n mod d)"
    by (auto simp: round_half_even_def Let_def)
  from e n r show "2 * (round_half_even n d * d) \<le> 2 * n + d" by linarith
  from e n r show "2 * n \<le> 2 * (round_half_even n d * d) + d" by linarith
qed

lemma bit_length_lower: "0 < n \<Longrightarrow> 2 ^ (bit_length n - 1) \<le> n"
proof (induction n rule: bit_length.induct)
  case (1 n)
  show ?case
  proof (cases "n div 2 = 0")
    case True
    with "1.prems" show ?thesis by (simp add: bit_length.simps)
  next
    case False
    then have "0 < n div 2" by simp
    then have b: "bit_length (n div 2) = Suc (bit_length (n div 2) - 1)" by (simp add: bit_length.simps)
    from "1.IH" "1.prems" \<open>0 < n div 2\<close> have "2 ^ (bit_length (n div 2) - 1) \<le> n div 2" by simp
    then have "2 * 2 ^ (bit_length (n div 2) - 1) \<le> n" by linarith
    moreover have "bit_length n = Suc (bit_length (n div 2))" using "1.prems" by (subst bit_length.simps) simp
    ultimately show ?thesis using b by (metis diff_Suc_1 power_Suc)
  qed
qed

lemma half_unit_relative:
  "2 * x \<le> 2 * n + d \<Longrightarrow> 2 * n \<le> 2 * x + d \<Longrightarrow> 2 ^ 52 * d \<le> n \<Longrightarrow>
     2 ^ 53 * x \<le> 2 ^ 53 * n + n \<and> 2 ^ 53 * n \<le> 2 ^ 53 * x + (n :: nat)"
  by simp

lemma round53_bounds: "2 ^ 53 * round53 n \<le> 2 ^ 53 * n + n" "2 ^ 53 * n \<le> 2 ^ 53 * round53 n + n"
proof -
  have "2 ^ 53 * round53 n \<le> 2 ^ 53 * n + n \<and> 2 ^ 53 * n \<le> 2 ^ 53 * round53 n + n"
  proof (cases "bit_length n \<le> 53")
    case True
    then show ?thesis by (simp add: round53_def)
  next
    case False
    let ?d = "2 ^ (bit_length n - 53) :: nat"
    have "0 < n" using False by (cases n) (simp_all add: bit_length.simps)
    then have l: "2 ^ (bit_length n - 1) \<le> n" by (rule bit_length_lower)
    have e: "52 + (bit_length n - 53) = bit_length n - 1" using False by simp
    have d: "2 ^ 52 * ?d \<le> n" unfolding power_add [symmetric] e by (rule l)
    have r: "round53 n = round_half_even n ?d * ?d" using False by (simp add: round53_def Let_def)
    have "0 < ?d" by simp
    show ?thesis unfolding r by (rule half_unit_relative [OF round_half_even_bounds [OF \<open>0 < ?d\<close>] d])
  qed
  then show "2 ^ 53 * round53 n \<le> 2 ^ 53 * n + n" "2 ^ 53 * n \<le> 2 ^ 53 * round53 n + n" by blast+
qed

lemma quotient_shift_bounds:
  assumes "0 < a" and "0 < b" and "bit_length a \<le> 52"
  shows "b * 2 ^ 52 \<le> a * 2 ^ quotient_shift a b"
proof -
  let ?s = "53 + bit_length b - bit_length a"
  have a: "2 ^ (bit_length a - 1) \<le> a" and b: "b < 2 ^ bit_length b"
    using assms bit_length_lower bit_length_bound by blast+
  have "0 < bit_length a" using assms(1) by (simp add: bit_length.simps)
  then have e: "(bit_length a - 1) + ?s = bit_length b + 52" using assms(3) by linarith
  have "b * 2 ^ 52 \<le> 2 ^ bit_length b * 2 ^ 52" using b by simp
  also have "\<dots> = 2 ^ (bit_length a - 1) * 2 ^ ?s" by (simp only: power_add [symmetric] e)
  also have "\<dots> \<le> a * 2 ^ ?s" using a by simp
  finally have 1: "b * 2 ^ 52 \<le> a * 2 ^ ?s" .
  show ?thesis
  proof (cases "a * 2 ^ ?s < b * 2 ^ 53")
    case True
    with 1 show ?thesis by (simp add: quotient_shift_def Let_def)
  next
    case False
    obtain k where k: "?s = Suc k" using assms(3) by (cases ?s) auto
    have "b * 2 ^ 53 \<le> 2 * (a * 2 ^ k)" using False k by simp
    then have "b * 2 ^ 52 \<le> a * 2 ^ k" by simp
    with False k show ?thesis by (simp add: quotient_shift_def Let_def)
  qed
qed

end
