(* ===== verification/Backoff.thy ===== *)
theory Backoff
  imports Doubles
begin

text \<open>
  Package \<^verbatim>\<open>internal/retry\<close>: bounded equal-jitter backoff.  A \<^verbatim>\<open>time.Duration\<close> is a number of
  nanoseconds.  The random source yields a double in the unit interval; \<^verbatim>\<open>rand.Float64\<close> of
  \<^verbatim>\<open>math/rand/v2\<close> returns \<open>k / 2 ^ 53\<close>, so a draw is its numerator \<open>k\<close>, and the product of two
  doubles is rounded to 53 significant bits, ties to even, as IEEE 754 does.
\<close>

section \<open>Scaling\<close>

text \<open>\<^verbatim>\<open>time.Duration(float64(w) * r)\<close> for the draw \<open>r = k / 2 ^ 53\<close>: the product, then truncation.\<close>

definition scale :: "nat \<Rightarrow> nat \<Rightarrow> nat" where
  "scale w k = round53 (round53 w * k) div 2 ^ 53"

section \<open>Backoff\<close>

record backoff =
  bo_base :: nat
  bo_cap :: nat
  bo_next :: nat

datatype 'a panics = Panic | Returns 'a

text \<open>\<open>has_random\<close> is \<^verbatim>\<open>random != nil\<close>; durations may be negative before the check.\<close>

definition NewWithRandom :: "int \<Rightarrow> int \<Rightarrow> bool \<Rightarrow> backoff panics" where
  "NewWithRandom base cap has_random =
     (if base \<le> 0 \<or> cap < base \<or> \<not> has_random then Panic
      else Returns \<lparr>bo_base = nat base, bo_cap = nat cap, bo_next = nat base\<rparr>)"

definition second :: nat where
  "second = 1000000000"

definition New :: "backoff" where
  "New = \<lparr>bo_base = second, bo_cap = 30 * second, bo_next = second\<rparr>"

text \<open>A draw outside the unit interval (an injected source) is clamped.\<close>

definition clamp_draw :: "int \<Rightarrow> nat" where
  "clamp_draw r = (if r < 0 then 0 else if r > 2 ^ 53 then 2 ^ 53 else nat r)"

definition Next :: "backoff \<Rightarrow> int \<Rightarrow> nat \<times> backoff" where
  "Next b r =
     (let window = bo_next b;
          b' = (if bo_next b \<ge> bo_cap b div 2 then b\<lparr>bo_next := bo_cap b\<rparr>
                else b\<lparr>bo_next := bo_next b * 2\<rparr>)
      in (window div 2 + scale (window - window div 2) (clamp_draw r), b'))"

definition Reset :: "backoff \<Rightarrow> backoff" where
  "Reset b = b\<lparr>bo_next := bo_base b\<rparr>"

text \<open>
  \<^verbatim>\<open>Wait\<close>: the context may be done at the call, and either the context or the timer ends the
  select; after the timer the context is looked at again.  \<open>True\<close> is an error.
\<close>

datatype wait_event = CtxDone | TimerFired bool

definition Wait :: "bool \<Rightarrow> wait_event \<Rightarrow> bool" where
  "Wait done_at_call ev =
     (if done_at_call then True
      else case ev of CtxDone \<Rightarrow> True | TimerFired done_after \<Rightarrow> done_after)"

section \<open>Facts about delays\<close>

lemma scale_le: "w < 2 ^ 53 \<Longrightarrow> k \<le> 2 ^ 53 \<Longrightarrow> scale w k \<le> w"
proof -
  assume w: "w < 2 ^ 53" and k: "k \<le> 2 ^ 53"
  have "round53 (w * k) \<le> w * 2 ^ 53"
    using w k by (intro round53_le mult_left_mono) simp_all
  then have "round53 (w * k) div 2 ^ 53 \<le> w * 2 ^ 53 div 2 ^ 53" by (rule div_le_mono)
  with w show ?thesis by (simp add: scale_def round53_small)
qed

lemma clamp_draw_le: "clamp_draw r \<le> 2 ^ 53"
  by (auto simp: clamp_draw_def)

lemma scale_full: "w < 2 ^ 53 \<Longrightarrow> scale w (2 ^ 53) = w"
proof -
  assume w: "w < 2 ^ 53"
  have "round53 (w * 2 ^ 53) = w * 2 ^ 53"
  proof (cases "bit_length (w * 2 ^ 53) \<le> 53")
    case True
    then show ?thesis by (simp add: round53_def)
  next
    case False
    let ?e = "bit_length (w * 2 ^ 53) - 53"
    have "w * 2 ^ 53 < 2 ^ 53 * 2 ^ 53" using w by (intro mult_strict_right_mono) simp_all
    then have "bit_length (w * 2 ^ 53) \<le> 53 + 53"
      by (intro bit_length_le) (simp add: power_add [symmetric])
    then have e: "?e \<le> 53" by simp
    then have "(2::nat) ^ ?e dvd w * 2 ^ 53" by (intro dvd_mult le_imp_power_dvd)
    then have "round_half_even (w * 2 ^ 53) (2 ^ ?e) * 2 ^ ?e = w * 2 ^ 53"
      by (simp add: round_half_even_def Let_def dvd_imp_mod_0)
    with False show ?thesis by (simp add: round53_def Let_def)
  qed
  with w show ?thesis by (simp add: scale_def round53_small)
qed

section \<open>The window\<close>

definition backoff_inv :: "backoff \<Rightarrow> bool" where
  "backoff_inv b \<longleftrightarrow> 0 < bo_base b \<and> bo_base b \<le> bo_next b \<and> bo_next b \<le> bo_cap b \<and> bo_cap b < 2 ^ 53"

declare backoff_inv_def [inv_defs]

datatype backoff_event = DoNext int | DoReset

fun backoff_step :: "backoff \<Rightarrow> backoff_event \<Rightarrow> backoff" where
  "backoff_step b (DoNext r) = snd (Next b r)"
| "backoff_step b DoReset = Reset b"

lemma Next_window: "snd (Next b r) = b\<lparr>bo_next := (if bo_cap b div 2 \<le> bo_next b then bo_cap b else bo_next b * 2)\<rparr>"
  by (simp add: Next_def Let_def)

lemma backoff_step_inv: "backoff_inv b \<Longrightarrow> backoff_inv (backoff_step b e)"
  by (cases e) (auto simp: backoff_inv_def Next_window Reset_def)

interpretation bo: event_machine "\<lambda>b. b = New" backoff_step backoff_inv
proof unfold_locales
  fix b
  assume "b = New"
  then show "backoff_inv b" by (simp add: backoff_inv_def New_def second_def)
next
  fix b e
  assume "backoff_inv b"
  then show "backoff_inv (backoff_step b e)" by (rule backoff_step_inv)
qed

lemma Next_bounds:
  assumes "backoff_inv b"
  shows "bo_next b div 2 \<le> fst (Next b r) \<and> fst (Next b r) \<le> bo_next b"
proof -
  let ?w = "bo_next b - bo_next b div 2"
  have "bo_next b < 2 ^ 53" using assms by (auto simp: backoff_inv_def)
  then have "?w < 2 ^ 53" by (rule le_less_trans [OF diff_le_self])
  then have "scale ?w (clamp_draw r) \<le> ?w" by (rule scale_le [OF _ clamp_draw_le])
  then have "bo_next b div 2 + scale ?w (clamp_draw r) \<le> bo_next b div 2 + ?w" by simp
  then show ?thesis by (simp add: Next_def Let_def)
qed

text \<open>
  C39. Whatever draws and resets came before, the delay of the production backoff is at least
  half a second and at most thirty seconds, rounding of the jitter product included.
\<close>

theorem delay_bounds:
  "second div 2 \<le> fst (Next (foldl backoff_step New es) r)
   \<and> fst (Next (foldl backoff_step New es) r) \<le> 30 * second"
proof -
  let ?b = "foldl backoff_step New es"
  have inv: "backoff_inv ?b" by (rule bo.run_inv) simp
  have cap: "bo_cap ?b = 30 * second \<and> bo_base ?b = second"
  proof (induction es rule: rev_induct)
    case Nil
    show ?case by (simp add: New_def)
  next
    case (snoc e es)
    then show ?case by (cases e) (simp_all add: Next_window Reset_def)
  qed
  with inv have "second div 2 \<le> bo_next ?b div 2" and "bo_next ?b \<le> 30 * second"
    by (simp_all add: backoff_inv_def div_le_mono)
  with Next_bounds [OF inv, of r] show ?thesis by linarith
qed

lemma New_matches: "NewWithRandom (int second) (30 * int second) True = Returns New"
  by (simp add: NewWithRandom_def New_def second_def)

text \<open>The growth of the window: doubling until the cap, where it stays.\<close>

fun windows :: "backoff \<Rightarrow> int list \<Rightarrow> nat list" where
  "windows b [] = []"
| "windows b (r # rs) = bo_next b # windows (snd (Next b r)) rs"

lemma window_monotone: "backoff_inv b \<Longrightarrow> bo_next b \<le> bo_next (snd (Next b r))"
  by (auto simp: Next_window backoff_inv_def)

text \<open>
  The windows from which consecutive delays are drawn, without a reset, are the doubled
  ones up to the cap: one, two, four, eight and sixteen seconds and then thirty for ever.
\<close>

theorem window_sequence:
  "map (\<lambda>w. w div second) (windows New [r1, r2, r3, r4, r5, r6, r7]) = [1, 2, 4, 8, 16, 30, 30]"
  by (simp add: Next_window New_def second_def)

end
