(* ===== verification/Transport.thy ===== *)
theory Transport
  imports Encoding
begin

text \<open>
  Package \<^verbatim>\<open>internal/transportpolicy\<close>: the transport mode, the endpoints that may be used, the
  redirects that may be followed and the fixed texts for failures.  A parsed URL is a record of
  the fields of \<^verbatim>\<open>net/url.URL\<close>; the parser itself, \<^verbatim>\<open>url.Parse\<close>, is an argument.  \<^verbatim>\<open>Hostname\<close>,
  \<^verbatim>\<open>Port\<close> and \<^verbatim>\<open>net.ParseIP\<close> are written out.
\<close>

section \<open>URLs and addresses\<close>

record url =
  u_scheme :: string
  u_opaque :: string
  u_user :: "string option"
  u_host :: string
  u_raw_query :: string
  u_force_query :: bool
  u_fragment :: string

type_synonym url_parser = "string \<Rightarrow> url option"

definition is_digit :: "char \<Rightarrow> bool" where
  "is_digit c \<longleftrightarrow> digit_value c \<noteq> None"

text \<open>The part before and after the last colon, if there is one.\<close>

fun cut_last_colon :: "string \<Rightarrow> (string \<times> string) option" where
  "cut_last_colon [] = None"
| "cut_last_colon (c # cs) =
     (case cut_last_colon cs of
        Some (h, p) \<Rightarrow> Some (c # h, p)
      | None \<Rightarrow> if c = CHR '':'' then Some ([], cs) else None)"

definition split_host_port :: "string \<Rightarrow> string \<times> string" where
  "split_host_port hp =
     (let (host, port) = (case cut_last_colon hp of
                            Some (h, p) \<Rightarrow> if list_all is_digit p then (h, p) else (hp, [])
                          | None \<Rightarrow> (hp, []))
      in (if has_prefix host ''['' \<and> has_suffix host '']'' then butlast (tl host) else host, port))"

definition Hostname :: "url \<Rightarrow> string" where
  "Hostname u = fst (split_host_port (u_host u))"

definition Port :: "url \<Rightarrow> string" where
  "Port u = snd (split_host_port (u_host u))"

text \<open>\<^verbatim>\<open>net.ParseIP\<close>: the four bytes of a dotted address, or the sixteen of an IPv6 address.\<close>

definition parse_octet :: "string \<Rightarrow> nat option" where
  "parse_octet s =
     (case parse_uint s of
        None \<Rightarrow> None
      | Some n \<Rightarrow> if n > 255 \<or> (length s > 1 \<and> hd s = CHR ''0'') then None else Some n)"

definition parse_ipv4 :: "string \<Rightarrow> nat list option" where
  "parse_ipv4 s =
     (let os = map parse_octet (split_on (CHR ''.'') s)
      in if length os = 4 \<and> list_all (\<lambda>x. x \<noteq> None) os then Some (map the os) else None)"

fun take_hex :: "string \<Rightarrow> string \<times> string" where
  "take_hex [] = ([], [])"
| "take_hex (c # cs) =
     (if hex_val c = None then ([], c # cs) else (case take_hex cs of (h, r) \<Rightarrow> (c # h, r)))"

fun hex_number :: "nat \<Rightarrow> string \<Rightarrow> nat" where
  "hex_number acc [] = acc"
| "hex_number acc (c # cs) = hex_number (16 * acc + (case hex_val c of None \<Rightarrow> 0 | Some d \<Rightarrow> d)) cs"

text \<open>
  The loop over the groups: \<open>ip\<close> holds the bytes so far and \<open>ell\<close> the position of the
  double colon.  At most eight groups are read, so eight units of \<open>fuel\<close> are enough.
\<close>

fun ipv6_groups :: "nat \<Rightarrow> string \<Rightarrow> nat list \<Rightarrow> nat option \<Rightarrow> (string \<times> nat list \<times> nat option) option" where
  "ipv6_groups 0 s ip ell = Some (s, ip, ell)"
| "ipv6_groups (Suc fuel) s ip ell =
     (if length ip \<ge> 16 then Some (s, ip, ell)
      else case take_hex s of
        (h, rest) \<Rightarrow>
          if h = [] \<or> length h > 4 then None
          else if rest \<noteq> [] \<and> hd rest = CHR ''.'' then
            (if (ell = None \<and> length ip \<noteq> 12) \<or> length ip + 4 > 16 then None
             else map_option (\<lambda>v4. ([], ip @ v4, ell)) (parse_ipv4 s))
          else
            let n = hex_number 0 h; ip' = ip @ [n div 256, n mod 256]
            in case rest of
                 [] \<Rightarrow> Some ([], ip', ell)
               | c # s' \<Rightarrow>
                   if c \<noteq> CHR '':'' \<or> s' = [] then None
                   else if hd s' = CHR '':'' then
                     (if ell \<noteq> None then None
                      else if tl s' = [] then Some ([], ip', Some (length ip'))
                      else ipv6_groups fuel (tl s') ip' (Some (length ip')))
                   else ipv6_groups fuel s' ip' ell)"

definition parse_ipv6 :: "string \<Rightarrow> nat list option" where
  "parse_ipv6 s =
     (if has_prefix s ''::'' \<and> length s = 2 then Some (replicate 16 0)
      else case (if has_prefix s ''::'' then ipv6_groups 8 (drop 2 s) [] (Some 0)
                 else ipv6_groups 8 s [] None) of
             None \<Rightarrow> None
           | Some (rest, ip, ell) \<Rightarrow>
               if rest \<noteq> [] then None
               else if length ip < 16 then
                 (case ell of
                    None \<Rightarrow> None
                  | Some k \<Rightarrow> Some (take k ip @ replicate (16 - length ip) 0 @ drop k ip))
               else if ell \<noteq> None then None else Some ip)"

definition ParseIP :: "string \<Rightarrow> nat list option" where
  "ParseIP s =
     (case find (\<lambda>c. c = CHR ''.'' \<or> c = CHR '':'' \<or> c = CHR ''%'') s of
        Some c \<Rightarrow> if c = CHR ''.'' then parse_ipv4 s
                  else if c = CHR '':'' \<and> CHR ''%'' \<notin> set s then parse_ipv6 s else None
      | None \<Rightarrow> None)"

definition IsLoopback :: "nat list \<Rightarrow> bool" where
  "IsLoopback ip \<longleftrightarrow>
     (if length ip = 4 then hd ip = 127
      else if length ip = 16 \<and> take 12 ip = replicate 10 0 @ [255, 255] then ip ! 12 = 127
      else ip = replicate 15 0 @ [1])"

section \<open>The policy\<close>

definition Mode :: "string \<Rightarrow> bool \<Rightarrow> string option" where
  "Mode v service =
     (let value = trim_space v
      in if value = '''' then Some (if service then ''production'' else ''development'')
         else if value \<noteq> ''production'' \<and> value \<noteq> ''development'' then None
         else Some value)"

definition Loopback :: "string \<Rightarrow> bool" where
  "Loopback host \<longleftrightarrow>
     (if equal_fold host ''localhost'' then True
      else case ParseIP host of None \<Rightarrow> False | Some ip \<Rightarrow> IsLoopback ip)"

datatype endpoint_error =
    NotAbsoluteEndpoint
  | ProductionMustBeSecure
  | DevelopmentLoopbackOnly

definition ValidateEndpoint ::
    "url_parser \<Rightarrow> string \<Rightarrow> bool \<Rightarrow> bool \<Rightarrow> endpoint_error option" where
  "ValidateEndpoint parse v socket production =
     (case parse v of
        None \<Rightarrow> Some NotAbsoluteEndpoint
      | Some u \<Rightarrow>
          if Hostname u = '''' \<or> u_user u \<noteq> None \<or> u_raw_query u \<noteq> '''' \<or> u_force_query u
             \<or> u_fragment u \<noteq> '''' \<or> u_opaque u \<noteq> ''''
          then Some NotAbsoluteEndpoint
          else
            let (plain, secure) = (if socket then (''ws'', ''wss'') else (''http'', ''https''))
            in if u_scheme u = secure then None
               else if production then Some ProductionMustBeSecure
               else if u_scheme u \<noteq> plain \<or> \<not> Loopback (Hostname u) then Some DevelopmentLoopbackOnly
               else None)"

definition url_port :: "url \<Rightarrow> string" where
  "url_port u =
     (if Port u \<noteq> '''' then Port u else if u_scheme u = ''https'' then ''443'' else ''80'')"

text \<open>\<open>via\<close> lists the requests already made, oldest first; \<open>True\<close> means the redirect is allowed.\<close>

definition CheckRedirect :: "url \<Rightarrow> url list \<Rightarrow> bool" where
  "CheckRedirect target via =
     (if length via \<ge> 10 \<or> length via = 0 then False
      else
        let previous = last via
        in if u_user target \<noteq> None \<or> Hostname target = ''''
              \<or> (u_scheme target \<noteq> ''http'' \<and> u_scheme target \<noteq> ''https'') then False
           else if u_scheme previous = ''https'' \<and> u_scheme target \<noteq> ''https'' then False
           else if \<not> equal_fold (Hostname previous) (Hostname target) then False
           else if url_port previous \<noteq> url_port target
                   \<and> \<not> (u_scheme previous = ''http'' \<and> u_scheme target = ''https''
                        \<and> url_port previous = ''80'' \<and> url_port target = ''443'') then False
           else True)"

text \<open>The kinds of error found along an error chain, and the text logged for them.\<close>

datatype error_kind =
    HostnameError
  | UnknownAuthorityError
  | CertificateInvalidError bool   \<comment> \<open>whether the reason is expiry\<close>
  | CertificateVerificationError
  | ErrRedirect
  | OtherError

definition FailureKind :: "error_kind list \<Rightarrow> string" where
  "FailureKind chain =
     (if HostnameError \<in> set chain then ''TLS certificate hostname mismatch''
      else if UnknownAuthorityError \<in> set chain then ''TLS certificate authority untrusted''
      else case find (\<lambda>e. e = CertificateInvalidError True \<or> e = CertificateInvalidError False) chain of
             Some e \<Rightarrow> if e = CertificateInvalidError True then ''TLS certificate expired or not yet valid''
                       else ''TLS certificate invalid''
           | None \<Rightarrow>
               if CertificateVerificationError \<in> set chain then ''TLS certificate verification failed''
               else if ErrRedirect \<in> set chain then ''unsafe redirect blocked''
               else ''connection unavailable or closed'')"

section \<open>What the policy guarantees\<close>

definition secure_scheme :: "bool \<Rightarrow> string" where
  "secure_scheme socket = (if socket then ''wss'' else ''https'')"

definition plain_scheme :: "bool \<Rightarrow> string" where
  "plain_scheme socket = (if socket then ''ws'' else ''http'')"

definition bare_endpoint :: "url \<Rightarrow> bool" where
  "bare_endpoint u \<longleftrightarrow>
     Hostname u \<noteq> '''' \<and> u_user u = None \<and> u_raw_query u = '''' \<and> \<not> u_force_query u
     \<and> u_fragment u = '''' \<and> u_opaque u = ''''"

text \<open>
  An endpoint passes exactly when it is an absolute one without credentials, query or
  fragment, and either uses the secure scheme or, outside production, the plain scheme on a
  loopback host; in production only the secure scheme passes.
\<close>

theorem endpoint_policy:
  "ValidateEndpoint parse v socket production = None \<longleftrightarrow>
     (\<exists>u. parse v = Some u \<and> bare_endpoint u \<and>
          (u_scheme u = secure_scheme socket \<or>
           (\<not> production \<and> u_scheme u = plain_scheme socket \<and> Loopback (Hostname u))))"
  by (cases "parse v"; cases socket)
     (auto simp: ValidateEndpoint_def bare_endpoint_def secure_scheme_def plain_scheme_def)

text \<open>The client's redirect loop: each target is checked against all requests before it.\<close>

fun redirects_allowed :: "url list \<Rightarrow> url list \<Rightarrow> bool" where
  "redirects_allowed via [] = True"
| "redirects_allowed via (t # ts) = (CheckRedirect t via \<and> redirects_allowed (via @ [t]) ts)"

lemma CheckRedirect_step:
  "CheckRedirect t via \<Longrightarrow>
     length via < 10 \<and> via \<noteq> [] \<and> u_user t = None
     \<and> case_fold (Hostname (last via)) = case_fold (Hostname t)
     \<and> (u_scheme (last via) = ''https'' \<longrightarrow> u_scheme t = ''https'')
     \<and> (u_scheme t = ''http'' \<or> u_scheme t = ''https'')
     \<and> (url_port (last via) = url_port t \<or>
        (url_port (last via) = ''80'' \<and> url_port t = ''443'' \<and> u_scheme t = ''https''))"
  by (auto simp: CheckRedirect_def Let_def equal_fold_def split: if_splits)

lemma redirects_invariant:
  assumes "redirects_allowed via ts" and "via \<noteq> []" and "t \<in> set ts"
  shows "case_fold (Hostname (last via)) = case_fold (Hostname t)
    \<and> (u_scheme (last via) = ''https'' \<longrightarrow> u_scheme t = ''https'') \<and> u_user t = None
    \<and> length via + length ts \<le> 10"
  using assms
proof (induction ts arbitrary: via t)
  case Nil
  then show ?case by simp
next
  case (Cons x ts)
  then have step: "CheckRedirect x via" and rest: "redirects_allowed (via @ [x]) ts" by simp_all
  note s = CheckRedirect_step [OF step]
  have len: "length via + length (x # ts) \<le> 10"
  proof (cases "ts = []")
    case True
    with s show ?thesis by simp
  next
    case False
    then have "hd ts \<in> set ts" by simp
    from Cons.IH [OF rest _ this] show ?thesis by simp
  qed
  show ?case
  proof (cases "t = x")
    case True
    with s len show ?thesis by simp
  next
    case False
    with Cons.prems have "t \<in> set ts" by simp
    from Cons.IH [OF rest _ this] s len show ?thesis by auto
  qed
qed


definition sample_url :: "string \<Rightarrow> string \<Rightarrow> url" where
  "sample_url scheme host =
     \<lparr>u_scheme = scheme, u_opaque = '''', u_user = None, u_host = host, u_raw_query = '''',
      u_force_query = False, u_fragment = ''''\<rparr>"


text \<open>The addresses accepted as loopback, on the texts that name them.\<close>

lemma loopback_examples:
  "Loopback ''127.0.0.1''" "Loopback ''::1''" "Loopback ''LocalHost''"
  "\<not> Loopback ''127.0.0.1.evil''" "\<not> Loopback ''10.0.0.1''" "\<not> Loopback ''127.0.0.01''"
  by code_simp+

end
