(* ===== verification/Messages.thy ===== *)
theory Messages
  imports Json Encoding
begin

text \<open>
  The commands a server sends over the socket: \<^verbatim>\<open>client/message.go\<close> (stream commands and the
  read loop), the parsers of \<^verbatim>\<open>client/power.go\<close>, \<^verbatim>\<open>client/installed_apps.go\<close> and
  \<^verbatim>\<open>client/antivirus.go\<close>, the command structs of the download and antivirus packages, and
  the dispatch that \<^verbatim>\<open>Client.runConnection\<close> passes to the read loop.  The UUID check of
  \<^verbatim>\<open>github.com/google/uuid\<close> and the time parser are arguments.
\<close>

section \<open>Stream commands\<close>

definition normalizeCommand :: "string \<Rightarrow> string" where
  "normalizeCommand v = to_lower (replace_char (CHR ''-'') (CHR ''_'') (trim_space v))"

datatype streamKind = streamUnknown | streamPerformance | streamProcess | streamScreen

record streamCommand =
  sc_stream :: streamKind
  sc_start :: bool
  sc_kill :: bool
  sc_kill_pid :: int

definition no_command :: streamCommand where
  "no_command = \<lparr>sc_stream = streamUnknown, sc_start = False, sc_kill = False, sc_kill_pid = 0\<rparr>"

definition start_of :: "streamKind \<Rightarrow> streamCommand" where
  "start_of k = no_command\<lparr>sc_stream := k, sc_start := True\<rparr>"

definition stop_of :: "streamKind \<Rightarrow> streamCommand" where
  "stop_of k = no_command\<lparr>sc_stream := k\<rparr>"

definition kill_of :: "int \<Rightarrow> streamCommand" where
  "kill_of pid = no_command\<lparr>sc_stream := streamProcess, sc_kill := True, sc_kill_pid := pid\<rparr>"

text \<open>The switch over one normalised text: the words of its cases.\<close>

definition start_performance_words :: "string set" where
  "start_performance_words = {''start_performance'', ''performance_start'', ''request_performance''}"

definition stop_performance_words :: "string set" where
  "stop_performance_words = {''stop_performance'', ''performance_stop''}"

definition start_process_words :: "string set" where
  "start_process_words = {''start_process'', ''process_start'', ''request_process''}"

definition stop_process_words :: "string set" where
  "stop_process_words = {''stop_process'', ''process_stop''}"

definition start_screen_words :: "string set" where
  "start_screen_words = {''start_stream'', ''start_screen'', ''screen_start'', ''request_screen''}"

definition stop_screen_words :: "string set" where
  "stop_screen_words = {''stop_stream'', ''stop_screen'', ''screen_stop''}"

definition kill_words :: "string set" where
  "kill_words = {''kill_process'', ''process_kill'', ''terminate_process''}"

lemmas word_defs =
  start_performance_words_def stop_performance_words_def start_process_words_def
  stop_process_words_def start_screen_words_def stop_screen_words_def kill_words_def

definition command_alias :: "int \<Rightarrow> string \<Rightarrow> streamCommand option" where
  "command_alias pid v =
     (if v \<in> start_performance_words then Some (start_of streamPerformance)
      else if v \<in> stop_performance_words then Some (stop_of streamPerformance)
      else if v \<in> start_process_words then Some (start_of streamProcess)
      else if v \<in> stop_process_words then Some (stop_of streamProcess)
      else if v \<in> start_screen_words then Some (start_of streamScreen)
      else if v \<in> stop_screen_words then Some (stop_of streamScreen)
      else if v \<in> kill_words then Some (kill_of pid)
      else None)"

fun first_alias :: "int \<Rightarrow> string list \<Rightarrow> streamCommand option" where
  "first_alias pid [] = None"
| "first_alias pid (v # vs) =
     (case command_alias pid v of Some c \<Rightarrow> Some c | None \<Rightarrow> first_alias pid vs)"

definition stream_of_type :: "string \<Rightarrow> streamKind" where
  "stream_of_type v =
     (if v = ''performance'' then streamPerformance
      else if v \<in> {''process'', ''processes''} then streamProcess
      else if v \<in> {''screen'', ''screen_stream''} then streamScreen
      else streamUnknown)"

definition server_fields :: "fval fields" where
  "server_fields =
     [(''type'', conv_string), (''action'', conv_string), (''command'', conv_string), (''pid'', conv_int 32)]"

text \<open>The types whose commands never become stream commands.\<close>

definition never_stream_types :: "string set" where
  "never_stream_types = {''power'', ''installed_apps''}"

definition kill_actions :: "string set" where
  "kill_actions = {''kill'', ''terminate''}"

definition start_actions :: "string set" where
  "start_actions = {''start'', ''request''}"

text \<open>The decision on the normalised type, action and command and the process number.\<close>

definition decide_stream :: "string \<Rightarrow> string \<Rightarrow> string \<Rightarrow> int \<Rightarrow> streamCommand" where
  "decide_stream typeValue action cmd pid =
     (if typeValue \<in> never_stream_types then no_command
      else case first_alias pid [action, cmd, typeValue] of
             Some c \<Rightarrow> c
           | None \<Rightarrow>
               let stream = stream_of_type typeValue
               in if stream = streamUnknown then no_command
                  else if stream = streamProcess \<and> action \<in> kill_actions then kill_of pid
                  else if action \<in> start_actions then start_of stream
                  else if action = ''stop'' then stop_of stream
                  else no_command)"

text \<open>The normalised texts of a message, \<open>None\<close> if it does not decode.\<close>

definition stream_texts :: "json \<Rightarrow> (string \<times> string \<times> string \<times> int) option" where
  "stream_texts j =
     (case unmarshal False server_fields j of
        (m, bad) \<Rightarrow> if bad then None
                    else Some (normalizeCommand (get_str m ''type''), normalizeCommand (get_str m ''action''),
                               normalizeCommand (get_str m ''command''), get_int m ''pid''))"

definition parseStreamCommand :: "json \<Rightarrow> streamCommand" where
  "parseStreamCommand j =
     (case stream_texts j of
        None \<Rightarrow> no_command
      | Some (t, a, c, pid) \<Rightarrow> decide_stream t a c pid)"

datatype performanceCommand = performanceNone | performanceStart | performanceStop

definition parsePerformanceCommand :: "json \<Rightarrow> performanceCommand" where
  "parsePerformanceCommand j =
     (let c = parseStreamCommand j
      in if sc_stream c \<noteq> streamPerformance then performanceNone
         else if sc_start c then performanceStart else performanceStop)"

section \<open>One-shot commands\<close>

definition parsePowerCommand :: "(string \<Rightarrow> bool) \<Rightarrow> json \<Rightarrow> string option" where
  "parsePowerCommand uuid_ok j =
     (case unmarshal False [(''type'', conv_string), (''action'', conv_string), (''request_id'', conv_string)] j of
        (m, bad) \<Rightarrow>
          if bad \<or> get_str m ''type'' \<noteq> ''power'' \<or> get_str m ''action'' \<noteq> ''shutdown'' then None
          else if length (get_str m ''request_id'') \<noteq> 36 \<or> \<not> uuid_ok (get_str m ''request_id'') then None
          else Some (get_str m ''request_id''))"

definition installedAppsMaxCommandBytes :: nat where
  "installedAppsMaxCommandBytes = 1024"

definition parseInstalledAppsCommand :: "(string \<Rightarrow> bool) \<Rightarrow> nat \<Rightarrow> json \<Rightarrow> string option" where
  "parseInstalledAppsCommand uuid_ok len j =
     (case unmarshal False [(''type'', conv_string), (''action'', conv_string), (''request_id'', conv_string)] j of
        (m, bad) \<Rightarrow>
          if \<not> bad \<and> len \<le> installedAppsMaxCommandBytes \<and> get_str m ''type'' = ''installed_apps''
             \<and> get_str m ''action'' = ''get'' \<and> length (get_str m ''request_id'') = 36
             \<and> uuid_ok (get_str m ''request_id'')
          then Some (get_str m ''request_id'') else None)"

record ScanCommand =
  scan_type_field :: string
  scan_request_id :: string
  scan_type :: string
  scan_path :: string

definition scan_fields :: "fval fields" where
  "scan_fields =
     [(''type'', conv_string), (''request_id'', conv_string), (''scan_type'', conv_string), (''path'', conv_string)]"

definition scan_command_of :: "(string \<rightharpoonup> fval) \<Rightarrow> ScanCommand" where
  "scan_command_of m =
     \<lparr>scan_type_field = get_str m ''type'', scan_request_id = get_str m ''request_id'',
      scan_type = get_str m ''scan_type'', scan_path = get_str m ''path''\<rparr>"

record DownloadCommand =
  dc_type :: string
  dc_job_id :: string
  dc_file_id :: string
  dc_filename :: string
  dc_destination_path :: string
  dc_size :: int
  dc_sha256 :: string
  dc_url :: string
  dc_expires_at :: "int option"   \<comment> \<open>\<open>None\<close> is the zero time\<close>

definition download_fields :: "(string \<Rightarrow> int option) \<Rightarrow> fval fields" where
  "download_fields parse_time =
     [(''type'', conv_string), (''job_id'', conv_string), (''file_id'', conv_string),
      (''filename'', conv_string), (''destination_path'', conv_string), (''size'', conv_int 64),
      (''sha256'', conv_string), (''download_url'', conv_string), (''expires_at'', conv_time parse_time)]"

definition download_command_of :: "(string \<rightharpoonup> fval) \<Rightarrow> DownloadCommand" where
  "download_command_of m =
     \<lparr>dc_type = get_str m ''type'', dc_job_id = get_str m ''job_id'', dc_file_id = get_str m ''file_id'',
      dc_filename = get_str m ''filename'', dc_destination_path = get_str m ''destination_path'',
      dc_size = get_int m ''size'', dc_sha256 = get_str m ''sha256'', dc_url = get_str m ''download_url'',
      dc_expires_at = get_time m ''expires_at''\<rparr>"

section \<open>Dispatch\<close>

datatype effect =
    AppsSubmit string
  | ScanReject ScanCommand string
  | ScanSubmit ScanCommand
  | PowerStart string
  | DownloadReject DownloadCommand string
  | DownloadSubmit DownloadCommand
  | SetPerformance bool
  | SetProcess bool
  | KillProcess int
  | ScreenStart
  | ScreenStop

text \<open>What the connection was set up with, and the third-party parsers.\<close>

record dispatch_env =
  has_downloads :: bool
  has_process_provider :: bool
  uuid_valid :: "string \<Rightarrow> bool"
  time_parse :: "string \<Rightarrow> int option"

definition envelope_type :: "json \<Rightarrow> string option" where
  "envelope_type j =
     (case unmarshal False [(''type'', conv_string)] j of
        (m, bad) \<Rightarrow> if bad then None else Some (normalizeCommand (get_str m ''type'')))"

text \<open>\<^verbatim>\<open>handleVirusScan\<close>: \<open>None\<close> when the message is not a scan command.\<close>

definition handleVirusScan :: "json \<Rightarrow> effect option" where
  "handleVirusScan j =
     (if envelope_type j \<noteq> Some ''virus_scan'' then None
      else case unmarshal False scan_fields j of
             (m, bad) \<Rightarrow>
               if bad then Some (ScanReject (scan_command_of m) ''malformed virus_scan command'')
               else Some (ScanSubmit (scan_command_of m)))"

definition on_message :: "dispatch_env \<Rightarrow> nat \<Rightarrow> json \<Rightarrow> effect list" where
  "on_message env len j =
     (case parseInstalledAppsCommand (uuid_valid env) len j of
        Some r \<Rightarrow> [AppsSubmit r]
      | None \<Rightarrow>
          (case handleVirusScan j of
             Some e \<Rightarrow> [e]
           | None \<Rightarrow>
               (case parsePowerCommand (uuid_valid env) j of
                  Some r \<Rightarrow> [PowerStart r]
                | None \<Rightarrow>
                    if \<not> has_downloads env then []
                    else if envelope_type j \<noteq> Some ''download_file'' then []
                    else case unmarshal False (download_fields (time_parse env)) j of
                           (m, bad) \<Rightarrow>
                             if bad
                             then [DownloadReject (download_command_of m) ''DOWNLOAD_FILE message is malformed'']
                             else [DownloadSubmit (download_command_of m)])))"

definition on_stream_command :: "dispatch_env \<Rightarrow> streamCommand \<Rightarrow> effect list" where
  "on_stream_command env c =
     (case sc_stream c of
        streamUnknown \<Rightarrow> []
      | streamPerformance \<Rightarrow> [SetPerformance (sc_start c)]
      | streamProcess \<Rightarrow>
          if sc_kill c then [KillProcess (sc_kill_pid c)]
          else if has_process_provider env then [SetProcess (sc_start c)] else []
      | streamScreen \<Rightarrow> if sc_start c then [ScreenStart] else [ScreenStop])"

text \<open>
  One turn of the read loop.  A frame is not text, or not valid JSON (\<open>None\<close>), or a JSON value
  with the length of its text.
\<close>

definition read_step :: "dispatch_env \<Rightarrow> bool \<Rightarrow> nat \<Rightarrow> json option \<Rightarrow> effect list" where
  "read_step env is_text len doc =
     (if \<not> is_text then []
      else case doc of
             None \<Rightarrow> []
           | Some j \<Rightarrow>
               on_message env len j @
               (let c = parseStreamCommand j
                in if sc_stream c \<noteq> streamUnknown then on_stream_command env c else []))"

section \<open>Properties\<close>

lemmas command_defs = start_of_def stop_of_def kill_of_def no_command_def

lemma no_command_simps [simp]:
  "sc_stream no_command = streamUnknown" "\<not> sc_kill no_command"
  "\<not> sc_kill (start_of k)" "\<not> sc_kill (stop_of k)" "sc_stream (stop_of k) = k"
  "sc_stream (start_of k) = k" "sc_stream (kill_of pid) = streamProcess" "sc_kill (kill_of pid)"
  "sc_start (start_of k)" "\<not> sc_start (stop_of k)"
  by (simp_all add: command_defs)

lemma command_alias_kill:
  "command_alias pid v = Some c \<Longrightarrow> sc_kill c \<Longrightarrow> c = kill_of pid \<and> v \<in> kill_words"
  by (auto simp: command_alias_def split: if_splits)

lemma first_alias_kill:
  "first_alias pid vs = Some c \<Longrightarrow> sc_kill c \<Longrightarrow> c = kill_of pid \<and> set vs \<inter> kill_words \<noteq> {}"
  by (induction vs) (auto split: option.splits dest: command_alias_kill)

lemma stream_of_type_process:
  "stream_of_type v = streamProcess \<longleftrightarrow> v \<in> {''process'', ''processes''}"
  by (auto simp: stream_of_type_def)

lemma decide_stream_kill:
  assumes "sc_kill (decide_stream t a c pid)"
  shows "t \<notin> never_stream_types \<and> decide_stream t a c pid = kill_of pid
    \<and> ({a, c, t} \<inter> kill_words \<noteq> {} \<or> (t \<in> {''process'', ''processes''} \<and> a \<in> kill_actions))"
proof (cases "first_alias pid [a, c, t]")
  case None
  with assms have "stream_of_type t = streamProcess \<and> a \<in> kill_actions \<and> t \<notin> never_stream_types"
    by (simp add: decide_stream_def Let_def split: if_splits del: first_alias.simps)
  with None have "decide_stream t a c pid = kill_of pid"
    by (simp add: decide_stream_def Let_def del: first_alias.simps)
  with \<open>stream_of_type t = streamProcess \<and> a \<in> kill_actions \<and> t \<notin> never_stream_types\<close>
  show ?thesis by (simp add: stream_of_type_process)
next
  case (Some k)
  with assms have t: "t \<notin> never_stream_types" and "sc_kill k"
    by (simp_all add: decide_stream_def split: if_splits del: first_alias.simps)
  with first_alias_kill [OF Some] have "k = kill_of pid" and "{a, c, t} \<inter> kill_words \<noteq> {}" by simp_all
  with Some t show ?thesis by (simp add: decide_stream_def del: first_alias.simps)
qed

text \<open>
  C18. A message makes the client terminate a process only when it is well formed, is not a
  power or inventory command, and says so: one of its texts is a kill command, or its type is
  process and its action kill or terminate; the process is the one it names.
\<close>

theorem kill_only_on_request:
  assumes "sc_kill (parseStreamCommand j)"
  shows "\<exists>t a c pid. stream_texts j = Some (t, a, c, pid) \<and> t \<notin> never_stream_types
     \<and> parseStreamCommand j = kill_of pid
     \<and> ({a, c, t} \<inter> kill_words \<noteq> {} \<or> (t \<in> {''process'', ''processes''} \<and> a \<in> kill_actions))"
proof (cases "stream_texts j")
  case None
  with assms show ?thesis by (simp add: parseStreamCommand_def)
next
  case (Some x)
  obtain t a c pid where x: "x = (t, a, c, pid)" by (cases x)
  with assms Some have "sc_kill (decide_stream t a c pid)" by (simp add: parseStreamCommand_def)
  from decide_stream_kill [OF this] Some x show ?thesis by (simp add: parseStreamCommand_def)
qed

lemma server_fields_fold: "fold_distinct server_fields"
  by (simp add: fold_distinct_def server_fields_def ascii_lower_def char_eval)

lemma type_field_fold:
  "fold_distinct [(''type'', conv_string)]"
  "fold_distinct [(''type'', conv_string), (''action'', conv_string), (''request_id'', conv_string)]"
  by (simp_all add: fold_distinct_def ascii_lower_def char_eval)

text \<open>Every decoding of the same document reads the same type text.\<close>

lemma type_text_agrees:
  assumes "unmarshal False fs j = (m, False)" and "unmarshal False gs j = (m', False)"
    and "fold_distinct fs" and "fold_distinct gs"
    and "(''type'', conv_string) \<in> set fs" and "(''type'', conv_string) \<in> set gs"
  shows "get_str m ''type'' = get_str m' ''type''"
  using unmarshal_field [OF assms(1,3,5)] unmarshal_field [OF assms(2,4,6)] by (simp add: get_str_def)

lemma stream_texts_type:
  assumes "unmarshal False fs j = (m, False)" and "fold_distinct fs" and "(''type'', conv_string) \<in> set fs"
    and "stream_texts j = Some (t, a, c, pid)"
  shows "t = normalizeCommand (get_str m ''type'')"
proof -
  obtain m' b where m': "unmarshal False server_fields j = (m', b)"
    by (cases "unmarshal False server_fields j")
  with assms(4) have "b = False" and t: "t = normalizeCommand (get_str m' ''type'')"
    by (auto simp: stream_texts_def split: if_splits)
  with m' have "unmarshal False server_fields j = (m', False)" by simp
  from type_text_agrees [OF assms(1) this assms(2) server_fields_fold assms(3)] t
  show ?thesis by (simp add: server_fields_def)
qed

lemma normalize_power: "normalizeCommand ''power'' = ''power''"
  and normalize_apps: "normalizeCommand ''installed_apps'' = ''installed_apps''"
  by code_simp+

lemma never_stream:
  assumes "unmarshal False fs j = (m, False)" and "fold_distinct fs" and "(''type'', conv_string) \<in> set fs"
    and "normalizeCommand (get_str m ''type'') \<in> never_stream_types"
  shows "parseStreamCommand j = no_command"
proof (cases "stream_texts j")
  case None
  then show ?thesis by (simp add: parseStreamCommand_def)
next
  case (Some x)
  obtain t a c pid where "x = (t, a, c, pid)" by (cases x)
  with stream_texts_type [OF assms(1-3)] assms(4) Some show ?thesis
    by (simp add: parseStreamCommand_def decide_stream_def)
qed

lemma envelope_type_of:
  assumes "unmarshal False fs j = (m, False)" and "fold_distinct fs" and "(''type'', conv_string) \<in> set fs"
    and "envelope_type j = Some t"
  shows "t = normalizeCommand (get_str m ''type'')"
proof -
  obtain m' b where m': "unmarshal False [(''type'', conv_string)] j = (m', b)"
    by (cases "unmarshal False [(''type'', conv_string)] j")
  with assms(4) have "b = False" and t: "t = normalizeCommand (get_str m' ''type'')"
    by (auto simp: envelope_type_def split: if_splits)
  with m' have "unmarshal False [(''type'', conv_string)] j = (m', False)" by simp
  from type_text_agrees [OF assms(1) this assms(2) type_field_fold(1) assms(3)] t
  show ?thesis by simp
qed

definition one_shot_fields :: "fval fields" where
  "one_shot_fields = [(''type'', conv_string), (''action'', conv_string), (''request_id'', conv_string)]"

lemma one_shot_fold: "fold_distinct one_shot_fields" "(''type'', conv_string) \<in> set one_shot_fields"
  using type_field_fold(2) by (simp_all add: one_shot_fields_def)

lemma parsePower_type:
  assumes "parsePowerCommand uuid_ok j = Some r"
  obtains m where "unmarshal False one_shot_fields j = (m, False)" and "get_str m ''type'' = ''power''"
  using assms by (auto simp: parsePowerCommand_def one_shot_fields_def split: prod.splits if_splits)

lemma parseApps_type:
  assumes "parseInstalledAppsCommand uuid_ok len j = Some r"
  obtains m where "unmarshal False one_shot_fields j = (m, False)"
    and "get_str m ''type'' = ''installed_apps''"
  using assms
  by (auto simp: parseInstalledAppsCommand_def one_shot_fields_def split: prod.splits if_splits)

lemma scan_not_one_shot:
  assumes "unmarshal False one_shot_fields j = (m, False)"
    and "get_str m ''type'' = ''power'' \<or> get_str m ''type'' = ''installed_apps''"
  shows "handleVirusScan j = None"
proof -
  have "envelope_type j \<noteq> Some ''virus_scan''"
    using envelope_type_of [OF assms(1) one_shot_fold] assms(2) normalize_power normalize_apps by fastforce
  then show ?thesis by (simp add: handleVirusScan_def)
qed

text \<open>
  A shutdown command and an inventory command are one-shot: such a message has exactly its
  own effect, and never starts or stops a stream, kills a process, or reaches another handler.
\<close>

theorem one_shot_exclusive:
  "(parsePowerCommand (uuid_valid env) j = Some r \<longrightarrow>
      read_step env True len (Some j) = [PowerStart r])
   \<and> (parseInstalledAppsCommand (uuid_valid env) len j = Some r \<longrightarrow>
      read_step env True len (Some j) = [AppsSubmit r])"
proof (intro conjI impI)
  assume p: "parsePowerCommand (uuid_valid env) j = Some r"
  then obtain m where m: "unmarshal False one_shot_fields j = (m, False)" "get_str m ''type'' = ''power''"
    by (rule parsePower_type)
  then have "parseInstalledAppsCommand (uuid_valid env) len j = None"
    by (simp add: parseInstalledAppsCommand_def one_shot_fields_def)
  moreover have "parseStreamCommand j = no_command"
    by (rule never_stream [OF m(1) one_shot_fold]) (simp add: m(2) normalize_power never_stream_types_def)
  moreover have "handleVirusScan j = None" using m(2) by (intro scan_not_one_shot [OF m(1)]) (rule disjI1)
  ultimately show "read_step env True len (Some j) = [PowerStart r]"
    using p by (simp add: read_step_def on_message_def Let_def)
next
  assume p: "parseInstalledAppsCommand (uuid_valid env) len j = Some r"
  then obtain m where m: "unmarshal False one_shot_fields j = (m, False)"
      "get_str m ''type'' = ''installed_apps''"
    by (rule parseApps_type)
  have "parseStreamCommand j = no_command"
    by (rule never_stream [OF m(1) one_shot_fold]) (simp add: m(2) normalize_apps never_stream_types_def)
  with p show "read_step env True len (Some j) = [AppsSubmit r]"
    by (simp add: read_step_def on_message_def Let_def)
qed

definition sample_dispatch :: dispatch_env where
  "sample_dispatch =
     \<lparr>has_downloads = True, has_process_provider = True, uuid_valid = (\<lambda>_. True), time_parse = (\<lambda>_. None)\<rparr>"

definition sample_power :: json where
  "sample_power =
     JObj [(''type'', JStr ''power''), (''action'', JStr ''shutdown''),
           (''request_id'', JStr ''11111111-1111-4111-8111-111111111111'')]"

theorem one_shot_exclusive_witness:
  "read_step sample_dispatch True 99 (Some sample_power) =
     [PowerStart ''11111111-1111-4111-8111-111111111111'']"
proof -
  have "parsePowerCommand (uuid_valid sample_dispatch) sample_power =
      Some ''11111111-1111-4111-8111-111111111111''"
    by code_simp
  then show ?thesis using one_shot_exclusive by blast
qed

definition sample_kill :: json where
  "sample_kill = JObj [(''Type'', JStr '' Process ''), (''action'', JStr ''KILL''), (''pid'', JNum ''42'')]"

theorem kill_only_on_request_witness:
  "sc_kill (parseStreamCommand sample_kill) \<and> parseStreamCommand sample_kill = kill_of 42"
proof -
  have k: "sc_kill (parseStreamCommand sample_kill)" by code_simp
  have "stream_texts sample_kill = Some (''process'', ''kill'', '''', 42)" by code_simp
  with kill_only_on_request [OF k] k show ?thesis by auto
qed

definition scan_and_kill :: json where
  "scan_and_kill =
     JObj [(''type'', JStr ''virus_scan''), (''request_id'', JStr ''r1''), (''scan_type'', JStr ''quick''),
           (''action'', JStr ''kill_process''), (''pid'', JNum ''7'')]"

text \<open>
  A scan request is not protected in the same way: a message that starts a scan terminates
  a process as well if its action field says so.
\<close>

theorem scan_message_also_kills:
  "read_step sample_dispatch True 99 (Some scan_and_kill) =
     [ScanSubmit \<lparr>scan_type_field = ''virus_scan'', scan_request_id = ''r1'', scan_type = ''quick'', scan_path = ''''\<rparr>,
      KillProcess 7]"
  by code_simp

end
