(* ===== verification/FilePath.thy ===== *)
theory FilePath
  imports Prelude "HOL-Library.Sublist"
begin

text \<open>
  Package \<^verbatim>\<open>path/filepath\<close> of the Go library for the builds with a slash as separator (the
  \<^verbatim>\<open>!windows\<close> files of the repository): lexical cleaning, joining, parents, relative paths and
  locality.  A path is read as its list of elements; the main fact is that the containment test
  built from \<open>Rel\<close> and \<open>IsLocal\<close> is the prefix order on the elements of the cleaned paths.
\<close>

section \<open>Functions\<close>

abbreviation slash :: char where
  "slash \<equiv> CHR ''/''"

definition path_elements :: "string \<Rightarrow> string list" where
  "path_elements p = split_on slash p"

definition IsAbs :: "string \<Rightarrow> bool" where
  "IsAbs p \<longleftrightarrow> has_prefix p ''/''"

text \<open>The stack of \<^verbatim>\<open>Clean\<close>, topmost element first.\<close>

fun clean_elements :: "bool \<Rightarrow> string list \<Rightarrow> string list \<Rightarrow> string list" where
  "clean_elements rooted st [] = rev st"
| "clean_elements rooted st (e # es) =
     (if e = '''' \<or> e = ''.'' then clean_elements rooted st es
      else if e = ''..'' then
        (case st of
           t # ts \<Rightarrow> if t \<noteq> ''..'' then clean_elements rooted ts es
                     else clean_elements rooted (e # st) es
         | [] \<Rightarrow> if rooted then clean_elements rooted [] es else clean_elements rooted [e] es)
      else clean_elements rooted (e # st) es)"

definition clean_list :: "string \<Rightarrow> string list" where
  "clean_list p = clean_elements (IsAbs p) [] (path_elements p)"

definition unparse_path :: "bool \<Rightarrow> string list \<Rightarrow> string" where
  "unparse_path rooted es =
     (if rooted then slash # join_with slash es
      else if es = [] then ''.'' else join_with slash es)"

definition Clean :: "string \<Rightarrow> string" where
  "Clean p = unparse_path (IsAbs p) (clean_list p)"

text \<open>Everything up to and including the last separator.\<close>

definition dir_part :: "string \<Rightarrow> string" where
  "dir_part p = rev (dropWhile (\<lambda>c. c \<noteq> slash) (rev p))"

definition Dir :: "string \<Rightarrow> string" where
  "Dir p = Clean (dir_part p)"

definition Join :: "string list \<Rightarrow> string" where
  "Join es =
     (let ne = filter (\<lambda>e. e \<noteq> '''') es in if ne = [] then '''' else Clean (join_with slash ne))"

fun strip_common :: "string list \<Rightarrow> string list \<Rightarrow> string list \<times> string list" where
  "strip_common (x # xs) (y # ys) = (if x = y then strip_common xs ys else (x # xs, y # ys))"
| "strip_common xs ys = (xs, ys)"

text \<open>\<^verbatim>\<open>Rel\<close>: \<open>None\<close> is the error.\<close>

definition Rel :: "string \<Rightarrow> string \<Rightarrow> string option" where
  "Rel base targ =
     (if Clean base = Clean targ then Some ''.''
      else if IsAbs base \<noteq> IsAbs targ then None
      else case strip_common (clean_list base) (clean_list targ) of
             (b, t) \<Rightarrow>
               if b \<noteq> [] \<and> hd b = ''..'' then None
               else if b \<noteq> [] then Some (join_with slash (replicate (length b) ''..'' @ t))
               else Some (join_with slash t))"

definition IsLocal :: "string \<Rightarrow> bool" where
  "IsLocal p \<longleftrightarrow>
     \<not> IsAbs p \<and> p \<noteq> '''' \<and>
     (let q = (if list_ex (\<lambda>e. e = ''.'' \<or> e = ''..'') (path_elements p) then Clean p else p)
      in q \<noteq> ''..'' \<and> \<not> has_prefix q ''../'')"

text \<open>The containment test of the program, \<^verbatim>\<open>containsPath\<close> of \<^verbatim>\<open>download/destination.go\<close>.\<close>

definition containsPath :: "string \<Rightarrow> string \<Rightarrow> bool" where
  "containsPath root p = (case Rel root p of None \<Rightarrow> False | Some r \<Rightarrow> r = ''.'' \<or> IsLocal r)"

section \<open>Cleaned paths\<close>

text \<open>An element that cleaning keeps as it is.\<close>

definition plain_element :: "string \<Rightarrow> bool" where
  "plain_element e \<longleftrightarrow> e \<noteq> '''' \<and> e \<noteq> ''.'' \<and> e \<noteq> ''..'' \<and> slash \<notin> set e"

lemma path_elements_no_slash: "e \<in> set (path_elements p) \<Longrightarrow> slash \<notin> set e"
  unfolding path_elements_def by (rule split_on_no_sep)

lemma clean_elements_rooted:
  assumes "\<forall>e \<in> set st. plain_element e" and "\<forall>e \<in> set es. slash \<notin> set e"
  shows "\<forall>e \<in> set (clean_elements True st es). plain_element e"
  using assms
proof (induction es arbitrary: st)
  case Nil
  then show ?case by simp
next
  case (Cons e es)
  then have rest: "\<forall>x \<in> set es. slash \<notin> set x" and s: "slash \<notin> set e" by simp_all
  consider (drop) "e = '''' \<or> e = ''.''" | (up) "e = ''..''" | (plain) "plain_element e"
    using s by (auto simp: plain_element_def)
  then show ?case
  proof cases
    case drop
    then have "clean_elements True st (e # es) = clean_elements True st es" by (simp only: clean_elements.simps if_True)
    with Cons.IH [OF Cons.prems(1) rest] show ?thesis by simp
  next
    case up
    show ?thesis
    proof (cases st)
      case Nil
      with up Cons.IH [of "[]"] rest show ?thesis by simp
    next
      case (Cons t ts)
      with Cons.prems have "plain_element t" and ts: "\<forall>e \<in> set ts. plain_element e" by simp_all
      then have "t \<noteq> ''..''" by (simp add: plain_element_def)
      with up Cons Cons.IH [OF ts rest] show ?thesis by simp
    qed
  next
    case plain
    then have st: "\<forall>x \<in> set (e # st). plain_element x" using Cons.prems by simp
    from plain have "clean_elements True st (e # es) = clean_elements True (e # st) es"
      by (simp add: plain_element_def)
    with Cons.IH [OF st rest] show ?thesis by simp
  qed
qed

lemma clean_list_abs_plain: "IsAbs p \<Longrightarrow> e \<in> set (clean_list p) \<Longrightarrow> plain_element e"
  using clean_elements_rooted [of "[]" "path_elements p"] path_elements_no_slash
  by (auto simp: clean_list_def)

lemma clean_elements_plain:
  "\<forall>e \<in> set es. plain_element e \<Longrightarrow> clean_elements rooted st es = rev st @ es"
  by (induction es arbitrary: st) (auto simp: plain_element_def)

lemma plain_no_slash: "plain_element e \<Longrightarrow> slash \<notin> set e"
  by (simp add: plain_element_def)

lemma join_plain_elements:
  "es \<noteq> [] \<Longrightarrow> \<forall>e \<in> set es. slash \<notin> set e \<Longrightarrow> path_elements (join_with slash es) = es"
  unfolding path_elements_def by (rule split_join)

lemma path_elements_slash: "path_elements (slash # p) = '''' # path_elements p"
  by (simp add: path_elements_def)

lemma IsAbs_slash [simp]: "IsAbs (slash # p)"
  by (simp add: IsAbs_def has_prefix_def)

lemma IsAbs_iff: "IsAbs p \<longleftrightarrow> (\<exists>q. p = slash # q)"
  by (cases p) (auto simp: IsAbs_def has_prefix_def)

lemma join_not_abs:
  "es \<noteq> [] \<Longrightarrow> plain_element (hd es) \<Longrightarrow> \<not> IsAbs (join_with slash es)"
proof (induction slash es rule: join_with.induct)
  case (3 w v ws)
  then show ?case by (cases w) (auto simp: plain_element_def IsAbs_iff)
qed (auto simp: plain_element_def IsAbs_iff)

text \<open>Unparsing plain elements and reading them again gives them back.\<close>

lemma clean_list_unparse:
  assumes "\<forall>e \<in> set es. plain_element e"
  shows "clean_list (unparse_path True es) = es"
proof (cases "es = []")
  case True
  then show ?thesis by (simp add: clean_list_def unparse_path_def path_elements_def)
next
  case False
  then have "path_elements (join_with slash es) = es"
    using assms by (intro join_plain_elements) (auto dest: plain_no_slash)
  then show ?thesis
    using clean_elements_plain [OF assms, of True "[]"]
    by (simp add: clean_list_def unparse_path_def path_elements_slash)
qed

lemma Clean_abs: "IsAbs p \<Longrightarrow> IsAbs (Clean p)"
  by (simp add: Clean_def unparse_path_def)

lemma clean_list_Clean: "IsAbs p \<Longrightarrow> clean_list (Clean p) = clean_list p"
  using clean_list_unparse [of "clean_list p"] clean_list_abs_plain by (simp add: Clean_def)

lemma Clean_idem: "IsAbs p \<Longrightarrow> Clean (Clean p) = Clean p"
  using clean_list_Clean [of p] Clean_abs [of p] by (simp add: Clean_def unparse_path_def)

lemma Clean_eq_iff: "IsAbs p \<Longrightarrow> IsAbs q \<Longrightarrow> Clean p = Clean q \<longleftrightarrow> clean_list p = clean_list q"
proof -
  assume p: "IsAbs p" and q: "IsAbs q"
  have "Clean p = Clean q \<Longrightarrow> clean_list p = clean_list q"
    by (drule arg_cong [where f = clean_list]) (simp add: clean_list_Clean p q)
  with p q show ?thesis by (auto simp: Clean_def)
qed

lemma Clean_root: "IsAbs p \<Longrightarrow> Clean p = unparse_path True (clean_list p)"
  by (simp add: Clean_def)

section \<open>Containment is the prefix order\<close>

lemma strip_common_prefix:
  "strip_common xs ys = (b, t) \<Longrightarrow> (\<exists>c. xs = c @ b \<and> ys = c @ t) \<and> (b = [] \<longleftrightarrow> prefix xs ys)"
  by (induction xs ys rule: strip_common.induct) (auto split: if_splits)

lemma local_join_plain:
  assumes "es \<noteq> []" and "\<forall>e \<in> set es. plain_element e"
  shows "IsLocal (join_with slash es)"
proof -
  have pe: "path_elements (join_with slash es) = es"
    using assms by (intro join_plain_elements) (auto dest: plain_no_slash)
  have nodots: "\<not> list_ex (\<lambda>e. e = ''.'' \<or> e = ''..'') (path_elements (join_with slash es))"
    unfolding pe list_ex_iff using assms(2) plain_element_def by blast
  have ne: "join_with slash es \<noteq> ''''"
  proof
    assume "join_with slash es = ''''"
    then have "es = [[]]" using pe unfolding path_elements_def by (metis split_on.simps(1))
    with assms(2) show False by (simp add: plain_element_def)
  qed
  have notdd: "join_with slash es \<noteq> ''..''"
  proof
    assume "join_with slash es = ''..''"
    then have "es = [''..'']" using pe by (simp add: path_elements_def)
    with assms show False by (simp add: plain_element_def)
  qed
  have "\<not> has_prefix (join_with slash es) ''../''"
  proof
    assume "has_prefix (join_with slash es) ''../''"
    then obtain r where "join_with slash es = ''..'' @ slash # r" by (auto simp: has_prefix_iff)
    then have "es = ''..'' # split_on slash r"
      using pe split_append [of slash "''..''" r] by (simp add: path_elements_def)
    with assms show False by (simp add: plain_element_def)
  qed
  with nodots ne notdd join_not_abs [of es] assms show ?thesis
    by (simp add: IsLocal_def)
qed

lemma clean_dots:
  assumes "\<forall>e \<in> set t. plain_element e" and "\<forall>e \<in> set st. e = ''..''"
  shows "clean_elements False st (replicate n ''..'' @ t) = rev st @ replicate n ''..'' @ t"
  using assms(2)
proof (induction n arbitrary: st)
  case 0
  then show ?case using clean_elements_plain [OF assms(1), of False st] by simp
next
  case (Suc n)
  have "clean_elements False st (replicate (Suc n) ''..'' @ t)
      = clean_elements False (''..'' # st) (replicate n ''..'' @ t)"
    using Suc.prems by (cases st) auto
  also have "\<dots> = rev (''..'' # st) @ replicate n ''..'' @ t" using Suc by simp
  finally show ?case by simp
qed

lemma dots_not_local:
  assumes "0 < n" and "\<forall>e \<in> set t. plain_element e"
  shows "\<not> IsLocal (join_with slash (replicate n ''..'' @ t))"
proof -
  let ?es = "replicate n ''..'' @ t"
  let ?p = "join_with slash ?es"
  obtain m where n: "n = Suc m" using assms(1) by (cases n) auto
  have pe: "path_elements ?p = ?es"
    using assms by (intro join_plain_elements) (auto dest: plain_no_slash)
  have "?p = ''..'' @ (if replicate m ''..'' @ t = [] then '''' else slash # join_with slash (replicate m ''..'' @ t))"
    by (cases "replicate m ''..'' @ t") (auto simp: n)
  then have na: "\<not> IsAbs ?p" and pre: "?p = ''..'' \<or> has_prefix ?p ''../''"
    by (auto simp: IsAbs_iff has_prefix_iff split: if_splits)
  have "clean_list ?p = ?es"
    using clean_dots [OF assms(2), of "[]" n] na pe by (simp add: clean_list_def)
  then have "Clean ?p = ?p" using na n by (simp add: Clean_def unparse_path_def)
  moreover have "list_ex (\<lambda>e. e = ''.'' \<or> e = ''..'') (path_elements ?p)"
    using pe n by simp
  ultimately show ?thesis using pre by (auto simp: IsLocal_def Let_def)
qed

lemma containsPath_iff:
  assumes "IsAbs root" and "IsAbs p"
  shows "containsPath root p \<longleftrightarrow> prefix (clean_list root) (clean_list p)"
proof (cases "Clean root = Clean p")
  case True
  with assms show ?thesis by (simp add: containsPath_def Rel_def Clean_eq_iff)
next
  case False
  then have ne: "clean_list root \<noteq> clean_list p" using assms by (simp add: Clean_eq_iff)
  obtain b t where bt: "strip_common (clean_list root) (clean_list p) = (b, t)"
    by (cases "strip_common (clean_list root) (clean_list p)")
  then obtain c where c: "clean_list root = c @ b" "clean_list p = c @ t"
    and b: "b = [] \<longleftrightarrow> prefix (clean_list root) (clean_list p)"
    using strip_common_prefix by blast
  have plain: "\<forall>e \<in> set b. plain_element e" "\<forall>e \<in> set t. plain_element e"
    using c clean_list_abs_plain [OF assms(1)] clean_list_abs_plain [OF assms(2)] by auto
  show ?thesis
  proof (cases "b = []")
    case True
    then have "t \<noteq> []" using ne c by auto
    then have "IsLocal (join_with slash t)" using plain by (intro local_join_plain)
    with True False bt b assms show ?thesis by (simp add: containsPath_def Rel_def)
  next
    case nb: False
    then have "hd b \<noteq> ''..''" using plain by (auto simp: plain_element_def)
    have "\<not> IsLocal (join_with slash (replicate (length b) ''..'' @ t))"
      using nb plain by (intro dots_not_local) simp_all
    moreover have "join_with slash (replicate (length b) ''..'' @ t) \<noteq> ''.''"
      using nb by (cases b; cases "tl b"; cases t) (auto simp: Let_def)
    ultimately show ?thesis
      using nb \<open>hd b \<noteq> ''..''\<close> False bt b assms by (simp add: containsPath_def Rel_def)
  qed
qed

section \<open>Children and parents\<close>

lemma split_on_append: "split_on a (s @ a # t) = split_on a s @ split_on a t"
proof (induction s)
  case (Cons c s)
  then show ?case by (cases "split_on a s") auto
qed simp

lemma path_elements_child: "path_elements (d @ slash # f) = path_elements d @ path_elements f"
  by (simp add: path_elements_def split_on_append)

lemma path_elements_name: "slash \<notin> set f \<Longrightarrow> path_elements f = [f]"
  unfolding path_elements_def by (rule split_no_sep)

lemma clean_elements_snoc:
  "plain_element f \<Longrightarrow> clean_elements rooted st (es @ [f]) = clean_elements rooted st es @ [f]"
  by (induction es arbitrary: st) (auto simp: plain_element_def split: list.splits)

lemma clean_list_child:
  assumes "IsAbs d" and "plain_element f"
  shows "clean_list (d @ slash # f) = clean_list d @ [f]"
proof -
  have "IsAbs (d @ slash # f)" using assms(1) by (auto simp: IsAbs_iff)
  with assms show ?thesis
    by (simp add: clean_list_def path_elements_child path_elements_name plain_no_slash clean_elements_snoc)
qed

lemma Join_child:
  assumes "IsAbs d" and "plain_element f"
  shows "Join [d, f] = unparse_path True (clean_list d @ [f])"
proof -
  have "d \<noteq> ''''" using assms(1) by (auto simp: IsAbs_iff)
  moreover have "f \<noteq> ''''" using assms(2) by (simp add: plain_element_def)
  moreover have "IsAbs (d @ slash # f)" using assms(1) by (auto simp: IsAbs_iff)
  ultimately show ?thesis
    using clean_list_child [OF assms] by (simp add: Join_def Clean_root)
qed

lemma unparse_abs [simp]: "IsAbs (unparse_path True es)"
  by (simp add: unparse_path_def)

lemma Join_child_elements:
  assumes "IsAbs d" and "plain_element f"
  shows "IsAbs (Join [d, f]) \<and> clean_list (Join [d, f]) = clean_list d @ [f]"
  using Join_child [OF assms] clean_list_unparse [of "clean_list d @ [f]"]
    clean_list_abs_plain [OF assms(1)] assms(2) by simp

lemma dir_part_child: "slash \<notin> set f \<Longrightarrow> dir_part (d @ slash # f) = d @ [slash]"
proof -
  assume f: "slash \<notin> set f"
  have "dropWhile (\<lambda>c. c \<noteq> slash) (rev f @ slash # rev d) = slash # rev d"
    using f by (subst dropWhile_append2) auto
  then show ?thesis by (simp add: dir_part_def)
qed

lemma join_snoc: "es \<noteq> [] \<Longrightarrow> join_with a (es @ [f]) = join_with a es @ a # f"
  by (induction a es rule: join_with.induct) auto

lemma clean_elements_trailing: "clean_elements rooted st (es @ ['''']) = clean_elements rooted st es"
  by (induction es arbitrary: st) (auto split: list.splits)

lemma clean_list_trailing: "IsAbs q \<Longrightarrow> clean_list (q @ [slash]) = clean_list q"
proof -
  assume q: "IsAbs q"
  then have "IsAbs (q @ [slash])" by (auto simp: IsAbs_iff)
  moreover have "path_elements (q @ [slash]) = path_elements q @ ['''']"
    using path_elements_child [of q "[]"] by (simp add: path_elements_def)
  ultimately show ?thesis using q by (simp add: clean_list_def clean_elements_trailing)
qed

lemma clean_list_after_slash:
  assumes "IsAbs (d @ [slash])" and "plain_element x"
  shows "clean_list (d @ slash # x) = clean_list (d @ [slash]) @ [x]"
proof -
  have "IsAbs (d @ slash # x)" using assms(1) by (cases d) (auto simp: IsAbs_iff)
  moreover have "path_elements (d @ [slash]) = path_elements d @ ['''']"
    using path_elements_child [of d "[]"] by (simp add: path_elements_def)
  ultimately show ?thesis using assms
    by (simp add: clean_list_def path_elements_child path_elements_name plain_no_slash clean_elements_snoc clean_elements_trailing)
qed

text \<open>The parent of a cleaned absolute path drops its last element; the root is its own parent.\<close>

lemma Dir_unparse:
  assumes "\<forall>e \<in> set es. plain_element e"
  shows "Dir (unparse_path True es) = unparse_path True (butlast es)"
proof (cases es rule: rev_cases)
  case Nil
  then show ?thesis
    by (simp add: Dir_def dir_part_def unparse_path_def Clean_def clean_list_def path_elements_def)
next
  case (snoc fs f)
  then have f: "slash \<notin> set f" and fs: "\<forall>e \<in> set fs. plain_element e"
    using assms by (auto dest: plain_no_slash)
  show ?thesis
  proof (cases "fs = []")
    case True
    with snoc f show ?thesis
      using dir_part_child [of f "[]"]
      by (simp add: Dir_def unparse_path_def Clean_def clean_list_def path_elements_def)
  next
    case False
    have p: "unparse_path True es = unparse_path True fs @ slash # f"
      using snoc False by (simp add: unparse_path_def join_snoc)
    have d: "dir_part (unparse_path True es) = unparse_path True fs @ [slash]"
      unfolding p by (rule dir_part_child [OF f])
    have abs: "IsAbs (unparse_path True fs @ [slash])" by (simp add: unparse_path_def)
    have "Dir (unparse_path True es) = unparse_path True (clean_list (unparse_path True fs @ [slash]))"
      unfolding Dir_def d by (rule Clean_root [OF abs])
    then show ?thesis
      using snoc by (simp add: clean_list_trailing clean_list_unparse [OF fs])
  qed
qed

lemma unparse_inj:
  assumes "\<forall>e \<in> set es. plain_element e" and "\<forall>e \<in> set fs. plain_element e"
    and "unparse_path True es = unparse_path True fs"
  shows "es = fs"
proof -
  have "es = clean_list (unparse_path True es)" by (rule clean_list_unparse [OF assms(1), symmetric])
  also have "\<dots> = clean_list (unparse_path True fs)" by (rule arg_cong [OF assms(3)])
  also have "\<dots> = fs" by (rule clean_list_unparse [OF assms(2)])
  finally show ?thesis .
qed

end
