(* ===== verification/DownloadPolicy.thy ===== *)
theory DownloadPolicy
  imports FilePath Encoding Transport Messages
begin

text \<open>
  Which downloads are accepted and where they may go: \<^verbatim>\<open>download/destination.go\<close>,
  \<^verbatim>\<open>download/policy.go\<close>, the error codes of \<^verbatim>\<open>download/messages.go\<close> and \<^verbatim>\<open>Manager.validate\<close>.
  The build modelled is the one for slash-separated paths; \<open>windows_build\<close> stands for the
  test \<^verbatim>\<open>runtime.GOOS == "windows"\<close> and is false there.
\<close>

section \<open>Errors\<close>

datatype ErrorCode =
    InvalidCommand | URLExpired | HTTPError | DownloadFailed | DiskWriteFailed
  | InsufficientDiskSpace | InvalidDestinationPath | SizeMismatch | HashMismatch | Cancelled
  | InternalError

fun error_text :: "ErrorCode \<Rightarrow> string" where
  "error_text InvalidCommand = ''INVALID_COMMAND''"
| "error_text URLExpired = ''TOKEN_EXPIRED''"
| "error_text HTTPError = ''HTTP_ERROR''"
| "error_text DownloadFailed = ''DOWNLOAD_FAILED''"
| "error_text DiskWriteFailed = ''WRITE_FAILED''"
| "error_text InsufficientDiskSpace = ''DISK_FULL''"
| "error_text InvalidDestinationPath = ''INVALID_DESTINATION_PATH''"
| "error_text SizeMismatch = ''SIZE_MISMATCH''"
| "error_text HashMismatch = ''HASH_MISMATCH''"
| "error_text Cancelled = ''CANCELLED''"
| "error_text InternalError = ''INTERNAL_ERROR''"

record JobError =
  je_code :: ErrorCode
  je_message :: string

definition job_error :: "ErrorCode \<Rightarrow> string \<Rightarrow> JobError" where
  "job_error c m = \<lparr>je_code = c, je_message = m\<rparr>"

section \<open>Names and directories\<close>

definition windows_build :: bool where
  "windows_build = False"

text \<open>
  \<^verbatim>\<open>strings.ContainsFunc(s, unicode.IsControl)\<close>: an ASCII control byte, or the UTF-8 form of
  one of the code points from 128 to 159.
\<close>

fun has_control :: "string \<Rightarrow> bool" where
  "has_control [] = False"
| "has_control (c # cs) =
     (byte_nat c < 32 \<or> byte_nat c = 127
      \<or> (byte_nat c = 194 \<and> cs \<noteq> [] \<and> 128 \<le> byte_nat (hd cs) \<and> byte_nat (hd cs) < 160)
      \<or> has_control cs)"

definition validFilename :: "string \<Rightarrow> bool" where
  "validFilename name =
     (if \<not> IsLocal name \<or> name = ''.'' \<or> name = ''..'' \<or> contains_any name [CHR ''/'', CHR 0x5C]
         \<or> has_control name
      then False
      else \<not> windows_build
           \<or> (\<not> contains_any name [CHR '':'', CHR ''<'', CHR ''>'', CHR 0x22, CHR ''|'', CHR ''?'', CHR ''*'']
              \<and> \<not> has_suffix name ''.'' \<and> \<not> has_suffix name '' ''))"

definition invalidDestination :: JobError where
  "invalidDestination =
     job_error InvalidDestinationPath ''destination_path must be an allowed absolute local directory''"

definition cleanDestination :: "string \<Rightarrow> JobError + string" where
  "cleanDestination p =
     (if \<not> IsAbs p \<or> has_prefix p [CHR 0x5C] \<or> has_prefix p ''//'' \<or> has_control p
      then Inl invalidDestination
      else if CHR 0x5C \<in> set p then Inl invalidDestination
      else if list_ex (\<lambda>c. c \<noteq> '''' \<and> \<not> validFilename c) (split_on slash p) then Inl invalidDestination
      else Inr (Clean p))"

text \<open>The part of \<^verbatim>\<open>Config\<close> that these decisions read; \<open>cfg_boundary\<close> is the boundary's root.\<close>

record dl_config =
  cfg_directory :: string
  cfg_roots :: "string list"
  cfg_max_concurrent :: int
  cfg_queue_size :: int
  cfg_max_file_size :: int
  cfg_allow_http :: bool
  cfg_boundary :: "string option"

definition destinationDirectory :: "dl_config \<Rightarrow> string \<Rightarrow> JobError + string" where
  "destinationDirectory cfg p0 =
     (let p = (if p0 = '''' then cfg_directory cfg else p0)
      in bind_result (cleanDestination p) (\<lambda>path.
           let roots = (if cfg_roots cfg = [] \<and> cfg_boundary cfg \<noteq> None then [cfg_directory cfg]
                        else cfg_roots cfg)
           in if roots \<noteq> [] then
                (if list_ex (\<lambda>root. containsPath root path) roots then Inr path
                 else Inl invalidDestination)
              else Inr path))"

datatype boundary = RuntimeBoundary string | SharedDownloadBoundary string

definition boundaryFor :: "dl_config \<Rightarrow> string \<Rightarrow> boundary option" where
  "boundaryFor cfg p =
     (case cfg_boundary cfg of
        None \<Rightarrow> None
      | Some broot \<Rightarrow>
          if containsPath broot p then Some (RuntimeBoundary broot)
          else (case find (\<lambda>root. containsPath root p) (cfg_roots cfg) of
                  Some root \<Rightarrow> Some (SharedDownloadBoundary root)
                | None \<Rightarrow> Some (RuntimeBoundary broot)))"

section \<open>The configured roots\<close>

datatype roots_error =
    InvalidRootEntry | EntireDrive | OverlapsRuntime | OverlapsInstall | InvalidDirectory | DirectoryOutside

definition check_root :: "string \<Rightarrow> string \<Rightarrow> string \<Rightarrow> roots_error + string" where
  "check_root runtimeRoot installRoot root =
     (case cleanDestination root of
        Inl _ \<Rightarrow> Inl InvalidRootEntry
      | Inr path \<Rightarrow>
          if Dir path = path then Inl EntireDrive
          else if runtimeRoot \<noteq> '''' \<and>
                  (containsPath path runtimeRoot
                   \<or> (containsPath runtimeRoot path
                      \<and> (\<not> containsPath (Join [runtimeRoot, ''data'']) path
                         \<or> containsPath path (Join [runtimeRoot, ''data'']))))
          then Inl OverlapsRuntime
          else if installRoot \<noteq> '''' \<and> (containsPath path installRoot \<or> containsPath installRoot path)
          then Inl OverlapsInstall
          else Inr path)"

fun check_roots :: "string \<Rightarrow> string \<Rightarrow> string list \<Rightarrow> roots_error + string list" where
  "check_roots runtimeRoot installRoot [] = Inr []"
| "check_roots runtimeRoot installRoot (r # rs) =
     bind_result (check_root runtimeRoot installRoot r) (\<lambda>p.
     bind_result (check_roots runtimeRoot installRoot rs) (\<lambda>ps. Inr (p # ps)))"

definition ValidateRoots ::
    "string \<Rightarrow> string list \<Rightarrow> string \<Rightarrow> string \<Rightarrow> roots_error + string list" where
  "ValidateRoots directory roots0 runtimeRoot installRoot =
     (let roots = (if roots0 = [] then [directory] else roots0)
      in bind_result (check_roots runtimeRoot installRoot roots) (\<lambda>cleaned.
           case cleanDestination directory of
             Inl _ \<Rightarrow> Inl InvalidDirectory
           | Inr path \<Rightarrow>
               if list_ex (\<lambda>root. containsPath root path) cleaned then Inr cleaned
               else Inl DirectoryOutside))"

section \<open>Links on the way\<close>

text \<open>
  \<^verbatim>\<open>os.Lstat\<close>: the object is missing, cannot be inspected, or exists and is a link or not.
  The loop walks up to the root; a cleaned path of \<open>n\<close> characters has fewer than \<open>n + 2\<close>
  ancestors, so that much \<open>fuel\<close> is never used up (\<open>check_links_total\<close>).
\<close>

datatype stat_result = NotExist | StatFailed | Entry bool

fun check_links_from :: "(string \<Rightarrow> stat_result) \<Rightarrow> nat \<Rightarrow> string \<Rightarrow> JobError option option" where
  "check_links_from lstat 0 p = None"
| "check_links_from lstat (Suc fuel) p =
     (case lstat p of
        StatFailed \<Rightarrow> Some (Some (job_error DiskWriteFailed ''could not inspect destination directory''))
      | st \<Rightarrow>
          if st = Entry True then Some (Some invalidDestination)
          else if Dir p = p then Some None
          else check_links_from lstat fuel (Dir p))"

definition checkDestinationLinks :: "(string \<Rightarrow> stat_result) \<Rightarrow> string \<Rightarrow> JobError option" where
  "checkDestinationLinks lstat p =
     (case check_links_from lstat (length p + 2) p of Some r \<Rightarrow> r | None \<Rightarrow> Some invalidDestination)"

text \<open>\<open>lstat1\<close> and \<open>lstat2\<close> are the states seen before and after the directory was created.\<close>

definition prepareDestination ::
    "dl_config \<Rightarrow> (string \<Rightarrow> stat_result) \<Rightarrow> bool \<Rightarrow> (string \<Rightarrow> stat_result) \<Rightarrow> string \<Rightarrow> JobError + string" where
  "prepareDestination cfg lstat1 mkdir_ok lstat2 dest =
     bind_result (destinationDirectory cfg dest) (\<lambda>directory.
       case checkDestinationLinks lstat1 directory of
         Some e \<Rightarrow> Inl e
       | None \<Rightarrow>
           if \<not> mkdir_ok then Inl (job_error DiskWriteFailed ''could not create destination directory'')
           else (case checkDestinationLinks lstat2 directory of Some e \<Rightarrow> Inl e | None \<Rightarrow> Inr directory))"

section \<open>Validating a command\<close>

definition isLoopbackHost :: "string \<Rightarrow> bool" where
  "isLoopbackHost host \<longleftrightarrow>
     (if equal_fold host ''localhost'' then True
      else case ParseIP host of None \<Rightarrow> False | Some ip \<Rightarrow> IsLoopback ip)"

definition url_allowed :: "dl_config \<Rightarrow> url \<Rightarrow> bool" where
  "url_allowed cfg u \<longleftrightarrow>
     u_scheme u = ''https'' \<or> (u_scheme u = ''http'' \<and> cfg_allow_http cfg \<and> isLoopbackHost (Hostname u))"

definition validate ::
    "(string \<Rightarrow> bool) \<Rightarrow> url_parser \<Rightarrow> int \<Rightarrow> dl_config \<Rightarrow> DownloadCommand \<Rightarrow> JobError option" where
  "validate uuid_ok parse now cfg c =
     (if \<not> equal_fold (trim_space (dc_type c)) ''DOWNLOAD_FILE''
      then Some (job_error InvalidCommand ''unsupported command type'')
      else if \<not> uuid_ok (dc_job_id c) then Some (job_error InvalidCommand ''job_id must be a valid UUID'')
      else if \<not> uuid_ok (dc_file_id c) then Some (job_error InvalidCommand ''file_id must be a valid UUID'')
      else if dc_size c < 0 \<or> dc_size c > cfg_max_file_size cfg
      then Some (job_error InvalidCommand ''invalid job_id, file_id, or file size'')
      else if (case dc_expires_at c of None \<Rightarrow> True | Some t \<Rightarrow> \<not> now < t)
      then Some (job_error URLExpired ''temporary download URL has expired'')
      else if length (dc_sha256 c) \<noteq> 64
      then Some (job_error InvalidCommand ''sha256 must contain 64 hexadecimal characters'')
      else if hex_decode (dc_sha256 c) = None then Some (job_error InvalidCommand ''sha256 is not hexadecimal'')
      else if \<not> validFilename (dc_filename c)
      then Some (job_error InvalidCommand ''filename must be a plain file name'')
      else case destinationDirectory cfg (dc_destination_path c) of
             Inl e \<Rightarrow> Some e
           | Inr _ \<Rightarrow>
               (case parse (dc_url c) of
                  None \<Rightarrow> Some (job_error InvalidCommand ''download_url is invalid'')
                | Some u \<Rightarrow>
                    if u_host u = '''' \<or> u_user u \<noteq> None \<or> u_fragment u \<noteq> ''''
                    then Some (job_error InvalidCommand ''download_url is invalid'')
                    else if \<not> url_allowed cfg u
                    then Some (job_error InvalidCommand
                           ''download_url must use HTTPS (local loopback HTTP can be enabled by configuration)'')
                    else None))"

section \<open>Facts\<close>

lemma validFilename_plain: "validFilename f \<Longrightarrow> plain_element f"
  by (auto simp: validFilename_def plain_element_def IsLocal_def contains_any_def list_ex_iff split: if_splits)

lemma cleanDestination_Inr:
  "cleanDestination p = Inr d \<Longrightarrow> IsAbs p \<and> d = Clean p \<and> IsAbs d \<and> Clean d = d"
  by (auto simp: cleanDestination_def Clean_abs Clean_idem split: if_splits)

lemma destinationDirectory_Inr:
  assumes "destinationDirectory cfg p = Inr d"
  shows "IsAbs d \<and> Clean d = d
    \<and> (cfg_roots cfg \<noteq> [] \<longrightarrow> (\<exists>root \<in> set (cfg_roots cfg). containsPath root d))
    \<and> (cfg_roots cfg = [] \<and> cfg_boundary cfg \<noteq> None \<longrightarrow> containsPath (cfg_directory cfg) d)"
  using assms
  by (auto simp: destinationDirectory_def Let_def bind_result_Inr list_ex_iff
      split: if_splits dest: cleanDestination_Inr)

text \<open>
  A download directory is a cleaned absolute path inside one of the configured roots: its
  path elements continue those of the root, so no combination of dots, separators or links in
  the text leads out of it.
\<close>

theorem destination_contained:
  assumes "destinationDirectory cfg p = Inr d" and "cfg_roots cfg \<noteq> []"
    and "\<forall>root \<in> set (cfg_roots cfg). IsAbs root"
  shows "IsAbs d \<and> Clean d = d
     \<and> (\<exists>root \<in> set (cfg_roots cfg). prefix (clean_list root) (clean_list d))"
  using destinationDirectory_Inr [OF assms(1)] assms(2,3) containsPath_iff by blast

lemma check_root_Inr:
  assumes "check_root rt inst root = Inr p"
  shows "IsAbs p \<and> Clean p = p \<and> Dir p \<noteq> p
    \<and> (rt \<noteq> '''' \<longrightarrow> \<not> containsPath p rt
         \<and> (containsPath rt p \<longrightarrow> containsPath (Join [rt, ''data'']) p \<and> \<not> containsPath p (Join [rt, ''data''])))
    \<and> (inst \<noteq> '''' \<longrightarrow> \<not> containsPath p inst \<and> \<not> containsPath inst p)"
  using assms
  by (auto simp: check_root_def split: sum.splits if_splits dest: cleanDestination_Inr)

lemma check_roots_Inr:
  "check_roots rt inst roots = Inr ps \<Longrightarrow> p \<in> set ps \<Longrightarrow> \<exists>root. check_root rt inst root = Inr p"
  by (induction roots arbitrary: ps) (auto simp: bind_result_Inr)

lemma ValidateRoots_Inr:
  "ValidateRoots dir roots rt inst = Inr ps \<Longrightarrow> p \<in> set ps \<Longrightarrow> \<exists>root. check_root rt inst root = Inr p"
proof -
  assume v: "ValidateRoots dir roots rt inst = Inr ps" and p: "p \<in> set ps"
  let ?roots = "if roots = [] then [dir] else roots"
  from v obtain cleaned where c: "check_roots rt inst ?roots = Inr cleaned"
    by (cases "check_roots rt inst ?roots") (simp_all add: ValidateRoots_def Let_def del: check_roots.simps)
  moreover obtain path where "cleanDestination dir = Inr path"
    using v c by (cases "cleanDestination dir") (simp_all add: ValidateRoots_def Let_def del: check_roots.simps)
  ultimately have "cleaned = ps"
    using v by (simp add: ValidateRoots_def Let_def del: check_roots.simps split: if_splits)
  with p show ?thesis by (intro check_roots_Inr [OF c]) simp
qed

lemma data_plain: "plain_element ''data''"
  by (simp add: plain_element_def)

text \<open>Where the entries of an allowed directory can be, as elements of the path.\<close>

lemma accepted_root_elements:
  assumes "ValidateRoots dir roots rt inst = Inr ps" and "root \<in> set ps"
    and "IsAbs rt" and "IsAbs inst" and "IsAbs d" and "containsPath root d"
  shows "(prefix (clean_list rt) (clean_list d @ [x]) \<longrightarrow> prefix (clean_list rt @ [''data'']) (clean_list d))
    \<and> \<not> prefix (clean_list inst) (clean_list d @ [x])"
proof -
  from assms(1,2) obtain r0 where "check_root rt inst r0 = Inr root"
    using ValidateRoots_Inr by blast
  note c = check_root_Inr [OF this]
  have ne: "rt \<noteq> ''''" "inst \<noteq> ''''" using assms(3,4) by (auto simp: IsAbs_iff)
  let ?R = "clean_list root" and ?T = "clean_list rt" and ?D = "clean_list d" and ?I = "clean_list inst"
  have data: "IsAbs (Join [rt, ''data''])" "clean_list (Join [rt, ''data'']) = ?T @ [''data'']"
    using Join_child_elements [OF assms(3) data_plain] by simp_all
  have R: "\<not> prefix ?R ?T" "prefix ?T ?R \<Longrightarrow> prefix (?T @ [''data'']) ?R"
    "\<not> prefix ?R ?I" "\<not> prefix ?I ?R"
    using c ne assms(3,4) data containsPath_iff by auto
  have RD: "prefix ?R (?D @ [x])" "prefix ?R ?D" using assms(5,6) c containsPath_iff by auto
  have "prefix (?T @ [''data'']) ?D" if "prefix ?T (?D @ [x])"
  proof -
    from that RD(1) R(1) have "prefix ?T ?R" by (meson prefix_same_cases)
    with R(2) RD(2) show ?thesis by (meson prefix_order.trans)
  qed
  moreover have "\<not> prefix ?I (?D @ [x])" using R(3,4) RD(1) by (meson prefix_same_cases)
  ultimately show ?thesis by blast
qed

lemma ValidateRoots_nonempty: "ValidateRoots dir roots rt inst = Inr ps \<Longrightarrow> ps \<noteq> []"
  by (cases "cleanDestination dir")
     (auto simp: ValidateRoots_def Let_def bind_result_Inr simp del: check_roots.simps split: if_splits)

text \<open>
  With accepted roots, a file that a download can write never is private runtime state: if
  it lies in the runtime directory at all it lies below the data directory of it, so it is not
  the identity, the enrollment state, the configuration, the lock or a log; and it never lies
  in the directory of the installed binaries.
\<close>

theorem accepted_roots_protect_runtime:
  assumes "ValidateRoots dir roots rt inst = Inr ps" and "root \<in> set ps"
    and "IsAbs rt" and "IsAbs inst" and "IsAbs d" and "containsPath root d" and "validFilename f"
  shows "(prefix (clean_list rt) (clean_list (Join [d, f])) \<longrightarrow>
            prefix (clean_list rt @ [''data'']) (clean_list d))
       \<and> \<not> prefix (clean_list inst) (clean_list d)"
proof -
  have "clean_list (Join [d, f]) = clean_list d @ [f]"
    using Join_child_elements [OF assms(5) validFilename_plain [OF assms(7)]] by simp
  with accepted_root_elements [OF assms(1-6), of f] show ?thesis by auto
qed

text \<open>
  A command is accepted exactly when everything the protocol asks for holds: identifiers,
  size, expiry, digest, a plain file name, an allowed directory and an allowed URL.
\<close>

theorem validate_accepts:
  "validate uuid_ok parse now cfg c = None \<longleftrightarrow>
     equal_fold (trim_space (dc_type c)) ''DOWNLOAD_FILE''
     \<and> uuid_ok (dc_job_id c) \<and> uuid_ok (dc_file_id c)
     \<and> 0 \<le> dc_size c \<and> dc_size c \<le> cfg_max_file_size cfg
     \<and> (\<exists>t. dc_expires_at c = Some t \<and> now < t)
     \<and> (\<exists>h. hex_decode (dc_sha256 c) = Some h \<and> length h = 32)
     \<and> validFilename (dc_filename c)
     \<and> (\<exists>d. destinationDirectory cfg (dc_destination_path c) = Inr d)
     \<and> (\<exists>u. parse (dc_url c) = Some u \<and> u_host u \<noteq> '''' \<and> u_user u = None \<and> u_fragment u = ''''
            \<and> url_allowed cfg u)"
  using hex_decode_length [of "dc_sha256 c"]
  by (auto simp: validate_def split: option.splits sum.splits if_splits)

section \<open>The walk over the ancestors\<close>

lemma length_unparse: "length es \<le> length (join_with slash es) + 1 \<or> es = []"
  if "\<forall>e \<in> set es. plain_element e"
  using that
proof (induction slash es rule: join_with.induct)
  case (3 w v ws)
  then show ?case by (cases w) (auto simp: plain_element_def)
qed simp_all

definition stat_fine :: "stat_result \<Rightarrow> bool" where
  "stat_fine st \<longleftrightarrow> st = NotExist \<or> st = Entry False"

lemma check_links_spec:
  assumes "\<forall>e \<in> set es. plain_element e" and "length es < fuel"
  shows "(\<exists>r. check_links_from lstat fuel (unparse_path True es) = Some r)
    \<and> (check_links_from lstat fuel (unparse_path True es) = Some None \<longleftrightarrow>
         (\<forall>fs. prefix fs es \<longrightarrow> stat_fine (lstat (unparse_path True fs))))"
  using assms
proof (induction fuel arbitrary: es)
  case 0
  then show ?case by simp
next
  case (Suc fuel)
  let ?p = "unparse_path True es"
  have dir: "Dir ?p = unparse_path True (butlast es)" by (rule Dir_unparse [OF Suc.prems(1)])
  have plain: "\<forall>e \<in> set (butlast es). plain_element e" using Suc.prems(1) by (auto dest: in_set_butlastD)
  have top: "Dir ?p = ?p \<longleftrightarrow> es = []"
  proof
    assume "Dir ?p = ?p"
    then have "butlast es = es" using unparse_inj [OF plain Suc.prems(1)] dir by simp
    then show "es = []" by (metis append_butlast_last_id append_self_conv list.distinct(1))
  next
    assume "es = []"
    then show "Dir ?p = ?p" using dir by simp
  qed
  show ?case
  proof (cases "stat_fine (lstat ?p)")
    case False
    then show ?thesis by (cases "lstat ?p") (auto simp: stat_fine_def)
  next
    case fine: True
    show ?thesis
    proof (cases "es = []")
      case True
      with fine top show ?thesis by (auto simp: stat_fine_def)
    next
      case False
      then obtain b x where es: "es = b @ [x]" by (metis rev_exhaust)
      with Suc.prems(2) have "length b < fuel" by simp
      with Suc.IH [of b] plain es have IH:
        "(\<exists>r. check_links_from lstat fuel (unparse_path True b) = Some r)"
        "(check_links_from lstat fuel (unparse_path True b) = Some None) \<longleftrightarrow>
           (\<forall>fs. prefix fs b \<longrightarrow> stat_fine (lstat (unparse_path True fs)))" by simp_all
      have step: "check_links_from lstat (Suc fuel) ?p = check_links_from lstat fuel (unparse_path True b)"
        using fine False top dir es by (auto simp: stat_fine_def)
      show ?thesis unfolding step using IH fine es by (auto simp: prefix_snoc)
    qed
  qed
qed

lemma check_links_total:
  assumes "\<forall>e \<in> set es. plain_element e"
  shows "\<exists>r. check_links_from lstat (length (unparse_path True es) + 2) (unparse_path True es) = Some r"
proof -
  have "length es < length (unparse_path True es) + 2"
    using length_unparse [OF assms] by (auto simp: unparse_path_def)
  from check_links_spec [OF assms this] show ?thesis by blast
qed

text \<open>
  The link check passes a cleaned absolute directory exactly when the directory and every
  ancestor up to the root either does not exist yet or is a plain object: an existing link or an
  object that cannot be inspected anywhere on the way is refused.
\<close>

theorem links_refused_on_every_level:
  assumes "IsAbs p"
  shows "checkDestinationLinks lstat (Clean p) = None \<longleftrightarrow>
    (\<forall>fs. prefix fs (clean_list p) \<longrightarrow> stat_fine (lstat (unparse_path True fs)))"
proof -
  let ?es = "clean_list p"
  have plain: "\<forall>e \<in> set ?es. plain_element e" using clean_list_abs_plain [OF assms] by blast
  have c: "Clean p = unparse_path True ?es" by (rule Clean_root [OF assms])
  have "length ?es < length (unparse_path True ?es) + 2"
    using length_unparse [OF plain] by (auto simp: unparse_path_def)
  note spec = check_links_spec [OF plain this, of lstat]
  then obtain r where "check_links_from lstat (length (Clean p) + 2) (Clean p) = Some r" by (auto simp: c)
  with spec show ?thesis by (auto simp: checkDestinationLinks_def c)
qed

section \<open>Witnesses\<close>

definition sample_cfg :: dl_config where
  "sample_cfg =
     \<lparr>cfg_directory = ''/srv/a/data/dl'', cfg_roots = [''/srv/a/data/dl''], cfg_max_concurrent = 2,
      cfg_queue_size = 16, cfg_max_file_size = 100, cfg_allow_http = False, cfg_boundary = None\<rparr>"

theorem destination_contained_witness:
  "destinationDirectory sample_cfg ''/srv/a/data/dl/x'' = Inr ''/srv/a/data/dl/x''
   \<and> Clean ''/srv/a/data/dl/x'' = ''/srv/a/data/dl/x''"
proof -
  have d: "destinationDirectory sample_cfg ''/srv/a/data/dl/x'' = Inr ''/srv/a/data/dl/x''" by code_simp
  have r: "cfg_roots sample_cfg \<noteq> []" "\<forall>root \<in> set (cfg_roots sample_cfg). IsAbs root"
    by (simp_all add: sample_cfg_def)
  show ?thesis using destination_contained [OF d r] d by simp
qed

theorem accepted_roots_protect_runtime_witness:
  "ValidateRoots ''/srv/a/data/dl'' [] ''/srv/a'' ''/opt/a'' = Inr [''/srv/a/data/dl'']
   \<and> \<not> prefix (clean_list ''/opt/a'') (clean_list ''/srv/a/data/dl/x'')"
proof -
  have v: "ValidateRoots ''/srv/a/data/dl'' [] ''/srv/a'' ''/opt/a'' = Inr [''/srv/a/data/dl'']" by code_simp
  have m: "''/srv/a/data/dl'' \<in> set [''/srv/a/data/dl'']" by simp
  have c: "containsPath ''/srv/a/data/dl'' ''/srv/a/data/dl/x''" "validFilename ''f''" by code_simp+
  show ?thesis using accepted_roots_protect_runtime [OF v m _ _ _ c] v by simp
qed

theorem links_refused_on_every_level_witness:
  "IsAbs ''/srv/a'' \<and> checkDestinationLinks (\<lambda>p. if p = ''/srv'' then Entry True else NotExist) (Clean ''/srv/a'')
     \<noteq> None"
proof -
  have a: "IsAbs ''/srv/a''" by simp
  have e: "clean_list ''/srv/a'' = [''srv'', ''a'']" "unparse_path True [''srv''] = ''/srv''" by code_simp+
  have pre: "prefix [''srv''] (clean_list ''/srv/a'')" by (simp add: e)
  have bad: "\<not> stat_fine ((\<lambda>p. if p = ''/srv'' then Entry True else NotExist) (unparse_path True [''srv'']))"
    by (simp add: e stat_fine_def)
  have iff: "(checkDestinationLinks (\<lambda>p. if p = ''/srv'' then Entry True else NotExist) (Clean ''/srv/a'') = None) =
      (\<forall>fs. prefix fs (clean_list ''/srv/a'') \<longrightarrow>
         stat_fine ((\<lambda>p. if p = ''/srv'' then Entry True else NotExist) (unparse_path True fs)))"
    by (rule links_refused_on_every_level [OF a])
  from pre bad have "checkDestinationLinks (\<lambda>p. if p = ''/srv'' then Entry True else NotExist) (Clean ''/srv/a'') \<noteq> None"
    unfolding iff by blast
  with a show ?thesis by blast
qed

end
