(* ===== verification/DownloadRun.thy ===== *)
theory DownloadRun
  imports DownloadPolicy "HOL-Library.Signed_Division" "HOL-Library.Sublist"
begin

text \<open>
  One download job: \<^verbatim>\<open>Manager.run\<close>, \<^verbatim>\<open>Manager.doRequest\<close> and \<^verbatim>\<open>progressWriter\<close> of
  \<^verbatim>\<open>download/manager.go\<close> with the file operations of \<^verbatim>\<open>download/files.go\<close>.

  The job reads its surroundings from an environment record: what the directory checks, the
  boundary, the disk and the HTTP client answer, and whether the context was cancelled at each
  place that asks.  It returns the actions it performs on the manager, in order, and the file
  system it leaves, a map from paths to contents.  SHA-256 is the argument \<open>sha\<close>.
\<close>

section \<open>Messages\<close>

record DlStatus =
  st_type :: string
  st_job_id :: string
  st_agent_id :: string
  st_status :: string

record DlProgress =
  pr_type :: string
  pr_job_id :: string
  pr_agent_id :: string
  pr_downloaded_bytes :: int
  pr_total_bytes :: int
  pr_progress :: int

record DlResult =
  rs_type :: string
  rs_job_id :: string
  rs_agent_id :: string
  rs_file_id :: string
  rs_status :: string
  rs_bytes_downloaded :: int
  rs_sha256 :: string
  rs_error_code :: string
  rs_error_message :: string

datatype dl_event = EvStatus DlStatus | EvProgress DlProgress | EvResult DlResult

text \<open>What a job does to the manager: \<^verbatim>\<open>setStatus\<close>, \<^verbatim>\<open>m.send\<close> and \<^verbatim>\<open>remember\<close>.\<close>

datatype action = ASetStatus string | ASend dl_event | ARemember DlResult

definition failAt :: "string \<Rightarrow> DownloadCommand \<Rightarrow> JobError \<Rightarrow> int \<Rightarrow> action" where
  "failAt agent c e downloaded =
     ASend (EvResult \<lparr>rs_type = ''FILE_DOWNLOAD_RESULT'', rs_job_id = dc_job_id c, rs_agent_id = agent,
       rs_file_id = dc_file_id c, rs_status = ''FAILED'', rs_bytes_downloaded = downloaded, rs_sha256 = '''',
       rs_error_code = error_text (je_code e), rs_error_message = je_message e\<rparr>)"

definition fail :: "string \<Rightarrow> DownloadCommand \<Rightarrow> JobError \<Rightarrow> action" where
  "fail agent c e = failAt agent c e 0"

definition completed_result :: "string \<Rightarrow> DownloadCommand \<Rightarrow> int \<Rightarrow> string \<Rightarrow> DlResult" where
  "completed_result agent c n hash =
     \<lparr>rs_type = ''FILE_DOWNLOAD_RESULT'', rs_job_id = dc_job_id c, rs_agent_id = agent,
      rs_file_id = dc_file_id c, rs_status = ''COMPLETED'', rs_bytes_downloaded = n, rs_sha256 = hash,
      rs_error_code = '''', rs_error_message = ''''\<rparr>"

section \<open>Asking the server\<close>

text \<open>
  The body of a response arrives in pieces; each piece carries what writing it to the
  temporary file does (\<open>Some n\<close>: the write fails after \<open>n\<close> bytes) and the time of the
  write.  \<open>resp_read_failed\<close> says that the body ends with an error instead of the end of file.
\<close>

record chunk =
  ck_bytes :: string
  ck_write :: "nat option"
  ck_now :: int

record response =
  resp_status :: int
  resp_content_length :: int
  resp_chunks :: "chunk list"
  resp_read_failed :: bool

text \<open>One round of the retry loop; times are nanoseconds.\<close>

record attempt =
  at_now :: int
  at_request_ok :: bool
  at_response :: "response option"
  at_until_now :: int
  at_cancelled :: bool

datatype request_error = ReqJob JobError | ReqTransport | ReqCancelled
datatype request_log = Requested int | Waited int

definition maxAttempts :: nat where
  "maxAttempts = 3"

definition before_expiry :: "DownloadCommand \<Rightarrow> int \<Rightarrow> bool" where
  "before_expiry c now = (case dc_expires_at c of None \<Rightarrow> False | Some t \<Rightarrow> now < t)"

definition remaining_at_most :: "DownloadCommand \<Rightarrow> int \<Rightarrow> int \<Rightarrow> bool" where
  "remaining_at_most c now delay = (case dc_expires_at c of None \<Rightarrow> True | Some t \<Rightarrow> t - now \<le> delay)"

function request_loop ::
    "(nat \<Rightarrow> attempt) \<Rightarrow> DownloadCommand \<Rightarrow> int \<Rightarrow> nat \<Rightarrow> request_log list \<times> (request_error + response)" where
  "request_loop env c backoff n =
     (if n > maxAttempts
      then ([], Inl (ReqJob (job_error InternalError ''HTTP retry loop ended unexpectedly'')))
      else if \<not> before_expiry c (at_now (env n))
      then ([], Inl (ReqJob (job_error URLExpired ''temporary download URL expired before HTTP request'')))
      else if \<not> at_request_ok (env n)
      then ([], Inl (ReqJob (job_error InvalidCommand ''invalid download request'')))
      else
        let req = [Requested (at_now (env n))]
        in case at_response (env n) of
             None \<Rightarrow> (req, Inl ReqTransport)
           | Some resp \<Rightarrow>
               if resp_status resp < 500 \<or> resp_status resp > 599 \<or> n = maxAttempts then (req, Inr resp)
               else if remaining_at_most c (at_until_now (env n)) backoff
               then (req, Inl (ReqJob (job_error URLExpired
                       ''temporary download URL expired during retry backoff'')))
               else if at_cancelled (env n) then (req, Inl ReqCancelled)
               else (case request_loop env c (backoff * 2) (n + 1) of
                       (log, r) \<Rightarrow> (req @ [Waited backoff] @ log, r)))"
  by pat_completeness auto
termination
  by (relation "measure (\<lambda>(env, c, backoff, n). maxAttempts + 1 - n)") auto

declare request_loop.simps [simp del]

definition doRequest ::
    "(nat \<Rightarrow> attempt) \<Rightarrow> DownloadCommand \<Rightarrow> request_log list \<times> (request_error + response)" where
  "doRequest env c = request_loop env c 500000000 1"

section \<open>Receiving the body\<close>

text \<open>
  \<^verbatim>\<open>progressWriter\<close>; \<open>pw_last\<close> is \<open>None\<close> for the zero time, from which any interval has
  passed.  The product of the percentage is a 64-bit one.
\<close>

record progressWriter =
  pw_write_err :: bool
  pw_total :: int
  pw_written :: int
  pw_last :: "int option"
  pw_interval :: int

definition wrap64 :: "int \<Rightarrow> int" where
  "wrap64 x = (x + 2 ^ 63) mod 2 ^ 64 - 2 ^ 63"

definition percent_of :: "int \<Rightarrow> int \<Rightarrow> int" where
  "percent_of written tot =
     (let percent = (if tot > 0 then wrap64 (written * 100) sdiv tot else 0);
          percent = (if percent < 0 then 0 else percent)
      in if percent > 100 then 100 else percent)"

definition pw_emit :: "string \<Rightarrow> DownloadCommand \<Rightarrow> progressWriter \<Rightarrow> action" where
  "pw_emit agent c p =
     ASend (EvProgress \<lparr>pr_type = ''FILE_DOWNLOAD_PROGRESS'', pr_job_id = dc_job_id c, pr_agent_id = agent,
       pr_downloaded_bytes = pw_written p, pr_total_bytes = dc_size c,
       pr_progress = percent_of (pw_written p) (pw_total p)\<rparr>)"

definition pw_final :: "string \<Rightarrow> DownloadCommand \<Rightarrow> int \<Rightarrow> progressWriter \<Rightarrow> action" where
  "pw_final agent c n p = pw_emit agent c (p\<lparr>pw_written := n\<rparr>)"

text \<open>\<^verbatim>\<open>Write\<close>: the bytes that reach the file, the new writer and the report it sends.\<close>

definition pw_write ::
    "string \<Rightarrow> DownloadCommand \<Rightarrow> progressWriter \<Rightarrow> chunk \<Rightarrow> string \<times> bool \<times> progressWriter \<times> action list" where
  "pw_write agent c p ck =
     (let (n, err) = (case ck_write ck of None \<Rightarrow> (length (ck_bytes ck), False)
                                        | Some k \<Rightarrow> (min k (length (ck_bytes ck)), True));
          p1 = p\<lparr>pw_write_err := err, pw_written := pw_written p + int n\<rparr>
      in if (case pw_last p of None \<Rightarrow> True | Some t \<Rightarrow> ck_now ck - t \<ge> pw_interval p)
         then (take n (ck_bytes ck), err, p1\<lparr>pw_last := Some (ck_now ck)\<rparr>, [pw_emit agent c p1])
         else (take n (ck_bytes ck), err, p1, []))"

text \<open>
  \<^verbatim>\<open>io.Copy\<close>: it stops at the first failed write and otherwise at the end of the body.
  The result is what reached the file, whether an error is returned, the writer and its reports.
\<close>

fun copy_body ::
    "string \<Rightarrow> DownloadCommand \<Rightarrow> progressWriter \<Rightarrow> chunk list \<Rightarrow> bool
      \<Rightarrow> string \<times> bool \<times> progressWriter \<times> action list" where
  "copy_body agent c p [] read_failed = ([], read_failed, p, [])"
| "copy_body agent c p (ck # cks) read_failed =
     (if ck_bytes ck = [] then copy_body agent c p cks read_failed
      else case pw_write agent c p ck of
             (w, err, p', acts) \<Rightarrow>
               if err then (w, True, p', acts)
               else (case copy_body agent c p' cks read_failed of
                       (rest, e, p'', acts') \<Rightarrow> (w @ rest, e, p'', acts @ acts')))"

section \<open>The job\<close>

type_synonym files = "string \<rightharpoonup> string"

text \<open>
  The environment of one job.  \<open>env_rands\<close> are the texts \<^verbatim>\<open>os.CreateTemp\<close> tries in place of
  the star, in order, until no file has the name (none when files cannot be created);
  \<open>env_remove1\<close> and \<open>env_remove2\<close> are the outcomes of the explicit
  and of the deferred removal, including the check of the boundary.
\<close>

record run_env =
  env_lstat1 :: "string \<Rightarrow> stat_result"
  env_mkdir_ok :: bool
  env_lstat2 :: "string \<Rightarrow> stat_result"
  env_hold_ok :: bool
  env_target_ok :: bool
  env_space :: "nat option"
  env_lstat3 :: "string \<Rightarrow> stat_result"
  env_rands :: "string list"
  env_attempts :: "nat \<Rightarrow> attempt"
  env_interval :: int
  env_request_cancelled :: bool
  env_copy_cancelled :: bool
  env_close_ok :: bool
  env_hash_read_ok :: bool
  env_cancelled :: bool
  env_lstat4 :: "string \<Rightarrow> stat_result"
  env_publish_ok :: bool
  env_remove1 :: bool
  env_remove2 :: bool

definition removePart :: "bool \<Rightarrow> string \<Rightarrow> files \<Rightarrow> files" where
  "removePart ok part fs = (if ok then fs(part := None) else fs)"

text \<open>\<^verbatim>\<open>publish\<close> renames the temporary file over the destination.\<close>

definition publish :: "bool \<Rightarrow> string \<Rightarrow> string \<Rightarrow> files \<Rightarrow> files option" where
  "publish ok part dest fs = (if ok then Some ((fs(dest := fs part))(part := None)) else None)"

definition fileSHA256 :: "(string \<Rightarrow> string) \<Rightarrow> bool \<Rightarrow> string \<Rightarrow> files \<Rightarrow> string option" where
  "fileSHA256 sha ok part fs =
     (if ok then (case fs part of None \<Rightarrow> None | Some content \<Rightarrow> Some (sha content)) else None)"

text \<open>From the announcement \<^verbatim>\<open>VERIFYING\<close> to the end.\<close>

definition run_verify ::
    "(string \<Rightarrow> string) \<Rightarrow> run_env \<Rightarrow> string \<Rightarrow> DownloadCommand \<Rightarrow> string \<Rightarrow> string \<Rightarrow> int \<Rightarrow> files
      \<Rightarrow> action list \<times> files" where
  "run_verify sha env agent c directory part n fs =
     (let dest = Join [directory, dc_filename c];
          dropped = removePart (env_remove1 env) part fs;
          st = ASetStatus ''VERIFYING''
      in case fileSHA256 sha (env_hash_read_ok env) part fs of
           None \<Rightarrow> ([st, failAt agent c (job_error InternalError ''could not calculate checksum'') n], dropped)
         | Some actual \<Rightarrow>
             let expected = (case hex_decode (dc_sha256 c) of None \<Rightarrow> [] | Some h \<Rightarrow> h)
             in if actual \<noteq> expected
                then ([st, failAt agent c (job_error HashMismatch ''downloaded file checksum does not match'') n],
                      dropped)
                else if env_cancelled env
                then ([st, failAt agent c (job_error Cancelled ''download cancelled'') n], fs)
                else case (if dc_destination_path c \<noteq> '''' then checkDestinationLinks (env_lstat4 env) directory
                           else None) of
                  Some e \<Rightarrow> ([st, failAt agent c e n], fs)
                | None \<Rightarrow>
                    (case publish (env_publish_ok env) part dest fs of
                       None \<Rightarrow>
                         ([st, failAt agent c (job_error DiskWriteFailed ''could not finalize downloaded file'') n],
                          dropped)
                     | Some fs' \<Rightarrow>
                         let r = completed_result agent c n (hex_encode actual)
                         in ([st, ARemember r, ASend (EvResult r)], fs')))"

text \<open>From the accepted response to the end.\<close>

definition run_copy ::
    "(string \<Rightarrow> string) \<Rightarrow> run_env \<Rightarrow> string \<Rightarrow> DownloadCommand \<Rightarrow> string \<Rightarrow> string \<Rightarrow> response \<Rightarrow> files
      \<Rightarrow> action list \<times> files" where
  "run_copy sha env agent c directory part resp fs =
     (let p0 = \<lparr>pw_write_err = False, pw_total = dc_size c, pw_written = 0, pw_last = None,
                pw_interval = env_interval env\<rparr>
      in case copy_body agent c p0 (resp_chunks resp) (resp_read_failed resp) of
           (content, copy_err, p, reports) \<Rightarrow>
             let n = int (length content);
                 fs1 = fs(part := Some content);
                 dropped = removePart (env_remove1 env) part fs1
             in if copy_err
                then let code = (if env_copy_cancelled env then Cancelled
                                 else if pw_write_err p then DiskWriteFailed else DownloadFailed)
                     in (reports @ [failAt agent c (job_error code ''download interrupted'') n], dropped)
                else if \<not> env_close_ok env
                then (reports @ [failAt agent c (job_error DiskWriteFailed ''could not flush temporary file'') n],
                      dropped)
                else if n \<noteq> dc_size c
                then (reports @ [pw_final agent c n p,
                                 failAt agent c (job_error SizeMismatch ''downloaded file size does not match'') n],
                      dropped)
                else (case run_verify sha env agent c directory part n fs1 of
                        (acts, fs2) \<Rightarrow> (reports @ [pw_final agent c n p] @ acts, fs2)))"

text \<open>From the creation of the temporary file to the end, the deferred cleanup excepted.\<close>

definition run_transfer ::
    "(string \<Rightarrow> string) \<Rightarrow> run_env \<Rightarrow> string \<Rightarrow> DownloadCommand \<Rightarrow> string \<Rightarrow> string \<Rightarrow> files
      \<Rightarrow> action list \<times> files" where
  "run_transfer sha env agent c directory part fs =
     (let st = ASetStatus ''DOWNLOADING''
      in case snd (doRequest (env_attempts env) c) of
           Inl (ReqJob e) \<Rightarrow> ([st, fail agent c e], fs)
         | Inl _ \<Rightarrow>
             ([st, fail agent c (job_error (if env_request_cancelled env then Cancelled else DownloadFailed)
                 ''HTTP download failed'')], fs)
         | Inr resp \<Rightarrow>
             if resp_status resp \<noteq> 200 \<and> resp_status resp \<noteq> 206
             then ([st, fail agent c (job_error HTTPError (''unexpected HTTP status '' @ decimal (resp_status resp)))], fs)
             else if resp_content_length resp \<ge> 0 \<and> resp_content_length resp \<noteq> dc_size c
             then ([st, fail agent c (job_error SizeMismatch ''Content-Length does not match expected size'')], fs)
             else (case run_copy sha env agent c directory part resp fs of
                     (acts, fs') \<Rightarrow> (st # acts, fs')))"

definition part_path :: "string \<Rightarrow> string \<Rightarrow> string \<Rightarrow> string" where
  "part_path directory name rand =
     (if has_suffix directory ''/'' then directory else directory @ ''/'')
       @ ''.'' @ name @ ''-'' @ rand @ ''.part''"

definition CreateTemp :: "string list \<Rightarrow> string \<Rightarrow> string \<Rightarrow> files \<Rightarrow> string option" where
  "CreateTemp rands directory name fs =
     find (\<lambda>part. fs part = None) (map (part_path directory name) rands)"

definition escapes :: "string \<Rightarrow> string \<Rightarrow> bool" where
  "escapes directory dest \<longleftrightarrow>
     (case Rel directory dest of None \<Rightarrow> True | Some rel \<Rightarrow> rel = ''..'' \<or> has_prefix rel ''../'')"

definition run ::
    "(string \<Rightarrow> string) \<Rightarrow> run_env \<Rightarrow> dl_config \<Rightarrow> string \<Rightarrow> DownloadCommand \<Rightarrow> files
      \<Rightarrow> action list \<times> files" where
  "run sha env cfg agent c fs =
     (case prepareDestination cfg (env_lstat1 env) (env_mkdir_ok env) (env_lstat2 env) (dc_destination_path c) of
        Inl e \<Rightarrow> ([fail agent c e], fs)
      | Inr directory \<Rightarrow>
          let bounded = boundaryFor cfg directory \<noteq> None;
              dest = Join [directory, dc_filename c]
          in if bounded \<and> \<not> env_hold_ok env
             then ([fail agent c (job_error DiskWriteFailed ''could not secure destination directory'')], fs)
             else if bounded \<and> \<not> env_target_ok env
             then ([fail agent c (job_error DiskWriteFailed ''download destination failed security validation'')], fs)
             else case env_space env of
               None \<Rightarrow> ([fail agent c (job_error InternalError ''could not check available disk space'')], fs)
             | Some space \<Rightarrow>
                 if dc_size c mod 2 ^ 64 > int space
                 then ([fail agent c (job_error InsufficientDiskSpace ''insufficient disk space'')], fs)
                 else if escapes directory dest
                 then ([fail agent c (job_error InvalidCommand ''destination escapes download directory'')], fs)
                 else (case checkDestinationLinks (env_lstat3 env) directory of
                         Some e \<Rightarrow> ([fail agent c e], fs)
                       | None \<Rightarrow>
                           (case CreateTemp (env_rands env) directory (dc_filename c) fs of
                              None \<Rightarrow> ([fail agent c (job_error DiskWriteFailed ''could not create temporary file'')], fs)
                            | Some part \<Rightarrow>
                                let (acts, fs') = run_transfer sha env agent c directory part (fs(part := Some []))
                                in (acts, removePart (env_remove2 env) part fs'))))"

section \<open>Facts about the parts of a job\<close>

lemma removePart_other: "q \<noteq> part \<Longrightarrow> removePart ok part fs q = fs q"
  by (simp add: removePart_def)

lemma removePart_twice: "removePart True part (removePart ok part fs) = removePart True part fs"
  by (simp add: removePart_def)

lemma CreateTemp_Some:
  "CreateTemp rands d f fs = Some part \<Longrightarrow> fs part = None \<and> (\<exists>r \<in> set rands. part = part_path d f r)"
  by (auto simp: CreateTemp_def find_Some_iff intro!: nth_mem)

lemma part_not_target:
  assumes "IsAbs d" and "Clean d = d" and "plain_element f"
  shows "part_path d f r \<noteq> Join [d, f]"
proof -
  let ?es = "clean_list d"
  have d: "d = unparse_path True ?es" using assms(1,2) Clean_root by metis
  have "length (unparse_path True (?es @ [f])) \<le> length (unparse_path True ?es) + 1 + length f"
    by (cases "?es = []") (simp_all add: unparse_path_def join_snoc)
  then have "length (Join [d, f]) \<le> length d + 1 + length f"
    using Join_child [OF assms(1,3)] d by simp
  moreover have "length d + length f + 7 \<le> length (part_path d f r)"
    by (simp add: part_path_def)
  ultimately show ?thesis by fastforce
qed

definition is_result :: "action \<Rightarrow> bool" where
  "is_result a = (case a of ASend (EvResult r) \<Rightarrow> True | _ \<Rightarrow> False)"

definition progress_ok :: "action \<Rightarrow> bool" where
  "progress_ok a = (case a of ASend (EvProgress p) \<Rightarrow> 0 \<le> pr_progress p \<and> pr_progress p \<le> 100 | _ \<Rightarrow> True)"

definition completed_in :: "action list \<Rightarrow> DlResult list" where
  "completed_in acts = [r. ASend (EvResult r) \<leftarrow> acts, rs_status r = ''COMPLETED'']"

lemma percent_bounds: "0 \<le> percent_of w t \<and> percent_of w t \<le> 100"
  by (simp add: percent_of_def Let_def)

lemma is_result_simps [simp]:
  "is_result (failAt agent c e n)" "is_result (fail agent c e)" "\<not> is_result (pw_emit agent c p)"
  "\<not> is_result (pw_final agent c n p)" "\<not> is_result (ASetStatus st)" "\<not> is_result (ARemember r)"
  "is_result (ASend (EvResult r))"
  by (simp_all add: is_result_def failAt_def fail_def pw_emit_def pw_final_def)

lemma progress_ok_simps [simp]:
  "progress_ok (failAt agent c e n)" "progress_ok (fail agent c e)" "progress_ok (pw_emit agent c p)"
  "progress_ok (pw_final agent c n p)" "progress_ok (ASetStatus st)" "progress_ok (ARemember r)"
  "progress_ok (ASend (EvResult r))"
  using percent_bounds by (simp_all add: progress_ok_def failAt_def fail_def pw_emit_def pw_final_def)

text \<open>A list of actions that ends with its only result.\<close>

definition one_result :: "action list \<Rightarrow> bool" where
  "one_result acts \<longleftrightarrow>
     acts \<noteq> [] \<and> is_result (last acts) \<and> list_all (\<lambda>a. \<not> is_result a) (butlast acts) \<and> list_all progress_ok acts"

definition quiet :: "action list \<Rightarrow> bool" where
  "quiet acts \<longleftrightarrow> list_all (\<lambda>a. \<not> is_result a \<and> progress_ok a) acts"

lemma one_result_append: "quiet as \<Longrightarrow> one_result bs \<Longrightarrow> one_result (as @ bs)"
  by (auto simp: one_result_def quiet_def butlast_append list_all_iff)

lemma one_result_Cons: "\<not> is_result a \<Longrightarrow> progress_ok a \<Longrightarrow> one_result bs \<Longrightarrow> one_result (a # bs)"
  using one_result_append [of "[a]"] by (simp add: quiet_def)

lemma one_result_single [simp]: "one_result [a] \<longleftrightarrow> is_result a \<and> progress_ok a"
  by (simp add: one_result_def)

lemma quiet_simps [simp]:
  "quiet []" "quiet (a # as) \<longleftrightarrow> \<not> is_result a \<and> progress_ok a \<and> quiet as"
  "quiet (as @ bs) \<longleftrightarrow> quiet as \<and> quiet bs"
  by (auto simp: quiet_def)

lemma copy_body_quiet: "copy_body agent c p cks rf = (w, e, p', acts) \<Longrightarrow> quiet acts"
proof (induction agent c p cks rf arbitrary: w e p' acts rule: copy_body.induct)
  case (1 agent c p rf)
  then show ?case by simp
next
  case (2 agent c p ck cks rf)
  then show ?case
    by (fastforce simp: pw_write_def Let_def split: if_splits prod.splits option.splits)
qed

lemma one_result_verify: "one_result (fst (run_verify sha env agent c d part n fs))"
  by (simp add: run_verify_def Let_def one_result_Cons split: option.split)

lemma one_result_copy: "one_result (fst (run_copy sha env agent c d part resp fs))"
proof -
  let ?p0 = "\<lparr>pw_write_err = False, pw_total = dc_size c, pw_written = 0, pw_last = None,
              pw_interval = env_interval env\<rparr>"
  obtain content err p reports where
    b: "copy_body agent c ?p0 (resp_chunks resp) (resp_read_failed resp) = (content, err, p, reports)"
    by (metis prod_cases4)
  obtain acts fs2 where
    v: "run_verify sha env agent c d part (dc_size c) (fs(part \<mapsto> content)) = (acts, fs2)"
    by fastforce
  have q: "quiet reports" by (rule copy_body_quiet [OF b])
  have "one_result acts" using one_result_verify v by (metis fst_conv)
  then have "one_result (reports @ pw_final agent c (dc_size c) p # acts)"
    by (intro one_result_append [OF q] one_result_Cons) simp_all
  moreover have "one_result (reports @ [failAt agent c e n])" for e n
    by (rule one_result_append [OF q]) simp
  moreover have "one_result (reports @ [pw_final agent c n p, failAt agent c e n])" for e n
    by (rule one_result_append [OF q]) (simp add: one_result_Cons)
  ultimately show ?thesis by (simp add: run_copy_def Let_def b v)
qed

lemma one_result_transfer: "one_result (fst (run_transfer sha env agent c d part fs))"
proof (cases "snd (doRequest (env_attempts env) c)")
  case (Inl e)
  then show ?thesis by (cases e) (simp_all add: run_transfer_def Let_def one_result_Cons)
next
  case (Inr resp)
  obtain acts fs' where v: "run_copy sha env agent c d part resp fs = (acts, fs')" by fastforce
  then have "one_result acts" using one_result_copy by (metis fst_conv)
  then show ?thesis by (simp add: run_transfer_def Let_def Inr v one_result_Cons)
qed

lemma run_one_result: "one_result (fst (run sha env cfg agent c fs))"
proof -
  have t: "run_transfer sha env agent c d part fs1 = (acts, fs2) \<Longrightarrow> one_result acts" for d part fs1 acts fs2
    using one_result_transfer by (metis fst_conv)
  show ?thesis by (auto simp: run_def Let_def dest: t split: sum.split option.split prod.split)
qed

text \<open>
  Every job, whatever the directory, the disk, the server and the context do, reports exactly
  one result, as its last action, and every progress message before it is between 0 and 100 percent.
\<close>

theorem one_final_result:
  "\<exists>as r. fst (run sha env cfg agent c fs) = as @ [ASend (EvResult r)]
     \<and> list_all (\<lambda>a. \<not> is_result a) as \<and> list_all progress_ok as"
proof -
  from run_one_result obtain as a where "fst (run sha env cfg agent c fs) = as @ [a]" "is_result a"
    "list_all (\<lambda>a. \<not> is_result a) as" "list_all progress_ok as"
    by (metis append_butlast_last_id list_all_append one_result_def)
  moreover from this(2) obtain r where "a = ASend (EvResult r)"
    by (auto simp: is_result_def split: action.splits dl_event.splits)
  ultimately show ?thesis by blast
qed

section \<open>What a job leaves on the disk\<close>

definition remembered_in :: "action list \<Rightarrow> DlResult list" where
  "remembered_in acts = [r. ARemember r \<leftarrow> acts]"

lemma completed_in_simps [simp]:
  "completed_in [] = []" "completed_in (as @ bs) = completed_in as @ completed_in bs"
  "completed_in (failAt agent c e n # as) = completed_in as"
  "completed_in (fail agent c e # as) = completed_in as"
  "completed_in (pw_final agent c n p # as) = completed_in as"
  "completed_in (ASetStatus st # as) = completed_in as"
  "completed_in (ARemember r # as) = completed_in as"
  "completed_in (ASend (EvResult (completed_result agent c n hash)) # as) =
     completed_result agent c n hash # completed_in as"
  by (simp_all add: completed_in_def failAt_def fail_def pw_final_def pw_emit_def completed_result_def)

lemma remembered_in_simps [simp]:
  "remembered_in [] = []" "remembered_in (as @ bs) = remembered_in as @ remembered_in bs"
  "remembered_in (failAt agent c e n # as) = remembered_in as"
  "remembered_in (fail agent c e # as) = remembered_in as"
  "remembered_in (pw_final agent c n p # as) = remembered_in as"
  "remembered_in (ASetStatus st # as) = remembered_in as"
  "remembered_in (ARemember r # as) = r # remembered_in as"
  "remembered_in (ASend ev # as) = remembered_in as"
  by (simp_all add: remembered_in_def failAt_def fail_def pw_final_def pw_emit_def)

text \<open>
  Either nothing is claimed and the destination is as it was, or the destination holds content
  of the announced size and digest, and exactly that is claimed and remembered.
\<close>

definition job_outcome ::
    "(string \<Rightarrow> string) \<Rightarrow> string \<Rightarrow> DownloadCommand \<Rightarrow> string \<Rightarrow> files \<Rightarrow> action list \<Rightarrow> files \<Rightarrow> bool" where
  "job_outcome sha agent c dest fs acts fs' \<longleftrightarrow>
     (completed_in acts = [] \<and> remembered_in acts = [] \<and> fs' dest = fs dest)
     \<or> (\<exists>content. fs' dest = Some content \<and> int (length content) = dc_size c
          \<and> hex_decode (dc_sha256 c) = Some (sha content)
          \<and> completed_in acts = [completed_result agent c (dc_size c) (hex_encode (sha content))]
          \<and> remembered_in acts = completed_in acts)"

definition only_touches :: "string set \<Rightarrow> files \<Rightarrow> files \<Rightarrow> bool" where
  "only_touches ps fs fs' \<longleftrightarrow> (\<forall>q. q \<notin> ps \<longrightarrow> fs' q = fs q)"

lemma only_touches_refl [simp]: "only_touches ps fs fs"
  by (simp add: only_touches_def)

lemma verify_files:
  assumes "run_verify sha env agent c d part n fs = (acts, fs')"
    and "fs part = Some content" and "n = int (length content)" and "n = dc_size c"
    and "hex_decode (dc_sha256 c) = Some h" and "part \<noteq> Join [d, dc_filename c]"
  shows "only_touches {part, Join [d, dc_filename c]} fs fs'
    \<and> job_outcome sha agent c (Join [d, dc_filename c]) fs acts fs'"
  using assms
  by (auto simp: run_verify_def Let_def fileSHA256_def publish_def removePart_def only_touches_def
      job_outcome_def split: if_splits option.splits)

lemma copy_body_silent:
  "copy_body agent c p cks rf = (w, e, p', acts) \<Longrightarrow> completed_in acts = [] \<and> remembered_in acts = []"
proof (induction agent c p cks rf arbitrary: w e p' acts rule: copy_body.induct)
  case (1 agent c p rf)
  then show ?case by simp
next
  case (2 agent c p ck cks rf)
  then show ?case
    by (fastforce simp: pw_write_def pw_emit_def completed_in_def remembered_in_def Let_def
        split: if_splits prod.splits option.splits)
qed

lemma copy_files:
  assumes "run_copy sha env agent c d part resp fs = (acts, fs')"
    and "hex_decode (dc_sha256 c) = Some h" and "part \<noteq> Join [d, dc_filename c]"
  shows "only_touches {part, Join [d, dc_filename c]} fs fs'
    \<and> job_outcome sha agent c (Join [d, dc_filename c]) fs acts fs'"
proof -
  let ?dest = "Join [d, dc_filename c]"
  let ?p0 = "\<lparr>pw_write_err = False, pw_total = dc_size c, pw_written = 0, pw_last = None,
              pw_interval = env_interval env\<rparr>"
  obtain content err p reports where
    b: "copy_body agent c ?p0 (resp_chunks resp) (resp_read_failed resp) = (content, err, p, reports)"
    by (metis prod_cases4)
  note silent = copy_body_silent [OF b]
  let ?fs1 = "fs(part \<mapsto> content)"
  show ?thesis
  proof (cases "err \<or> \<not> env_close_ok env \<or> int (length content) \<noteq> dc_size c")
    case True
    then have "completed_in acts = [] \<and> remembered_in acts = [] \<and> fs' = removePart (env_remove1 env) part ?fs1"
      using assms(1) silent by (auto simp: run_copy_def Let_def b split: if_splits)
    then show ?thesis using assms(3)
      by (auto simp: job_outcome_def only_touches_def removePart_def)
  next
    case False
    obtain acts2 fs2 where v: "run_verify sha env agent c d part (dc_size c) ?fs1 = (acts2, fs2)" by fastforce
    with False assms(1) have "acts = reports @ [pw_final agent c (dc_size c) p] @ acts2" "fs' = fs2"
      by (auto simp: run_copy_def Let_def b)
    moreover have "only_touches {part, ?dest} ?fs1 fs2 \<and> job_outcome sha agent c ?dest ?fs1 acts2 fs2"
      using False assms(2,3) by (intro verify_files [OF v, of content]) auto
    ultimately show ?thesis using silent assms(3)
      by (auto simp: job_outcome_def only_touches_def)
  qed
qed

lemma transfer_files:
  assumes "run_transfer sha env agent c d part fs = (acts, fs')"
    and "hex_decode (dc_sha256 c) = Some h" and "part \<noteq> Join [d, dc_filename c]"
  shows "only_touches {part, Join [d, dc_filename c]} fs fs'
    \<and> job_outcome sha agent c (Join [d, dc_filename c]) fs acts fs'"
proof (cases "snd (doRequest (env_attempts env) c)")
  case (Inl e)
  then show ?thesis using assms(1)
    by (cases e) (auto simp: run_transfer_def Let_def job_outcome_def)
next
  case (Inr resp)
  obtain acts2 fs2 where v: "run_copy sha env agent c d part resp fs = (acts2, fs2)" by fastforce
  note copy_files [OF v assms(2,3)]
  then show ?thesis using assms(1)
    by (auto simp: run_transfer_def Let_def Inr v job_outcome_def split: if_splits)
qed

lemma run_cases:
  assumes "run sha env cfg agent c fs = (acts, fs')"
  obtains (refused) e where "acts = [fail agent c e]" "fs' = fs"
  | (transfer) d part fs2 where "destinationDirectory cfg (dc_destination_path c) = Inr d"
      "CreateTemp (env_rands env) d (dc_filename c) fs = Some part"
      "run_transfer sha env agent c d part (fs(part \<mapsto> [])) = (acts, fs2)"
      "fs' = removePart (env_remove2 env) part fs2"
  using assms
  by (auto simp: run_def prepareDestination_def Let_def bind_result_Inr split: sum.splits option.splits if_splits prod.splits)

text \<open>Every file a job can change is in the directory of its destination.\<close>

lemma part_path_elements:
  assumes "IsAbs d" and "slash \<notin> set f" and "slash \<notin> set r"
  shows "clean_list (part_path d f r) = clean_list d @ [''.'' @ f @ ''-'' @ r @ ''.part'']"
proof -
  let ?x = "''.'' @ f @ ''-'' @ r @ ''.part''"
  have x: "plain_element ?x" using assms(2,3) by (auto simp: plain_element_def)
  show ?thesis
  proof (cases "has_suffix d ''/''")
    case True
    then obtain d0 where "d = d0 @ [slash]" by (cases d rule: rev_cases) (auto simp: has_suffix_def has_prefix_iff)
    with clean_list_after_slash [of d0 ?x] x True assms(1) show ?thesis by (simp add: part_path_def)
  next
    case False
    then show ?thesis using clean_list_child [OF assms(1) x] by (simp add: part_path_def)
  qed
qed

lemma run_stays_in_directory:
  assumes "run sha env cfg agent c fs = (acts, fs')"
    and "validFilename (dc_filename c)" and "hex_decode (dc_sha256 c) = Some h"
    and "\<forall>r \<in> set (env_rands env). slash \<notin> set r" and "fs' q \<noteq> fs q"
  shows "\<exists>d x. destinationDirectory cfg (dc_destination_path c) = Inr d \<and> clean_list q = clean_list d @ [x]"
  using assms(1)
proof (cases rule: run_cases)
  case (transfer d part fs2)
  from destinationDirectory_Inr [OF transfer(1)] have d: "IsAbs d" "Clean d = d" by blast+
  from validFilename_plain [OF assms(2)] have f: "plain_element (dc_filename c)" .
  obtain r where r: "r \<in> set (env_rands env)" "part = part_path d (dc_filename c) r"
    using CreateTemp_Some [OF transfer(2)] by blast
  have "part \<noteq> Join [d, dc_filename c]" using part_not_target [OF d f] r(2) by simp
  from transfer_files [OF transfer(3) assms(3) this] transfer(4) assms(5)
  have "q = part \<or> q = Join [d, dc_filename c]"
    by (auto simp: only_touches_def removePart_def split: if_splits)
  moreover have "clean_list part = clean_list d @ [''.'' @ dc_filename c @ ''-'' @ r @ ''.part'']"
    using part_path_elements [OF d(1) plain_no_slash [OF f], of r] assms(4) r by simp
  moreover have "clean_list (Join [d, dc_filename c]) = clean_list d @ [dc_filename c]"
    using Join_child_elements [OF d(1) f] by simp
  ultimately show ?thesis using transfer(1) by blast
qed (use assms(5) in simp)

text \<open>
  C4. A job changes nothing but its destination file and its own temporary file, which did not
  exist before and is gone afterwards unless the system refuses to remove it.  The destination
  changes only to content of exactly the announced size and SHA-256 digest, and only then is a
  completed result sent and remembered for duplicates.
\<close>

theorem only_verified_content_published:
  assumes "run sha env cfg agent c fs = (acts, fs')"
    and "validFilename (dc_filename c)" and "hex_decode (dc_sha256 c) = Some h"
  shows "(completed_in acts = [] \<and> remembered_in acts = []
           \<and> (\<forall>q. fs' q = fs q \<or> (fs q = None \<and> \<not> env_remove2 env)))
    \<or> (\<exists>d content. destinationDirectory cfg (dc_destination_path c) = Inr d
         \<and> fs' (Join [d, dc_filename c]) = Some content \<and> int (length content) = dc_size c \<and> sha content = h
         \<and> completed_in acts = [completed_result agent c (dc_size c) (hex_encode h)]
         \<and> remembered_in acts = completed_in acts
         \<and> (\<forall>q. q = Join [d, dc_filename c] \<or> fs' q = fs q \<or> (fs q = None \<and> \<not> env_remove2 env)))"
  using assms(1)
proof (cases rule: run_cases)
  case (transfer d part fs2)
  note d = transfer(1) and t = transfer(2) and r = transfer(3) and fs' = transfer(4)
  let ?dest = "Join [d, dc_filename c]"
  have fresh: "fs part = None" using CreateTemp_Some [OF t] by blast
  have ne: "part \<noteq> ?dest"
    using CreateTemp_Some [OF t] destinationDirectory_Inr [OF d]
      part_not_target [OF _ _ validFilename_plain [OF assms(2)]] by metis
  have o: "only_touches {part, ?dest} (fs(part \<mapsto> [])) fs2"
    "job_outcome sha agent c ?dest (fs(part \<mapsto> [])) acts fs2"
    using transfer_files [OF r assms(3) ne] by blast+
  have keep: "fs' q = fs q \<or> (fs q = None \<and> \<not> env_remove2 env)" if "q \<noteq> ?dest" for q
    using o(1) that fresh fs' by (cases "q = part") (simp_all add: only_touches_def removePart_def)
  have dest: "fs' ?dest = fs2 ?dest" using ne fs' by (simp add: removePart_other)
  show ?thesis
  proof (cases "completed_in acts = []")
    case True
    then have "remembered_in acts = []" "fs2 ?dest = fs ?dest"
      using o(2) ne by (auto simp: job_outcome_def)
    moreover from this keep dest have "\<forall>q. fs' q = fs q \<or> (fs q = None \<and> \<not> env_remove2 env)" by metis
    ultimately show ?thesis using True by simp
  next
    case False
    then obtain content where "fs' ?dest = Some content" "int (length content) = dc_size c" "sha content = h"
      "completed_in acts = [completed_result agent c (dc_size c) (hex_encode h)]"
      "remembered_in acts = completed_in acts"
      using o(2) dest assms(3) by (auto simp: job_outcome_def)
    moreover have "\<forall>q. q = ?dest \<or> fs' q = fs q \<or> (fs q = None \<and> \<not> env_remove2 env)" using keep by metis
    ultimately show ?thesis using d by metis
  qed
next
  case (refused e)
  then show ?thesis by (simp add: completed_in_def remembered_in_def fail_def failAt_def)
qed

section \<open>The requests of a job\<close>

definition log_kind :: "request_log \<Rightarrow> int option" where
  "log_kind e = (case e of Requested t \<Rightarrow> None | Waited d \<Rightarrow> Some d)"

definition in_time :: "DownloadCommand \<Rightarrow> request_log \<Rightarrow> bool" where
  "in_time c e = (case e of Requested t \<Rightarrow> before_expiry c t | Waited d \<Rightarrow> True)"

lemma request_loop_third:
  "request_loop env c b 3 = (log, r) \<Longrightarrow>
     map log_kind log \<in> {[], [None]} \<and> list_all (in_time c) log \<and> (case r of Inr resp \<Rightarrow> length log = 1 | Inl _ \<Rightarrow> True)"
  by (subst (asm) request_loop.simps)
     (auto simp: maxAttempts_def Let_def log_kind_def in_time_def split: if_splits option.splits)

lemma request_loop_second:
  "request_loop env c b 2 = (log, r) \<Longrightarrow>
     map log_kind log \<in> {[], [None], [None, Some b], [None, Some b, None]} \<and> list_all (in_time c) log
     \<and> (case r of Inr resp \<Rightarrow> resp_status resp < 500 \<or> resp_status resp > 599 \<or> length log = 3 | Inl _ \<Rightarrow> True)"
  by (subst (asm) request_loop.simps)
     (auto simp: maxAttempts_def Let_def log_kind_def in_time_def
        split: if_splits option.splits prod.splits sum.splits dest!: request_loop_third)

lemma request_loop_first:
  assumes "request_loop env c b 1 = (log, r)"
  shows "prefix (map log_kind log) [None, Some b, None, Some (b * 2), None] \<and> list_all (in_time c) log
     \<and> (case r of Inr resp \<Rightarrow> resp_status resp < 500 \<or> resp_status resp > 599 \<or> length log = 5 | Inl _ \<Rightarrow> True)"
proof -
  obtain log2 r2 where l2: "request_loop env c (b * 2) 2 = (log2, r2)" by fastforce
  note second = request_loop_second [OF l2]
  from second have p: "prefix (map log_kind log2) [None, Some (b * 2), None]" by auto
  from assms have "(log = Requested (at_now (env 1)) # Waited b # log2 \<and> r = r2 \<and> before_expiry c (at_now (env 1)))
      \<or> (log = [Requested (at_now (env 1))] \<and> before_expiry c (at_now (env 1)) \<or> log = [])
         \<and> (case r of Inr resp \<Rightarrow> resp_status resp < 500 \<or> resp_status resp > 599 | Inl _ \<Rightarrow> True)"
    by (subst (asm) request_loop.simps)
       (auto simp: maxAttempts_def Let_def l2 [unfolded numeral_2_eq_2] split: if_splits option.splits)
  then show ?thesis
  proof (elim disjE conjE)
    assume "log = Requested (at_now (env 1)) # Waited b # log2" "r = r2" "before_expiry c (at_now (env 1))"
    with second p show ?thesis by (cases r2) (auto simp: log_kind_def in_time_def dest: arg_cong [of _ _ length])
  qed (cases r; simp add: log_kind_def in_time_def)+
qed

text \<open>
  The retry discipline of a job: at most three requests, each made strictly before the
  command expires, with pauses of 0.5 and 1 second between them; a server error is handed on
  only after the third request.
\<close>

theorem request_discipline:
  "prefix (map log_kind (fst (doRequest env c))) [None, Some 500000000, None, Some 1000000000, None]
   \<and> list_all (in_time c) (fst (doRequest env c))
   \<and> (case snd (doRequest env c) of
        Inr resp \<Rightarrow> resp_status resp < 500 \<or> resp_status resp > 599 \<or> length (fst (doRequest env c)) = 5
      | Inl _ \<Rightarrow> True)"
proof -
  obtain log r where l: "doRequest env c = (log, r)" by fastforce
  show ?thesis unfolding l fst_conv snd_conv using request_loop_first [OF l [unfolded doRequest_def]] by simp
qed

section \<open>Witnesses\<close>

definition sample_digest :: "string \<Rightarrow> string" where
  "sample_digest s = take 32 (s @ replicate 32 CHR 0x00)"

definition sample_command :: DownloadCommand where
  "sample_command =
     \<lparr>dc_type = ''DOWNLOAD_FILE'', dc_job_id = ''j'', dc_file_id = ''f'', dc_filename = ''a.txt'',
      dc_destination_path = '''', dc_size = 2, dc_sha256 = hex_encode (sample_digest ''hi''),
      dc_url = ''https://h/x'', dc_expires_at = Some 100\<rparr>"

definition sample_run_env :: run_env where
  "sample_run_env =
     \<lparr>env_lstat1 = (\<lambda>p. NotExist), env_mkdir_ok = True, env_lstat2 = (\<lambda>p. Entry False), env_hold_ok = True,
      env_target_ok = True, env_space = Some 10, env_lstat3 = (\<lambda>p. Entry False), env_rands = [''1''],
      env_attempts = (\<lambda>n. \<lparr>at_now = 5, at_request_ok = True,
         at_response = Some \<lparr>resp_status = 200, resp_content_length = 2,
           resp_chunks = [\<lparr>ck_bytes = ''h'', ck_write = None, ck_now = 6\<rparr>, \<lparr>ck_bytes = ''i'', ck_write = None, ck_now = 7\<rparr>],
           resp_read_failed = False\<rparr>,
         at_until_now = 5, at_cancelled = False\<rparr>),
      env_interval = 1000000000, env_request_cancelled = False, env_copy_cancelled = False, env_close_ok = True,
      env_hash_read_ok = True, env_cancelled = False, env_lstat4 = (\<lambda>p. Entry False), env_publish_ok = True,
      env_remove1 = True, env_remove2 = True\<rparr>"

theorem only_verified_content_published_witness:
  "(snd (run sample_digest sample_run_env sample_cfg ''A'' sample_command (\<lambda>_. None)))
     (Join [''/srv/a/data/dl'', ''a.txt'']) = Some ''hi''"
proof -
  let ?r = "run sample_digest sample_run_env sample_cfg ''A'' sample_command (\<lambda>_. None)"
  have r: "?r = (fst ?r, snd ?r)" by simp
  have f: "validFilename (dc_filename sample_command)" by code_simp
  have h: "hex_decode (dc_sha256 sample_command) = Some (sample_digest ''hi'')" by (simp add: sample_command_def)
  have d: "destinationDirectory sample_cfg (dc_destination_path sample_command) = Inr ''/srv/a/data/dl''" by code_simp
  have c: "completed_in (fst ?r) \<noteq> []" by code_simp
  have v: "(snd ?r) (Join [''/srv/a/data/dl'', ''a.txt'']) = Some ''hi''" by code_simp
  show ?thesis using only_verified_content_published [OF r f h] c d v by blast
qed

end
