(* ===== verification/DownloadManager.thy ===== *)
theory DownloadManager
  imports DownloadRun
begin

text \<open>
  The download manager of \<^verbatim>\<open>download/manager.go\<close>: its construction, its queue, the table of
  active attempts, the cache of completed ones and its workers.

  The critical sections of the mutex, the steps of the workers and the calls of the connection
  interleave, so the manager is a machine driven by events: a submission, the second half of a
  submission that met a full queue, a worker that takes a job, a worker that performs the next
  action of its job (or ends it), a rejection, and the shutdown.  The actions of a job are those
  of \<open>run\<close>.  A send on a closed channel is a run-time panic in Go and is recorded as such.
\<close>

section \<open>State\<close>

record manager =
  mgr_cfg :: dl_config
  mgr_interval :: int
  mgr_agent :: string
  mgr_closed :: bool
  mgr_cancelled :: bool
  mgr_jobs :: "DownloadCommand chan"
  mgr_active :: "string \<rightharpoonup> string"
  mgr_completed :: "string \<rightharpoonup> DlResult"
  mgr_order :: "string list"
  mgr_running :: "(DownloadCommand \<times> action list) list"
  mgr_rejecting :: "DownloadCommand list"
  mgr_sent :: "dl_event list"
  mgr_panicked :: bool

text \<open>The third-party functions: the UUID parser, the URL parser and SHA-256.\<close>

record mgr_lib =
  lib_uuid_ok :: "string \<Rightarrow> bool"
  lib_parse :: url_parser
  lib_sha :: "string \<Rightarrow> string"

definition commandAttemptKey :: "mgr_lib \<Rightarrow> DownloadCommand \<Rightarrow> string" where
  "commandAttemptKey L c = dc_job_id c @ [CHR 0x00] @ hex_encode (lib_sha L (dc_url c))"

section \<open>Construction\<close>

datatype new_error =
    AgentIDRequired | SenderRequired | AbsFailed | BadRoots roots_error | BadDestination JobError

text \<open>\<^verbatim>\<open>filepath.Abs\<close>; \<open>cwd\<close> is the working directory when it can be found.\<close>

definition Abs_path :: "string option \<Rightarrow> string \<Rightarrow> string option" where
  "Abs_path cwd p = (if IsAbs p then Some (Clean p) else map_option (\<lambda>d. Join [d, p]) cwd)"

definition with_defaults :: "dl_config \<Rightarrow> dl_config" where
  "with_defaults cfg =
     cfg\<lparr>cfg_max_concurrent := (if cfg_max_concurrent cfg \<le> 0 then 2 else cfg_max_concurrent cfg),
         cfg_queue_size := (if cfg_queue_size cfg \<le> 0 then 16 else cfg_queue_size cfg),
         cfg_max_file_size := (if cfg_max_file_size cfg \<le> 0 then 10 * 2 ^ 30 else cfg_max_file_size cfg)\<rparr>"

definition started :: "dl_config \<Rightarrow> int \<Rightarrow> string \<Rightarrow> manager" where
  "started cfg interval agent =
     \<lparr>mgr_cfg = cfg, mgr_interval = (if interval \<le> 0 then 1000000000 else interval),
      mgr_agent = agent, mgr_closed = False, mgr_cancelled = False,
      mgr_jobs = make_chan (nat (cfg_queue_size cfg)),
      mgr_active = (\<lambda>_. None), mgr_completed = (\<lambda>_. None), mgr_order = [],
      mgr_running = [], mgr_rejecting = [], mgr_sent = [], mgr_panicked = False\<rparr>"

definition NewManager ::
    "string option \<Rightarrow> (string \<Rightarrow> stat_result) \<Rightarrow> bool \<Rightarrow> (string \<Rightarrow> stat_result)
      \<Rightarrow> dl_config \<Rightarrow> int \<Rightarrow> string \<Rightarrow> bool \<Rightarrow> new_error + manager" where
  "NewManager cwd lstat1 mkdir_ok lstat2 cfg interval agent sender =
     (if trim_space agent = '''' then Inl AgentIDRequired
      else if \<not> sender then Inl SenderRequired
      else case Abs_path cwd (cfg_directory cfg) of
             None \<Rightarrow> Inl AbsFailed
           | Some dir \<Rightarrow>
               let cfg1 = (with_defaults cfg)\<lparr>cfg_directory := dir\<rparr>;
                   roots = (if cfg_roots cfg1 \<noteq> []
                            then ValidateRoots dir (cfg_roots cfg1)
                                   (case cfg_boundary cfg1 of None \<Rightarrow> '''' | Some r \<Rightarrow> r) ''''
                            else Inr [])
               in case roots of
                    Inl e \<Rightarrow> Inl (BadRoots e)
                  | Inr rs \<Rightarrow>
                      let cfg2 = cfg1\<lparr>cfg_roots := rs\<rparr>
                      in case prepareDestination cfg2 lstat1 mkdir_ok lstat2 '''' of
                           Inl e \<Rightarrow> Inl (BadDestination e)
                         | Inr d \<Rightarrow> Inr (started cfg2 interval agent))"

section \<open>Operations\<close>

definition mgr_send :: "dl_event \<Rightarrow> manager \<Rightarrow> manager" where
  "mgr_send ev m = m\<lparr>mgr_sent := mgr_sent m @ [ev]\<rparr>"

definition mgr_fail :: "DownloadCommand \<Rightarrow> JobError \<Rightarrow> manager \<Rightarrow> manager" where
  "mgr_fail c e m = (case fail (mgr_agent m) c e of ASend ev \<Rightarrow> mgr_send ev m | _ \<Rightarrow> m)"

definition finish :: "string \<Rightarrow> manager \<Rightarrow> manager" where
  "finish key m = m\<lparr>mgr_active := (mgr_active m)(key := None)\<rparr>"

definition remember :: "string \<Rightarrow> DlResult \<Rightarrow> manager \<Rightarrow> manager" where
  "remember key r m =
     (let order = (if mgr_completed m key = None then mgr_order m @ [key] else mgr_order m);
          completed = (mgr_completed m)(key \<mapsto> r)
      in if length order > 128
         then m\<lparr>mgr_order := tl order, mgr_completed := completed(hd order := None)\<rparr>
         else m\<lparr>mgr_order := order, mgr_completed := completed\<rparr>)"

definition status_message :: "string \<Rightarrow> DownloadCommand \<Rightarrow> string \<Rightarrow> dl_event" where
  "status_message agent c status =
     EvStatus \<lparr>st_type = ''FILE_DOWNLOAD_STATUS'', st_job_id = dc_job_id c, st_agent_id = agent, st_status = status\<rparr>"

definition setStatus :: "mgr_lib \<Rightarrow> DownloadCommand \<Rightarrow> string \<Rightarrow> manager \<Rightarrow> manager" where
  "setStatus L c status m =
     mgr_send (status_message (mgr_agent m) c status)
       (m\<lparr>mgr_active := (mgr_active m)(commandAttemptKey L c \<mapsto> status)\<rparr>)"

definition Submit :: "mgr_lib \<Rightarrow> int \<Rightarrow> DownloadCommand \<Rightarrow> manager \<Rightarrow> manager" where
  "Submit L now c m =
     (case validate (lib_uuid_ok L) (lib_parse L) now (mgr_cfg m) c of
        Some e \<Rightarrow> mgr_fail c e m
      | None \<Rightarrow>
          let key = commandAttemptKey L c
          in if mgr_closed m then m
             else case mgr_completed m key of
               Some result \<Rightarrow> mgr_send (EvResult result) m
             | None \<Rightarrow>
                 (case mgr_active m key of
                    Some status \<Rightarrow> mgr_send (status_message (mgr_agent m) c status) m
                  | None \<Rightarrow>
                      let m1 = m\<lparr>mgr_active := (mgr_active m)(key \<mapsto> ''QUEUED''), mgr_panicked := mgr_panicked m \<or> mgr_closed m\<rparr>
                      in case chan_try_send (mgr_jobs m1) c of
                           Some q \<Rightarrow> m1\<lparr>mgr_jobs := q\<rparr>
                         | None \<Rightarrow> m1\<lparr>mgr_rejecting := mgr_rejecting m1 @ [c]\<rparr>))"

text \<open>The end of a submission that found the queue full.\<close>

definition finish_reject :: "mgr_lib \<Rightarrow> manager \<Rightarrow> manager" where
  "finish_reject L m =
     (case mgr_rejecting m of
        [] \<Rightarrow> m
      | c # cs \<Rightarrow>
          mgr_fail c (job_error DownloadFailed ''download queue is full'')
            (finish (commandAttemptKey L c) (m\<lparr>mgr_rejecting := cs\<rparr>)))"

definition Reject :: "DownloadCommand \<Rightarrow> string \<Rightarrow> manager \<Rightarrow> manager" where
  "Reject c message m = mgr_fail c (job_error InvalidCommand message) m"

text \<open>
  A free worker takes the oldest job.  When the manager was cancelled the job is not run, only
  finished; otherwise it performs the actions of \<open>run\<close> in the environment and on the files it
  meets.
\<close>

definition worker_take :: "mgr_lib \<Rightarrow> run_env \<Rightarrow> files \<Rightarrow> manager \<Rightarrow> manager" where
  "worker_take L env fs m =
     (if int (length (mgr_running m)) < cfg_max_concurrent (mgr_cfg m)
      then case chan_try_recv (mgr_jobs m) of
             None \<Rightarrow> m
           | Some (c, q) \<Rightarrow>
               let acts = (if mgr_cancelled m then []
                           else fst (run (lib_sha L) (env\<lparr>env_interval := mgr_interval m\<rparr>) (mgr_cfg m) (mgr_agent m) c fs))
               in m\<lparr>mgr_jobs := q, mgr_running := mgr_running m @ [(c, acts)]\<rparr>
      else m)"

definition perform :: "mgr_lib \<Rightarrow> DownloadCommand \<Rightarrow> action \<Rightarrow> manager \<Rightarrow> manager" where
  "perform L c a m =
     (case a of
        ASetStatus st \<Rightarrow> setStatus L c st m
      | ASend ev \<Rightarrow> mgr_send ev m
      | ARemember r \<Rightarrow> remember (commandAttemptKey L c) r m)"

definition worker_step :: "mgr_lib \<Rightarrow> nat \<Rightarrow> manager \<Rightarrow> manager" where
  "worker_step L i m =
     (if i < length (mgr_running m)
      then case mgr_running m ! i of
             (c, []) \<Rightarrow>
               finish (commandAttemptKey L c)
                 (m\<lparr>mgr_running := take i (mgr_running m) @ drop (i + 1) (mgr_running m)\<rparr>)
           | (c, a # as) \<Rightarrow> perform L c a (m\<lparr>mgr_running := (mgr_running m)[i := (c, as)]\<rparr>)
      else m)"

text \<open>\<^verbatim>\<open>Close\<close> up to the wait for the workers; the flag keeps the channel from being closed twice.\<close>

definition Close :: "manager \<Rightarrow> manager" where
  "Close m = (if mgr_closed m then m else m\<lparr>mgr_closed := True, mgr_cancelled := True\<rparr>)"

datatype mgr_event =
    SubmitEvent int DownloadCommand
  | FinishReject
  | RejectEvent DownloadCommand string
  | Take run_env files
  | Work nat
  | CloseEvent

fun mgr_step :: "mgr_lib \<Rightarrow> manager \<Rightarrow> mgr_event \<Rightarrow> manager" where
  "mgr_step L m (SubmitEvent now c) = Submit L now c m"
| "mgr_step L m FinishReject = finish_reject L m"
| "mgr_step L m (RejectEvent c msg) = Reject c msg m"
| "mgr_step L m (Take env fs) = worker_take L env fs m"
| "mgr_step L m (Work i) = worker_step L i m"
| "mgr_step L m CloseEvent = Close m"

section \<open>The invariant\<close>

definition in_flight :: "manager \<Rightarrow> DownloadCommand list" where
  "in_flight m = chan_buf (mgr_jobs m) @ map fst (mgr_running m) @ mgr_rejecting m"

definition keys_in_flight :: "mgr_lib \<Rightarrow> manager \<Rightarrow> string list" where
  "keys_in_flight L m = map (commandAttemptKey L) (in_flight m)"

definition cache_ok :: "manager \<Rightarrow> bool" where
  "cache_ok m \<longleftrightarrow>
     distinct (mgr_order m) \<and> dom (mgr_completed m) = set (mgr_order m) \<and> length (mgr_order m) \<le> 128"

definition table_ok :: "mgr_lib \<Rightarrow> manager \<Rightarrow> bool" where
  "table_ok L m \<longleftrightarrow> distinct (keys_in_flight L m) \<and> dom (mgr_active m) = set (keys_in_flight L m)"

definition mgr_inv :: "mgr_lib \<Rightarrow> manager \<Rightarrow> bool" where
  "mgr_inv L m \<longleftrightarrow> table_ok L m \<and> cache_ok m \<and> chan_ok (mgr_jobs m)
     \<and> int (length (mgr_running m)) \<le> cfg_max_concurrent (mgr_cfg m)
     \<and> mgr_closed m = mgr_cancelled m \<and> \<not> mgr_panicked m"

definition mgr_init :: "manager \<Rightarrow> bool" where
  "mgr_init m \<longleftrightarrow> (\<exists>cwd l1 ok l2 cfg i a s. NewManager cwd l1 ok l2 cfg i a s = Inr m)"

lemmas mgr_defs [inv_defs] = mgr_inv_def table_ok_def cache_ok_def keys_in_flight_def in_flight_def

lemma mgr_send_fields [simp]:
  "mgr_cfg (mgr_send ev m) = mgr_cfg m" "mgr_closed (mgr_send ev m) = mgr_closed m"
  "mgr_cancelled (mgr_send ev m) = mgr_cancelled m" "mgr_jobs (mgr_send ev m) = mgr_jobs m"
  "mgr_active (mgr_send ev m) = mgr_active m" "mgr_completed (mgr_send ev m) = mgr_completed m"
  "mgr_order (mgr_send ev m) = mgr_order m" "mgr_running (mgr_send ev m) = mgr_running m"
  "mgr_rejecting (mgr_send ev m) = mgr_rejecting m" "mgr_panicked (mgr_send ev m) = mgr_panicked m"
  "mgr_interval (mgr_send ev m) = mgr_interval m" "mgr_agent (mgr_send ev m) = mgr_agent m"
  "mgr_sent (mgr_send ev m) = mgr_sent m @ [ev]"
  by (simp_all add: mgr_send_def)

lemma mgr_inv_send [simp]: "mgr_inv L (mgr_send ev m) = mgr_inv L m"
  by (simp add: inv_defs)

lemma mgr_fail_send: "\<exists>ev. mgr_fail c e m = mgr_send ev m"
  unfolding mgr_fail_def fail_def failAt_def action.case by blast

lemma mgr_inv_fail [simp]: "mgr_inv L (mgr_fail c e m) = mgr_inv L m"
  using mgr_fail_send by (metis mgr_inv_send)

lemma NewManager_started:
  assumes "NewManager cwd l1 ok l2 cfg i a s = Inr m"
  shows "\<exists>cfg2. m = started cfg2 i a \<and> 0 < cfg_max_concurrent cfg2 \<and> 0 < cfg_queue_size cfg2"
  using assms unfolding NewManager_def
  by (clarsimp simp: Let_def with_defaults_def split: if_splits option.splits sum.splits)
     (fastforce)+

lemma started_inv: "0 \<le> cfg_max_concurrent cfg \<Longrightarrow> mgr_inv L (started cfg i a)"
  by (simp add: started_def inv_defs)

lemma NewManager_inv: "mgr_init m \<Longrightarrow> mgr_inv L m"
  unfolding mgr_init_def using NewManager_started started_inv by (metis less_imp_le)

lemma shrink_cache:
  assumes "distinct order" "dom f = set order" "length order \<le> 129" "128 < length order"
  shows "distinct (tl order) \<and> dom (f(hd order := None)) = set (tl order) \<and> length (tl order) \<le> 128"
  using assms by (cases order) auto

lemma remember_cache:
  assumes c: "cache_ok m"
  shows "cache_ok (remember key r m)"
proof -
  define order where "order = (if mgr_completed m key = None then mgr_order m @ [key] else mgr_order m)"
  define f where "f = (mgr_completed m)(key \<mapsto> r)"
  have key: "mgr_completed m key = None \<longleftrightarrow> key \<notin> set (mgr_order m)"
    using c by (auto simp: cache_ok_def)
  have o: "distinct order" "dom f = set order" "length order \<le> 129"
    using c key by (auto simp: cache_ok_def order_def f_def)
  have r: "remember key r m = (if length order > 128
      then m\<lparr>mgr_order := tl order, mgr_completed := f(hd order := None)\<rparr>
      else m\<lparr>mgr_order := order, mgr_completed := f\<rparr>)"
    by (simp add: remember_def Let_def order_def f_def)
  show ?thesis
  proof (cases "length order > 128")
    case True
    then show ?thesis using shrink_cache [OF o True] by (simp add: r cache_ok_def)
  next
    case False
    then show ?thesis using o by (simp add: r cache_ok_def)
  qed
qed

lemma remember_fields [simp]:
  "mgr_cfg (remember k r m) = mgr_cfg m" "mgr_closed (remember k r m) = mgr_closed m"
  "mgr_cancelled (remember k r m) = mgr_cancelled m" "mgr_jobs (remember k r m) = mgr_jobs m"
  "mgr_active (remember k r m) = mgr_active m" "mgr_running (remember k r m) = mgr_running m"
  "mgr_rejecting (remember k r m) = mgr_rejecting m" "mgr_panicked (remember k r m) = mgr_panicked m"
  by (simp_all add: remember_def Let_def)

lemma Submit_inv:
  assumes i: "mgr_inv L m"
  shows "mgr_inv L (Submit L now c m)"
proof (cases "validate (lib_uuid_ok L) (lib_parse L) now (mgr_cfg m) c = None \<and> \<not> mgr_closed m
     \<and> mgr_completed m (commandAttemptKey L c) = None \<and> mgr_active m (commandAttemptKey L c) = None")
  case False
  then show ?thesis using i by (auto simp: Submit_def Let_def split: option.split)
next
  case True
  then have new: "commandAttemptKey L c \<notin> set (keys_in_flight L m)"
    using i by (auto simp: mgr_inv_def table_ok_def)
  show ?thesis
  proof (cases "chan_try_send (mgr_jobs m) c")
    case None
    then show ?thesis using True i new by (auto simp: Submit_def Let_def inv_defs)
  next
    case (Some q)
    with ch.send_some [OF Some] chan_send_ok [OF Some] show ?thesis
      using True i new by (auto simp: Submit_def Let_def inv_defs)
  qed
qed

lemma finish_reject_inv:
  assumes i: "mgr_inv L m"
  shows "mgr_inv L (finish_reject L m)"
proof (cases "mgr_rejecting m")
  case Nil
  then show ?thesis using i by (simp add: finish_reject_def)
next
  case (Cons c cs)
  let ?m = "m\<lparr>mgr_rejecting := cs\<rparr>"
  have "mgr_inv L (finish (commandAttemptKey L c) ?m)"
    using i Cons by (simp add: finish_def inv_defs)
  then show ?thesis by (simp add: finish_reject_def Cons)
qed

lemma worker_take_inv:
  assumes i: "mgr_inv L m"
  shows "mgr_inv L (worker_take L env fs m)"
proof (cases "chan_try_recv (mgr_jobs m)")
  case None
  then show ?thesis using i by (simp add: worker_take_def)
next
  case (Some x)
  then obtain c q where r: "chan_try_recv (mgr_jobs m) = Some (c, q)" by (cases x) auto
  have "chan_ok q" by (rule chan_recv_ok [OF _ r]) (use i in \<open>simp add: mgr_inv_def\<close>)
  with r ch.recv_some [OF r] show ?thesis using i
    by (auto simp: worker_take_def Let_def inv_defs)
qed

lemma worker_step_inv:
  assumes i: "mgr_inv L m"
  shows "mgr_inv L (worker_step L k m)"
proof (cases "k < length (mgr_running m)")
  case False
  then show ?thesis using i by (simp add: worker_step_def)
next
  case True
  obtain c as where ca: "mgr_running m ! k = (c, as)" by fastforce
  let ?rs = "mgr_running m"
  have split: "?rs = take k ?rs @ (c, as) # drop (k + 1) ?rs"
    using id_take_nth_drop [OF True] ca by simp
  show ?thesis
  proof (cases as)
    case Nil
    have "map (commandAttemptKey L) (map fst ?rs) =
        map (commandAttemptKey L) (map fst (take k ?rs)) @ commandAttemptKey L c # map (commandAttemptKey L) (map fst (drop (k + 1) ?rs))"
      by (subst split) simp
    then show ?thesis using True i ca Nil
      by (auto simp: worker_step_def finish_def inv_defs)
  next
    case (Cons a rest)
    have eq: "map fst (?rs[k := (c, rest)]) = map fst ?rs"
      using True ca by (simp add: map_update list_update_same_conv)
    have k: "commandAttemptKey L c \<in> set (keys_in_flight L m)"
      using True ca by (force simp: inv_defs in_set_conv_nth)
    let ?m = "m\<lparr>mgr_running := ?rs[k := (c, rest)]\<rparr>"
    have im: "mgr_inv L ?m" using i eq by (simp add: inv_defs)
    then have "mgr_inv L (perform L c a ?m)"
    proof (cases a)
      case (ASetStatus st)
      then show ?thesis using im k eq by (auto simp: perform_def setStatus_def inv_defs)
    next
      case (ASend ev)
      then show ?thesis using im by (simp add: perform_def)
    next
      case (ARemember r)
      then show ?thesis using im remember_cache [of ?m]
        by (simp add: perform_def mgr_inv_def table_ok_def keys_in_flight_def in_flight_def)
    qed
    then show ?thesis using True ca Cons by (simp add: worker_step_def)
  qed
qed

lemma Close_inv: "mgr_inv L m \<Longrightarrow> mgr_inv L (Close m)"
  by (simp add: Close_def inv_defs)

lemma mgr_step_inv:
  assumes "mgr_inv L m"
  shows "mgr_inv L (mgr_step L m e)"
  by (cases e)
     (simp_all add: assms Submit_inv finish_reject_inv worker_take_inv worker_step_inv Reject_def Close_inv)

interpretation mgr: event_machine mgr_init "mgr_step L" "mgr_inv L"
  by unfold_locales (auto intro: NewManager_inv mgr_step_inv)

section \<open>The promises of the manager\<close>

text \<open>
  C10. Whatever is submitted, in whatever order workers and callers interleave, no attempt is
  queued or running twice, the table of active attempts lists exactly the attempts in flight, the
  queue and the number of workers stay within their configured bounds, at most 128 results are
  remembered, and nothing is ever sent on the closed queue.
\<close>

theorem manager_invariant:
  assumes "NewManager cwd l1 ok l2 cfg i a s = Inr m0" and "m = foldl (mgr_step L) m0 es"
  shows "distinct (keys_in_flight L m) \<and> dom (mgr_active m) = set (keys_in_flight L m)
    \<and> length (chan_buf (mgr_jobs m)) \<le> chan_cap (mgr_jobs m)
    \<and> int (length (mgr_running m)) \<le> cfg_max_concurrent (mgr_cfg m)
    \<and> distinct (mgr_order m) \<and> dom (mgr_completed m) = set (mgr_order m) \<and> card (dom (mgr_completed m)) \<le> 128
    \<and> \<not> mgr_panicked m"
proof -
  have "mgr_init m0" using assms(1) unfolding mgr_init_def by blast
  then have "mgr_inv L m" unfolding assms(2) by (rule mgr.run_inv)
  then show ?thesis
    by (simp add: mgr_inv_def table_ok_def cache_ok_def chan_ok_def distinct_card)
qed

text \<open>
  C23. A valid command whose attempt is already in flight, or completed and remembered, starts
  nothing: the manager only answers with the status of the attempt or with the remembered result.
\<close>

theorem duplicate_starts_nothing:
  assumes "mgr_inv L m" and "\<not> mgr_closed m"
    and "validate (lib_uuid_ok L) (lib_parse L) now (mgr_cfg m) c = None"
    and "commandAttemptKey L c \<in> set (keys_in_flight L m) \<union> dom (mgr_completed m)"
  shows "(\<exists>r. mgr_completed m (commandAttemptKey L c) = Some r \<and> Submit L now c m = mgr_send (EvResult r) m)
    \<or> (\<exists>st. mgr_active m (commandAttemptKey L c) = Some st
          \<and> Submit L now c m = mgr_send (status_message (mgr_agent m) c st) m)"
proof -
  let ?k = "commandAttemptKey L c"
  have t: "dom (mgr_active m) = set (keys_in_flight L m)" using assms(1) by (simp add: mgr_inv_def table_ok_def)
  show ?thesis
  proof (cases "mgr_completed m ?k")
    case None
    with assms(4) t obtain st where "mgr_active m ?k = Some st" by blast
    with None assms(2,3) show ?thesis by (simp add: Submit_def Let_def)
  next
    case (Some r)
    with assms(2,3) show ?thesis by (simp add: Submit_def Let_def)
  qed
qed

fun worker_event :: "mgr_event \<Rightarrow> bool" where
  "worker_event (Take env fs) = True"
| "worker_event (Work i) = True"
| "worker_event e = False"

definition work_left :: "manager \<Rightarrow> nat" where
  "work_left m = 2 * length (chan_buf (mgr_jobs m)) + sum_list (map (\<lambda>(c, acts). Suc (length acts)) (mgr_running m))"

lemma setStatus_fields [simp]:
  "mgr_jobs (setStatus L c st m) = mgr_jobs m" "mgr_running (setStatus L c st m) = mgr_running m"
  "mgr_closed (setStatus L c st m) = mgr_closed m"
  by (simp_all add: setStatus_def)

lemma perform_fields [simp]:
  "mgr_jobs (perform L c a m) = mgr_jobs m" "mgr_running (perform L c a m) = mgr_running m"
  "mgr_closed (perform L c a m) = mgr_closed m"
  by (cases a; simp add: perform_def)+

lemma sum_list_at:
  fixes f :: "'a \<Rightarrow> nat"
  shows "i < length xs \<Longrightarrow> sum_list (map f xs) = f (xs ! i) + sum_list (map f (take i xs @ drop (i + 1) xs))"
  by (subst id_take_nth_drop [of i xs]) (simp_all add: add.commute add.left_commute)

lemma worker_step_progress:
  assumes "i < length (mgr_running m)"
  shows "work_left (worker_step L i m) < work_left m \<and> mgr_closed (worker_step L i m) = mgr_closed m"
proof -
  let ?f = "\<lambda>(c :: DownloadCommand, acts :: action list). Suc (length acts)"
  obtain c as where ca: "mgr_running m ! i = (c, as)" by fastforce
  note sum = sum_list_at [OF assms, of ?f]
  show ?thesis
  proof (cases as)
    case Nil
    then show ?thesis using assms ca sum by (simp add: worker_step_def finish_def work_left_def)
  next
    case (Cons a rest)
    have "sum_list (map ?f ((mgr_running m)[i := (c, rest)])) < sum_list (map ?f (mgr_running m))"
      using assms ca Cons sum sum_list_at [of i "(mgr_running m)[i := (c, rest)]" ?f] by simp
    then show ?thesis using assms ca Cons by (simp add: worker_step_def work_left_def)
  qed
qed

lemma worker_take_closed:
  assumes "mgr_cancelled m" and "chan_buf (mgr_jobs m) \<noteq> []"
    and "int (length (mgr_running m)) < cfg_max_concurrent (mgr_cfg m)"
  shows "work_left (worker_take L env fs m) < work_left m
    \<and> mgr_closed (worker_take L env fs m) = mgr_closed m \<and> mgr_sent (worker_take L env fs m) = mgr_sent m"
proof -
  from assms(2) obtain c q where r: "chan_try_recv (mgr_jobs m) = Some (c, q)"
    using ch.recv_none by (metis not_Some_eq prod.exhaust)
  with ch.recv_some [OF r] assms show ?thesis
    by (simp add: worker_take_def Let_def work_left_def)
qed

lemma worker_step_idle:
  assumes "mgr_inv L m" and "mgr_closed m" and "worker_event e" and "mgr_step L m e \<noteq> m"
  shows "work_left (mgr_step L m e) < work_left m \<and> mgr_closed (mgr_step L m e)"
proof (cases e)
  case (Work i)
  with assms(4) have "i < length (mgr_running m)" by (metis mgr_step.simps(5) worker_step_def)
  with Work show ?thesis using worker_step_progress assms(2) by simp
next
  case (Take env fs)
  have "worker_take L env fs m = m" if "\<not> int (length (mgr_running m)) < cfg_max_concurrent (mgr_cfg m)
      \<or> chan_try_recv (mgr_jobs m) = None"
    using that by (auto simp: worker_take_def)
  with assms(4) Take have "int (length (mgr_running m)) < cfg_max_concurrent (mgr_cfg m)"
    "chan_try_recv (mgr_jobs m) \<noteq> None"
    by (metis mgr_step.simps(4))+
  moreover from this(2) have "chan_buf (mgr_jobs m) \<noteq> []" using ch.recv_none by metis
  ultimately show ?thesis using Take worker_take_closed assms(1,2) by (simp add: mgr_inv_def)
qed (use assms(3) in simp_all)

text \<open>
  C24. Shutdown ends: once the manager is closed, every step a worker can take leaves strictly
  less work, some worker can take a step as long as any is left, and a job taken from the queue
  after the shutdown has nothing to do.
\<close>

theorem closed_manager_drains:
  assumes "mgr_inv L m" and "mgr_closed m" and "0 < cfg_max_concurrent (mgr_cfg m)"
  shows "(\<forall>e. worker_event e \<and> mgr_step L m e \<noteq> m \<longrightarrow>
            work_left (mgr_step L m e) < work_left m \<and> mgr_closed (mgr_step L m e))
    \<and> (0 < work_left m \<longrightarrow> (\<exists>e. worker_event e \<and> mgr_step L m e \<noteq> m))
    \<and> (\<forall>env fs. \<exists>cs. mgr_running (mgr_step L m (Take env fs)) = mgr_running m @ map (\<lambda>c. (c, [])) cs)"
proof (intro conjI impI allI)
  fix e
  assume "worker_event e \<and> mgr_step L m e \<noteq> m"
  then show "work_left (mgr_step L m e) < work_left m" "mgr_closed (mgr_step L m e)"
    using worker_step_idle assms(1,2) by blast+
next
  assume w: "0 < work_left m"
  show "\<exists>e. worker_event e \<and> mgr_step L m e \<noteq> m"
  proof (cases "mgr_running m")
    case Nil
    then have "chan_buf (mgr_jobs m) \<noteq> []" using w by (auto simp: work_left_def)
    with Nil assms have "work_left (worker_take L env fs m) < work_left m" for env fs
      using worker_take_closed by (simp add: mgr_inv_def)
    then have "mgr_step L m (Take env fs) \<noteq> m" for env fs by (metis less_irrefl mgr_step.simps(4))
    then show ?thesis using worker_event.simps(1) by blast
  next
    case (Cons r rs)
    then have "work_left (worker_step L 0 m) < work_left m" using worker_step_progress by simp
    then have "mgr_step L m (Work 0) \<noteq> m" by (metis less_irrefl mgr_step.simps(5))
    then show ?thesis using worker_event.simps(2) by blast
  qed
next
  fix env fs
  have "mgr_cancelled m" using assms(1,2) by (simp add: mgr_inv_def)
  then show "\<exists>cs. mgr_running (mgr_step L m (Take env fs)) = mgr_running m @ map (\<lambda>c. (c, [])) cs"
    by (cases "chan_try_recv (mgr_jobs m)")
       (auto simp: worker_take_def Let_def intro: exI [of _ "[]"] exI [of _ "[c]" for c])
qed

section \<open>Witnesses\<close>

definition sample_lib :: mgr_lib where
  "sample_lib = \<lparr>lib_uuid_ok = (\<lambda>_. True), lib_parse = (\<lambda>_. Some (sample_url ''https'' ''h'')), lib_sha = sample_digest\<rparr>"

definition sample_manager :: manager where
  "sample_manager = started sample_cfg 0 ''A''"

lemma sample_manager_inv: "mgr_inv sample_lib sample_manager"
  unfolding sample_manager_def by (rule started_inv) (simp add: sample_cfg_def)

lemma sample_submitted:
  "mgr_inv sample_lib (Submit sample_lib 5 sample_command sample_manager)"
  by (rule Submit_inv [OF sample_manager_inv])

theorem manager_invariant_witness:
  "\<exists>m0. NewManager None (\<lambda>p. NotExist) True (\<lambda>p. Entry False) sample_cfg 0 ''A'' True = Inr m0
     \<and> distinct (keys_in_flight sample_lib (mgr_step sample_lib m0 (SubmitEvent 5 sample_command)))"
proof -
  let ?r = "NewManager None (\<lambda>p. NotExist) True (\<lambda>p. Entry False) sample_cfg 0 ''A'' True"
  have "case ?r of Inl _ \<Rightarrow> False | Inr _ \<Rightarrow> True" by code_simp
  then obtain m0 where r: "?r = Inr m0" by (auto split: sum.splits)
  have "mgr_step sample_lib m0 (SubmitEvent 5 sample_command)
      = foldl (mgr_step sample_lib) m0 [SubmitEvent 5 sample_command]" by simp
  from manager_invariant [OF r this] r show ?thesis by blast
qed

theorem duplicate_starts_nothing_witness:
  "\<exists>ev. Submit sample_lib 6 sample_command (Submit sample_lib 5 sample_command sample_manager)
        = mgr_send ev (Submit sample_lib 5 sample_command sample_manager)"
proof -
  let ?m = "Submit sample_lib 5 sample_command sample_manager"
  have o: "\<not> mgr_closed ?m" by code_simp
  have v: "validate (lib_uuid_ok sample_lib) (lib_parse sample_lib) 6 (mgr_cfg ?m) sample_command = None" by code_simp
  have "commandAttemptKey sample_lib sample_command \<in> set (keys_in_flight sample_lib ?m)" by code_simp
  then have k: "commandAttemptKey sample_lib sample_command
      \<in> set (keys_in_flight sample_lib ?m) \<union> dom (mgr_completed ?m)" by blast
  from duplicate_starts_nothing [OF sample_submitted o v k] show ?thesis by blast
qed

theorem closed_manager_drains_witness:
  "\<exists>e. worker_event e \<and> mgr_step sample_lib (Close (Submit sample_lib 5 sample_command sample_manager)) e
       \<noteq> Close (Submit sample_lib 5 sample_command sample_manager)"
proof -
  let ?m = "Close (Submit sample_lib 5 sample_command sample_manager)"
  have i: "mgr_inv sample_lib ?m" by (rule Close_inv [OF sample_submitted])
  have c: "mgr_closed ?m" by (simp add: Close_def)
  have x: "0 < cfg_max_concurrent (mgr_cfg ?m)" by code_simp
  have "0 < work_left ?m" by code_simp
  with closed_manager_drains [OF i c x] show ?thesis by blast
qed

end
