(* ===== verification/InstalledApps.thy ===== *)
theory InstalledApps
  imports Prelude Encoding "HOL-Library.Char_ord" "HOL-Library.List_Lexorder" "HOL-Library.Product_Lexorder"
begin

text \<open>
  The application inventory: \<^verbatim>\<open>installedapps/collector.go\<close> and the registry walk of
  \<^verbatim>\<open>installedapps/collector_windows.go\<close>.

  The registry is what the walk reads: the entries of each view in order, with what opening each
  of them gives, and the moments at which the context is found cancelled.  The JSON encoder, the
  Unicode lower-casing and the UTF-16 decoder are arguments.
\<close>

section \<open>Runes\<close>

text \<open>
  \<^verbatim>\<open>[]rune(s)\<close> and back: a string is cut into its UTF-8 encoded code points, and every byte that
  does not start one becomes the encoding of U+FFFD.  \<open>rune_len\<close> is the length of the code point
  at the front, 0 when there is none.
\<close>

definition rune_ranges :: "nat \<Rightarrow> (nat \<times> nat) list option" where
  "rune_ranges b =
     (if b < 128 then Some []
      else if b < 194 then None
      else if b \<le> 223 then Some [(128, 191)]
      else if b \<le> 239 then Some [(if b = 224 then 160 else 128, if b = 237 then 159 else 191), (128, 191)]
      else if b \<le> 244
      then Some [(if b = 240 then 144 else 128, if b = 244 then 143 else 191), (128, 191), (128, 191)]
      else None)"

fun in_ranges :: "(nat \<times> nat) list \<Rightarrow> string \<Rightarrow> bool" where
  "in_ranges [] cs = True"
| "in_ranges (r # rs) [] = False"
| "in_ranges ((lo, hi) # rs) (c # cs) = (lo \<le> byte_nat c \<and> byte_nat c \<le> hi \<and> in_ranges rs cs)"

definition rune_len :: "string \<Rightarrow> nat" where
  "rune_len s =
     (case s of [] \<Rightarrow> 0
      | c # cs \<Rightarrow> (case rune_ranges (byte_nat c) of
                     None \<Rightarrow> 0
                   | Some rs \<Rightarrow> if in_ranges rs cs then Suc (length rs) else 0))"

definition replacement :: string where
  "replacement = [CHR 0xEF, CHR 0xBF, CHR 0xBD]"

function runes :: "string \<Rightarrow> string list" where
  "runes [] = []"
| "runes (c # cs) =
     (let k = rune_len (c # cs)
      in if k = 0 then replacement # runes cs else take k (c # cs) # runes (drop k (c # cs)))"
  by pat_completeness auto
termination by (relation "measure length") auto

declare runes.simps(2) [simp del]

definition bounded :: "string \<Rightarrow> nat \<Rightarrow> string" where
  "bounded s n = concat (take n (runes (trim_space s)))"

section \<open>Entries\<close>

record App =
  app_name :: string
  app_version :: string
  app_publisher :: string
  app_date :: string
  app_size :: "nat option"

record Entry =
  en_key :: string
  en_app :: App

definition MaxApps :: nat where "MaxApps = 2000"
definition MaxEntries :: nat where "MaxEntries = 10000"
definition MaxPayload :: nat where "MaxPayload = 4 * 2 ^ 20"
definition MaxName :: nat where "MaxName = 512"
definition MaxVersion :: nat where "MaxVersion = 256"
definition MaxPublisher :: nat where "MaxPublisher = 512"
definition MaxDate :: nat where "MaxDate = 32"
definition MaxSizeKB :: nat where "MaxSizeKB = 2 ^ 32 - 1"

lemmas limit_defs = MaxApps_def MaxEntries_def MaxName_def MaxVersion_def MaxPublisher_def MaxDate_def MaxSizeKB_def

datatype collect_error = Cancelled | EntryLimit | AppLimit | ReadFailed

text \<open>What an entry becomes; the entry is skipped when its name is empty.\<close>

definition sanitize :: "App \<Rightarrow> App" where
  "sanitize a =
     \<lparr>app_name = bounded (app_name a) MaxName, app_version = bounded (app_version a) MaxVersion,
      app_publisher = bounded (app_publisher a) MaxPublisher, app_date = bounded (app_date a) MaxDate,
      app_size = (case app_size a of None \<Rightarrow> None | Some n \<Rightarrow> if n > MaxSizeKB then None else Some n)\<rparr>"

record collect_state =
  cs_apps :: "App list"
  cs_seen :: "string list"
  cs_entries :: nat

definition dedup_key :: "(string \<Rightarrow> string) \<Rightarrow> (App \<Rightarrow> string) \<Rightarrow> Entry \<Rightarrow> string" where
  "dedup_key lower marshal e = lower (en_key e) @ [CHR 0x00] @ marshal (sanitize (en_app e))"

text \<open>The callback of \<^verbatim>\<open>CollectWith\<close>; \<open>done\<close> is the state of the context.\<close>

definition collect_entry ::
    "(string \<Rightarrow> string) \<Rightarrow> (App \<Rightarrow> string) \<Rightarrow> bool \<Rightarrow> Entry \<Rightarrow> collect_state \<Rightarrow> collect_error + collect_state" where
  "collect_entry lower marshal cancelled e st =
     (if cancelled then Inl Cancelled
      else let st1 = st\<lparr>cs_entries := cs_entries st + 1\<rparr>; a = sanitize (en_app e)
           in if cs_entries st1 > MaxEntries then Inl EntryLimit
              else if app_name a = '''' then Inr st1
              else let key = dedup_key lower marshal e
                   in if key \<in> set (cs_seen st1) then Inr st1
                      else if length (cs_apps st1) \<ge> MaxApps then Inl AppLimit
                      else Inr (st1\<lparr>cs_seen := key # cs_seen st1, cs_apps := cs_apps st1 @ [a]\<rparr>))"

text \<open>
  A view of the registry: its root is missing, cannot be opened, or its subkeys are read one by
  one.  Each step of the enumeration finds the context cancelled, fails, or gives a name; then the
  context is asked again and the key is opened (\<open>None\<close> when that fails) and read.
\<close>

datatype subkey =
    EnumCancelled
  | EnumFailed
  | Subkey string bool "App option"

datatype view = RootMissing | RootFailed | Subkeys "(subkey \<times> bool) list"

definition empty_app :: App where
  "empty_app = \<lparr>app_name = '''', app_version = '''', app_publisher = '''', app_date = '''', app_size = None\<rparr>"

text \<open>\<^verbatim>\<open>readView\<close>; the flag beside a subkey is the context as the callback sees it.\<close>

fun read_subkeys ::
    "(bool \<Rightarrow> Entry \<Rightarrow> 's \<Rightarrow> collect_error + 's) \<Rightarrow> (subkey \<times> bool) list \<Rightarrow> 's \<Rightarrow> collect_error + 's" where
  "read_subkeys yield [] st = Inr st"
| "read_subkeys yield ((EnumCancelled, c) # ks) st = Inl Cancelled"
| "read_subkeys yield ((EnumFailed, c) # ks) st = Inl ReadFailed"
| "read_subkeys yield ((Subkey name cancelled app, c) # ks) st =
     (if cancelled then Inl Cancelled
      else bind_result
             (yield c \<lparr>en_key = name, en_app = (case app of None \<Rightarrow> empty_app | Some a \<Rightarrow> a)\<rparr> st)
             (read_subkeys yield ks))"

definition readView ::
    "(bool \<Rightarrow> Entry \<Rightarrow> 's \<Rightarrow> collect_error + 's) \<Rightarrow> view \<Rightarrow> 's \<Rightarrow> collect_error + 's" where
  "readView yield v st =
     (case v of RootMissing \<Rightarrow> Inr st | RootFailed \<Rightarrow> Inl ReadFailed | Subkeys ks \<Rightarrow> read_subkeys yield ks st)"

fun collect_views ::
    "(string \<Rightarrow> string) \<Rightarrow> (App \<Rightarrow> string) \<Rightarrow> (bool \<times> view) list \<Rightarrow> collect_state \<Rightarrow> collect_error + collect_state" where
  "collect_views lower marshal [] st = Inr st"
| "collect_views lower marshal ((cancelled, v) # vs) st =
     (if cancelled then Inl Cancelled
      else bind_result (readView (collect_entry lower marshal) v st) (collect_views lower marshal vs))"

text \<open>
  \<^verbatim>\<open>CollectWith\<close> on the 64-bit and the 32-bit view.  Elements that compare as equal in the sort
  have the same encoding, so that the order among them cannot be observed.
\<close>

definition CollectWith ::
    "(string \<Rightarrow> string) \<Rightarrow> (App \<Rightarrow> string) \<Rightarrow> bool \<times> view \<Rightarrow> bool \<times> view \<Rightarrow> bool \<Rightarrow> collect_error + App list" where
  "CollectWith lower marshal view64 view32 cancelled =
     bind_result (collect_views lower marshal [view64, view32] \<lparr>cs_apps = [], cs_seen = [], cs_entries = 0\<rparr>) (\<lambda>st.
       if cancelled then Inl Cancelled
       else Inr (sort_key (\<lambda>a. (lower (app_name a), marshal a)) (cs_apps st)))"

section \<open>Values of the registry\<close>

datatype value_kind = KindSZ | KindExpandSZ | KindOther

fun utf16_words :: "string \<Rightarrow> nat list" where
  "utf16_words (a # b # rest) = (byte_nat a + 256 * byte_nat b) # utf16_words rest"
| "utf16_words _ = []"

definition strip_zeros :: "nat list \<Rightarrow> nat list" where
  "strip_zeros ws = rev (dropWhile (\<lambda>w. w = 0) (rev ws))"

text \<open>
  \<^verbatim>\<open>readText\<close>: the value is missing, fails, or gives its kind and its bytes, of which the buffer
  of 8192 holds all (a longer value is an error of the call).
\<close>

definition readText :: "(nat list \<Rightarrow> string) \<Rightarrow> (string \<Rightarrow> (value_kind \<times> string) option) \<Rightarrow> string \<Rightarrow> string" where
  "readText decode value name =
     (case value name of
        None \<Rightarrow> ''''
      | Some (kind, bytes) \<Rightarrow>
          if length bytes > 8192 \<or> (kind \<noteq> KindSZ \<and> kind \<noteq> KindExpandSZ) \<or> length bytes mod 2 \<noteq> 0 then ''''
          else decode (strip_zeros (utf16_words bytes)))"

definition readApp ::
    "(nat list \<Rightarrow> string) \<Rightarrow> (string \<Rightarrow> (value_kind \<times> string) option) \<Rightarrow> (string \<Rightarrow> nat option) \<Rightarrow> App" where
  "readApp decode value integer =
     \<lparr>app_name = readText decode value ''DisplayName'', app_version = readText decode value ''DisplayVersion'',
      app_publisher = readText decode value ''Publisher'', app_date = readText decode value ''InstallDate'',
      app_size = (case integer ''EstimatedSize'' of None \<Rightarrow> None
                  | Some n \<Rightarrow> if n \<le> MaxSizeKB then Some n else None)\<rparr>"

section \<open>Truncation\<close>

lemma in_ranges_local: "in_ranges rs cs \<Longrightarrow> length rs \<le> length cs \<and> in_ranges rs (take (length rs) cs @ r)"
  by (induction rs cs rule: in_ranges.induct) auto

lemma rune_len_le: "rune_len s \<le> length s"
  by (auto simp: rune_len_def split: list.split option.split dest: in_ranges_local)

lemma rune_len_local: "0 < rune_len s \<Longrightarrow> rune_len (take (rune_len s) s @ r) = rune_len s"
  by (auto simp: rune_len_def split: list.split option.split if_splits
      dest: in_ranges_local in_ranges_local [of _ _ "[]", simplified])

text \<open>A text that is one encoded code point, whatever follows it.\<close>

definition one_rune :: "string \<Rightarrow> bool" where
  "one_rune w \<longleftrightarrow> w \<noteq> [] \<and> (\<forall>r. rune_len (w @ r) = length w)"

lemma runes_nonempty: "0 < rune_len s \<Longrightarrow> runes s = take (rune_len s) s # runes (drop (rune_len s) s)"
  by (cases s) (simp_all add: rune_len_def [of "[]"] runes.simps(2) Let_def)

lemma runes_one: "one_rune w \<Longrightarrow> runes (w @ r) = w # runes r"
  by (subst runes_nonempty) (simp_all add: one_rune_def)

lemma one_rune_replacement: "one_rune replacement"
  by (simp add: one_rune_def replacement_def rune_len_def rune_ranges_def)

lemma runes_all_one: "w \<in> set (runes s) \<Longrightarrow> one_rune w"
proof (induction s arbitrary: w rule: runes.induct)
  case 1
  then show ?case by simp
next
  case (2 c cs)
  let ?k = "rune_len (c # cs)"
  show ?case
  proof (cases "?k = 0")
    case True
    with 2 show ?thesis by (auto simp: runes.simps one_rune_replacement)
  next
    case False
    then have "one_rune (take ?k (c # cs))"
      using rune_len_local [of "c # cs"] rune_len_le [of "c # cs"] by (auto simp: one_rune_def)
    with 2 False show ?thesis by (auto simp: runes.simps Let_def)
  qed
qed

lemma runes_concat: "list_all one_rune ws \<Longrightarrow> runes (concat ws) = ws"
  by (induction ws) (simp_all add: runes_one)

lemma runes_bounded: "length (runes (bounded s n)) \<le> n"
proof -
  have "list_all one_rune (take n (runes (trim_space s)))"
    unfolding list_all_iff using runes_all_one by (meson in_set_takeD)
  then show ?thesis by (simp add: bounded_def runes_concat)
qed

section \<open>The inventory\<close>

fun yielded :: "subkey \<times> bool \<Rightarrow> Entry list" where
  "yielded (Subkey name cancelled app, c) =
     [\<lparr>en_key = name, en_app = (case app of None \<Rightarrow> empty_app | Some a \<Rightarrow> a)\<rparr>]"
| "yielded _ = []"

definition view_entries :: "view \<Rightarrow> Entry list" where
  "view_entries v = (case v of Subkeys ks \<Rightarrow> concat (map yielded ks) | _ \<Rightarrow> [])"

definition named :: "Entry \<Rightarrow> bool" where
  "named e \<longleftrightarrow> app_name (sanitize (en_app e)) \<noteq> ''''"

text \<open>The state after the entries \<open>es\<close>.\<close>

definition collect_inv :: "(string \<Rightarrow> string) \<Rightarrow> (App \<Rightarrow> string) \<Rightarrow> Entry list \<Rightarrow> collect_state \<Rightarrow> bool" where
  "collect_inv lower marshal es st \<longleftrightarrow>
     cs_entries st = length es \<and> length es \<le> MaxEntries \<and> length (cs_apps st) \<le> MaxApps
     \<and> (\<forall>e \<in> set es. named e \<longrightarrow> dedup_key lower marshal e \<in> set (cs_seen st))
     \<and> (\<forall>a \<in> set (cs_apps st). \<exists>e \<in> set es. named e \<and> a = sanitize (en_app e))
     \<and> (\<forall>k \<in> set (cs_seen st). \<exists>e \<in> set es. named e \<and> k = dedup_key lower marshal e \<and> sanitize (en_app e) \<in> set (cs_apps st))"

lemma collect_entry_inv:
  assumes "collect_inv lower marshal es st" and "collect_entry lower marshal c e st = Inr st'"
  shows "collect_inv lower marshal (es @ [e]) st'"
proof (cases "named e \<and> dedup_key lower marshal e \<notin> set (cs_seen st)")
  case True
  with assms show ?thesis
    by (auto simp: collect_inv_def collect_entry_def Let_def named_def split: if_splits) blast
next
  case False
  with assms show ?thesis
    by (auto simp: collect_inv_def collect_entry_def Let_def named_def split: if_splits)
qed

lemma read_subkeys_inv:
  assumes "collect_inv lower marshal es st"
    and "read_subkeys (collect_entry lower marshal) ks st = Inr st'"
  shows "collect_inv lower marshal (es @ concat (map yielded ks)) st'"
  using assms
proof (induction "collect_entry lower marshal" ks st arbitrary: es rule: read_subkeys.induct)
  case (4 name cancelled app c ks st)
  then obtain st1 where "collect_entry lower marshal c
      \<lparr>en_key = name, en_app = (case app of None \<Rightarrow> empty_app | Some a \<Rightarrow> a)\<rparr> st = Inr st1"
    and "read_subkeys (collect_entry lower marshal) ks st1 = Inr st'" and "\<not> cancelled"
    by (auto simp: bind_result_Inr split: if_splits)
  with 4 collect_entry_inv [OF 4(2)] show ?case by fastforce
qed simp_all

lemma readView_inv:
  assumes "collect_inv lower marshal es st" and "readView (collect_entry lower marshal) v st = Inr st'"
  shows "collect_inv lower marshal (es @ view_entries v) st'"
  using assms by (cases v) (auto simp: readView_def view_entries_def read_subkeys_inv)

lemma CollectWith_inv:
  assumes "CollectWith lower marshal (c1, v1) (c2, v2) c = Inr apps"
  shows "\<exists>st. collect_inv lower marshal (view_entries v1 @ view_entries v2) st
    \<and> apps = sort_key (\<lambda>a. (lower (app_name a), marshal a)) (cs_apps st)"
proof -
  let ?s0 = "\<lparr>cs_apps = [], cs_seen = [], cs_entries = 0\<rparr>"
  have i0: "collect_inv lower marshal [] ?s0" by (simp add: collect_inv_def)
  from assms obtain s1 s2 where "readView (collect_entry lower marshal) v1 ?s0 = Inr s1"
    and "readView (collect_entry lower marshal) v2 s1 = Inr s2"
    and a: "apps = sort_key (\<lambda>a. (lower (app_name a), marshal a)) (cs_apps s2)"
    by (auto simp: CollectWith_def bind_result_Inr split: if_splits)
  with readView_inv [OF readView_inv [OF i0]] have "collect_inv lower marshal (view_entries v1 @ view_entries v2) s2"
    by fastforce
  with a show ?thesis by blast
qed

lemma dedup_marshal:
  assumes "\<forall>a. CHR 0x00 \<notin> set (marshal a)" and "dedup_key lower marshal e = dedup_key lower marshal e'"
  shows "marshal (sanitize (en_app e)) = marshal (sanitize (en_app e'))"
proof -
  have "takeWhile (\<lambda>c. c \<noteq> CHR 0x00) (rev (dedup_key lower marshal e)) = rev (marshal (sanitize (en_app e)))" for e
    unfolding dedup_key_def using assms(1) by (simp, subst takeWhile_append2) auto
  with assms(2) show ?thesis by (metis rev_rev_ident)
qed

definition app_bounds :: "App \<Rightarrow> bool" where
  "app_bounds a \<longleftrightarrow> app_name a \<noteq> '''' \<and> length (runes (app_name a)) \<le> 512 \<and> length (runes (app_version a)) \<le> 256
     \<and> length (runes (app_publisher a)) \<le> 512 \<and> length (runes (app_date a)) \<le> 32
     \<and> (case app_size a of None \<Rightarrow> True | Some n \<Rightarrow> n < 2 ^ 32)"

lemma sanitize_bounds: "named e \<Longrightarrow> app_bounds (sanitize (en_app e))"
  using runes_bounded
  by (auto simp: app_bounds_def sanitize_def named_def limit_defs split: option.splits)

text \<open>
  C35. A successful inventory is complete and bounded: at most 10000 entries were read, the
  result has at most 2000 elements in the order of their lower-cased names and encodings, every
  element is a cleaned entry within the limits of its fields, and every entry with a name is
  there, duplicates with an equal encoding merged.
\<close>

theorem inventory_complete:
  assumes "CollectWith lower marshal (c1, v1) (c2, v2) c = Inr apps"
    and "\<forall>a. CHR 0x00 \<notin> set (marshal a)"
  shows "length (view_entries v1 @ view_entries v2) \<le> 10000 \<and> length apps \<le> 2000
    \<and> sorted (map (\<lambda>a. (lower (app_name a), marshal a)) apps)
    \<and> (\<forall>a \<in> set apps. app_bounds a \<and> (\<exists>e \<in> set (view_entries v1 @ view_entries v2). a = sanitize (en_app e)))
    \<and> (\<forall>e \<in> set (view_entries v1 @ view_entries v2). named e \<longrightarrow>
         (\<exists>a \<in> set apps. marshal a = marshal (sanitize (en_app e))))"
proof -
  let ?es = "view_entries v1 @ view_entries v2"
  obtain st where i: "collect_inv lower marshal ?es st"
    and a: "apps = sort_key (\<lambda>a. (lower (app_name a), marshal a)) (cs_apps st)"
    using CollectWith_inv [OF assms(1)] by blast
  have s: "set apps = set (cs_apps st)" "length apps = length (cs_apps st)" by (simp_all add: a)
  have "\<exists>a \<in> set apps. marshal a = marshal (sanitize (en_app e))" if e: "e \<in> set ?es" "named e" for e
  proof -
    have "dedup_key lower marshal e \<in> set (cs_seen st)" using i e unfolding collect_inv_def by blast
    then obtain e' where "e' \<in> set ?es" "dedup_key lower marshal e = dedup_key lower marshal e'"
      "sanitize (en_app e') \<in> set (cs_apps st)"
      using i unfolding collect_inv_def by meson
    with dedup_marshal [OF assms(2)] s show ?thesis by metis
  qed
  moreover have "app_bounds a \<and> (\<exists>e \<in> set ?es. a = sanitize (en_app e))" if "a \<in> set apps" for a
    using i that s sanitize_bounds unfolding collect_inv_def by fastforce
  moreover have "length ?es \<le> 10000" "length apps \<le> 2000"
    using i s unfolding collect_inv_def limit_defs by simp_all
  moreover have "sorted (map (\<lambda>a. (lower (app_name a), marshal a)) apps)" by (simp add: a)
  ultimately show ?thesis by blast
qed

definition sample_view :: view where
  "sample_view = Subkeys [(Subkey ''K'' False (Some (empty_app\<lparr>app_name := ''b''\<rparr>)), False),
                          (Subkey ''L'' False (Some (empty_app\<lparr>app_name := ''a''\<rparr>)), False)]"

lemma sample_bounded:
  "bounded ''a'' (Suc n) = ''a''" "bounded ''b'' (Suc n) = ''b''" "bounded [] n = []"
proof -
  have "runes (trim_space ''a'') = [''a'']" "runes (trim_space ''b'') = [''b'']" "trim_space [] = []"
    by code_simp+
  then show "bounded ''a'' (Suc n) = ''a''" "bounded ''b'' (Suc n) = ''b''" "bounded [] n = []"
    by (simp_all add: bounded_def)
qed

lemma hex_no_nul: "CHR 0x00 \<notin> set (hex_encode s)"
proof -
  have "hex_val (CHR 0x00) = None" by code_simp
  then have "hex_char n \<noteq> CHR 0x00" if "n < 16" for n using hex_val_char [OF that] by force
  then have "hex_char n \<noteq> CHR 0x00" if "n < 16" for n using that by blast
  moreover have "byte_nat c div 16 < 16" for c :: char using byte_nat_less [of c] by linarith
  ultimately show ?thesis by (induction s) (auto simp: eq_commute [of "CHR 0x00"])
qed

theorem inventory_complete_witness:
  "CollectWith id (hex_encode \<circ> app_name) (False, sample_view) (False, RootMissing) False
     = Inr [empty_app\<lparr>app_name := ''a''\<rparr>, empty_app\<lparr>app_name := ''b''\<rparr>]
   \<and> app_bounds (empty_app\<lparr>app_name := ''a''\<rparr>)"
proof -
  have h: "hex_encode ''a'' = ''61''" "hex_encode ''b'' = ''62''" by code_simp+
  have le: "\<not> ''b'' \<le> ''a''" "''a'' \<le> ''b''" by code_simp+
  have r: "CollectWith id (hex_encode \<circ> app_name) (False, sample_view) (False, RootMissing) False
     = Inr [empty_app\<lparr>app_name := ''a''\<rparr>, empty_app\<lparr>app_name := ''b''\<rparr>]"
    by (simp add: CollectWith_def readView_def sample_view_def collect_entry_def sanitize_def empty_app_def
        dedup_key_def limit_defs sample_bounded sample_bounded [of 511, simplified] h Let_def
        le)
  have "\<forall>a. CHR 0x00 \<notin> set ((hex_encode \<circ> app_name) a)" by (simp add: hex_no_nul)
  from inventory_complete [OF r this] r show ?thesis by simp
qed

end
