(* ===== verification/AppsWorker.thy ===== *)
theory AppsWorker
  imports InstalledApps
begin

text \<open>
  The inventory worker of a connection, \<^verbatim>\<open>client/installed_apps.go\<close>: a bounded queue of jobs, a
  bounded queue of results and the set of pending request identifiers, shared by the reader
  (\<^verbatim>\<open>submit\<close>), one collector and one writer.  Each event is one step of one of the three between
  two channel operations or critical sections.
\<close>

section \<open>State\<close>

record apps_command =
  ac_request_id :: string
  ac_deadline :: int

record apps_result =
  ar_type :: string
  ar_action :: string
  ar_request_id :: string
  ar_success :: bool
  ar_apps :: "App list option"
  ar_error :: string

datatype collector = CollectorIdle | Collecting apps_command | Offering apps_result | CollectorGone
datatype apps_writer = WriterIdle | Writing apps_result | Written apps_result | WriterGone

record apps_worker =
  aw_jobs :: "apps_command chan"
  aw_results :: "apps_result chan"
  aw_pending :: "string set"
  aw_collector :: collector
  aw_writer :: apps_writer
  aw_sent :: "apps_result list"

definition queue_size :: nat where "queue_size = 4"
definition result_queue_size :: nat where "result_queue_size = 8"
definition collection_timeout :: int where "collection_timeout = 10000000000"

definition newInstalledAppsWorker :: apps_worker where
  "newInstalledAppsWorker =
     \<lparr>aw_jobs = make_chan queue_size, aw_results = make_chan result_queue_size, aw_pending = {},
      aw_collector = CollectorIdle, aw_writer = WriterIdle, aw_sent = []\<rparr>"

definition appsFailure :: "string \<Rightarrow> string \<Rightarrow> apps_result" where
  "appsFailure i reason =
     \<lparr>ar_type = ''installed_apps'', ar_action = ''result'', ar_request_id = i, ar_success = False,
      ar_apps = None, ar_error = reason\<rparr>"

section \<open>Steps\<close>

definition submit :: "int \<Rightarrow> string \<Rightarrow> apps_worker \<Rightarrow> apps_worker" where
  "submit now request w =
     (let c = \<lparr>ac_request_id = request, ac_deadline = now + collection_timeout\<rparr>
      in if request \<in> aw_pending w then w
         else case chan_try_send (aw_jobs w) c of
           Some q \<Rightarrow> w\<lparr>aw_jobs := q, aw_pending := insert request (aw_pending w)\<rparr>
         | None \<Rightarrow>
             (case chan_try_send (aw_results w) (appsFailure request ''collection busy'') of
                Some q \<Rightarrow> w\<lparr>aw_results := q\<rparr>
              | None \<Rightarrow> w))"

text \<open>The collector receives a job, unless the connection has ended.\<close>

definition collect_take :: "bool \<Rightarrow> apps_worker \<Rightarrow> apps_worker" where
  "collect_take cancelled w =
     (if aw_collector w \<noteq> CollectorIdle then w
      else if cancelled then w\<lparr>aw_collector := CollectorGone\<rparr>
      else case chan_try_recv (aw_jobs w) of
             None \<Rightarrow> w
           | Some (c, q) \<Rightarrow> w\<lparr>aw_jobs := q, aw_collector := Collecting c\<rparr>)"

text \<open>
  The result of one job: \<open>late1\<close> and \<open>late2\<close> say whether its deadline has passed (or the
  connection has ended) before and after the collection, \<open>apps\<close> is the inventory, and \<open>marshal\<close>
  gives the length of the encoding, \<open>None\<close> for an error.
\<close>

definition collect_result ::
    "(apps_result \<Rightarrow> nat option) \<Rightarrow> bool \<Rightarrow> App list option \<Rightarrow> bool \<Rightarrow> apps_command \<Rightarrow> apps_result" where
  "collect_result marshal late1 apps late2 c =
     (let r = appsFailure (ac_request_id c) ''collection failed''
      in if late1 then r
         else case apps of
           None \<Rightarrow> r
         | Some as \<Rightarrow>
             if late2 then r
             else let r1 = r\<lparr>ar_success := True, ar_error := '''', ar_apps := Some as\<rparr>
                  in (case marshal r1 of
                        None \<Rightarrow> appsFailure (ac_request_id c) ''inventory exceeds limit''
                      | Some n \<Rightarrow> if n > MaxPayload then appsFailure (ac_request_id c) ''inventory exceeds limit''
                                 else r1))"

definition collect_finish ::
    "(apps_result \<Rightarrow> nat option) \<Rightarrow> bool \<Rightarrow> App list option \<Rightarrow> bool \<Rightarrow> apps_worker \<Rightarrow> apps_worker" where
  "collect_finish marshal late1 apps late2 w =
     (case aw_collector w of
        Collecting c \<Rightarrow> w\<lparr>aw_collector := Offering (collect_result marshal late1 apps late2 c)\<rparr>
      | _ \<Rightarrow> w)"

definition collect_offer :: "bool \<Rightarrow> apps_worker \<Rightarrow> apps_worker" where
  "collect_offer cancelled w =
     (case aw_collector w of
        Offering r \<Rightarrow>
          if cancelled then w\<lparr>aw_collector := CollectorGone\<rparr>
          else (case chan_try_send (aw_results w) r of
                  Some q \<Rightarrow> w\<lparr>aw_results := q, aw_collector := CollectorIdle\<rparr>
                | None \<Rightarrow> w)
      | _ \<Rightarrow> w)"

text \<open>The writer receives a result, sends it, and only then forgets the identifier.\<close>

definition write_take :: "bool \<Rightarrow> apps_worker \<Rightarrow> apps_worker" where
  "write_take cancelled w =
     (if aw_writer w \<noteq> WriterIdle then w
      else if cancelled then w\<lparr>aw_writer := WriterGone\<rparr>
      else case chan_try_recv (aw_results w) of
             None \<Rightarrow> w
           | Some (r, q) \<Rightarrow> w\<lparr>aw_results := q, aw_writer := Writing r\<rparr>)"

definition write_send :: "apps_worker \<Rightarrow> apps_worker" where
  "write_send w =
     (case aw_writer w of
        Writing r \<Rightarrow> w\<lparr>aw_writer := Written r, aw_sent := aw_sent w @ [r]\<rparr>
      | _ \<Rightarrow> w)"

definition write_forget :: "apps_worker \<Rightarrow> apps_worker" where
  "write_forget w =
     (case aw_writer w of
        Written r \<Rightarrow> w\<lparr>aw_writer := WriterIdle, aw_pending := aw_pending w - {ar_request_id r}\<rparr>
      | _ \<Rightarrow> w)"

datatype apps_event =
    AppsSubmitEvent int string
  | CollectTake bool
  | CollectFinish bool "App list option" bool
  | CollectOffer bool
  | WriteTake bool
  | WriteSend
  | WriteForget

fun apps_step :: "(apps_result \<Rightarrow> nat option) \<Rightarrow> apps_worker \<Rightarrow> apps_event \<Rightarrow> apps_worker" where
  "apps_step marshal w (AppsSubmitEvent now request) = submit now request w"
| "apps_step marshal w (CollectTake cancelled) = collect_take cancelled w"
| "apps_step marshal w (CollectFinish late1 apps late2) = collect_finish marshal late1 apps late2 w"
| "apps_step marshal w (CollectOffer cancelled) = collect_offer cancelled w"
| "apps_step marshal w (WriteTake cancelled) = write_take cancelled w"
| "apps_step marshal w WriteSend = write_send w"
| "apps_step marshal w WriteForget = write_forget w"

section \<open>Bounds\<close>

definition collector_ids :: "collector \<Rightarrow> string list" where
  "collector_ids c = (case c of Collecting j \<Rightarrow> [ac_request_id j] | Offering r \<Rightarrow> [ar_request_id r] | _ \<Rightarrow> [])"

definition writer_ids :: "apps_writer \<Rightarrow> string list" where
  "writer_ids x = (case x of Writing r \<Rightarrow> [ar_request_id r] | Written r \<Rightarrow> [ar_request_id r] | _ \<Rightarrow> [])"

text \<open>The identifiers of everything between acceptance and the end of the write.\<close>

definition under_way :: "apps_worker \<Rightarrow> string list" where
  "under_way w = map ac_request_id (chan_buf (aw_jobs w)) @ collector_ids (aw_collector w)
     @ map ar_request_id (chan_buf (aw_results w)) @ writer_ids (aw_writer w)"

definition result_ok :: "(apps_result \<Rightarrow> nat option) \<Rightarrow> apps_result \<Rightarrow> bool" where
  "result_ok marshal r \<longleftrightarrow>
     (if ar_success r then \<exists>n. marshal r = Some n \<and> n \<le> MaxPayload else ar_apps r = None)"

definition results_of :: "apps_worker \<Rightarrow> apps_result list" where
  "results_of w = (case aw_collector w of Offering r \<Rightarrow> [r] | _ \<Rightarrow> []) @ chan_buf (aw_results w)
     @ (case aw_writer w of Writing r \<Rightarrow> [r] | Written r \<Rightarrow> [r] | _ \<Rightarrow> []) @ aw_sent w"

text \<open>
  \<open>alive\<close>: an accepted identifier is remembered only while its job or result is under way; after
  the end of the connection the collector may drop its result, and nothing is asked any more.
\<close>

definition apps_inv :: "(apps_result \<Rightarrow> nat option) \<Rightarrow> apps_worker \<Rightarrow> bool" where
  "apps_inv marshal w \<longleftrightarrow>
     chan_ok (aw_jobs w) \<and> chan_cap (aw_jobs w) = queue_size
     \<and> chan_ok (aw_results w) \<and> chan_cap (aw_results w) = result_queue_size
     \<and> (aw_collector w \<noteq> CollectorGone \<longrightarrow> aw_pending w \<subseteq> set (under_way w))
     \<and> list_all (result_ok marshal) (results_of w)"

lemmas apps_defs [inv_defs] = apps_inv_def under_way_def collector_ids_def writer_ids_def results_of_def

lemma result_ok_failure [simp]: "result_ok marshal (appsFailure i reason)"
  by (simp add: result_ok_def appsFailure_def)

lemma failure_id [simp]: "ar_request_id (appsFailure i reason) = i"
  by (simp add: appsFailure_def)

lemma collect_result_ok [simp]: "result_ok marshal (collect_result marshal l1 apps l2 c)"
  by (auto simp: collect_result_def Let_def split: option.split) (simp add: result_ok_def)

lemma collect_result_id [simp]: "ar_request_id (collect_result marshal l1 apps l2 c) = ac_request_id c"
  by (auto simp: collect_result_def Let_def appsFailure_def split: option.split)

lemma apps_init: "apps_inv marshal newInstalledAppsWorker"
  by (simp add: newInstalledAppsWorker_def inv_defs)

lemma submit_inv: "apps_inv marshal w \<Longrightarrow> apps_inv marshal (submit now request w)"
  by (auto simp: submit_def Let_def inv_defs chan_send_ok split: option.split collector.splits apps_writer.splits
      dest!: ch.send_some)

lemma collect_take_inv: "apps_inv marshal w \<Longrightarrow> apps_inv marshal (collect_take c w)"
  by (auto simp: collect_take_def inv_defs split: option.split collector.splits apps_writer.splits
      dest!: ch.recv_some simp: chan_ok_def)

lemma collect_finish_inv: "apps_inv marshal w \<Longrightarrow> apps_inv marshal (collect_finish marshal l1 apps l2 w)"
  by (auto simp: collect_finish_def inv_defs split: collector.splits apps_writer.splits)

lemma collect_offer_inv: "apps_inv marshal w \<Longrightarrow> apps_inv marshal (collect_offer c w)"
  by (auto simp: collect_offer_def inv_defs chan_send_ok split: option.split collector.splits apps_writer.splits
      dest!: ch.send_some)

lemma write_take_inv: "apps_inv marshal w \<Longrightarrow> apps_inv marshal (write_take c w)"
  by (auto simp: write_take_def inv_defs split: option.split collector.splits apps_writer.splits
      dest!: ch.recv_some simp: chan_ok_def)

lemma write_send_inv: "apps_inv marshal w \<Longrightarrow> apps_inv marshal (write_send w)"
  by (auto simp: write_send_def inv_defs split: collector.splits apps_writer.splits)

lemma write_forget_inv: "apps_inv marshal w \<Longrightarrow> apps_inv marshal (write_forget w)"
  by (auto simp: write_forget_def inv_defs split: collector.splits apps_writer.splits)

lemma apps_step_inv: "apps_inv marshal w \<Longrightarrow> apps_inv marshal (apps_step marshal w e)"
  by (cases e)
     (simp_all add: submit_inv collect_take_inv collect_finish_inv collect_offer_inv write_take_inv
        write_send_inv write_forget_inv)

interpretation aw: event_machine "\<lambda>w. w = newInstalledAppsWorker" "apps_step marshal" "apps_inv marshal"
  by unfold_locales (simp_all add: apps_init apps_step_inv)

text \<open>
  C36. Whatever a peer submits and however the three goroutines interleave, at most 4 jobs and 8
  results are queued, at most 14 identifiers are tracked while the collector lives, and every
  successful result that is sent is an inventory whose encoding fits the limit; any other result
  carries no inventory.
\<close>

theorem worker_bounds:
  "length (chan_buf (aw_jobs (foldl (apps_step marshal) newInstalledAppsWorker es))) \<le> 4
   \<and> length (chan_buf (aw_results (foldl (apps_step marshal) newInstalledAppsWorker es))) \<le> 8
   \<and> (aw_collector (foldl (apps_step marshal) newInstalledAppsWorker es) = CollectorGone
      \<or> card (aw_pending (foldl (apps_step marshal) newInstalledAppsWorker es)) \<le> 14)
   \<and> list_all (result_ok marshal) (aw_sent (foldl (apps_step marshal) newInstalledAppsWorker es))"
proof -
  define w where "w = foldl (apps_step marshal) newInstalledAppsWorker es"
  have i: "apps_inv marshal w" unfolding w_def by (rule aw.run_inv) simp
  then have b: "length (chan_buf (aw_jobs w)) \<le> 4" "length (chan_buf (aw_results w)) \<le> 8"
    "list_all (result_ok marshal) (aw_sent w)"
    by (simp_all add: apps_inv_def chan_ok_def queue_size_def result_queue_size_def results_of_def)
  have "length (under_way w) \<le> 14"
    using b by (auto simp: under_way_def collector_ids_def writer_ids_def split: collector.split apps_writer.split)
  then have "card (set (under_way w)) \<le> 14" using card_length le_trans by blast
  then have "card (aw_pending w) \<le> 14" if "aw_collector w \<noteq> CollectorGone"
    using i that unfolding apps_inv_def by (meson List.finite_set card_mono le_trans)
  with b show ?thesis unfolding w_def [symmetric] by blast
qed

text \<open>
  The duplicate tracking has a gap: the answer "collection busy" to a request that was turned
  away forgets its identifier when it is written, even when the same request has been accepted in
  the meantime.  In this run the peer repeats one request while four others wait; it is then
  queued twice at the same time.
\<close>

definition busy_run :: "apps_event list" where
  "busy_run =
     map (AppsSubmitEvent 0) [''a'', ''b'', ''c'', ''d'', ''x''] @ [CollectTake False, AppsSubmitEvent 1 ''x'']
     @ [WriteTake False, WriteSend, WriteForget, CollectFinish False None False, CollectOffer False,
        CollectTake False, AppsSubmitEvent 2 ''x'']"

theorem busy_reply_breaks_deduplication:
  "map ac_request_id (chan_buf (aw_jobs (foldl (apps_step marshal) newInstalledAppsWorker busy_run)))
   = [''c'', ''d'', ''x'', ''x'']"
  by (simp add: busy_run_def newInstalledAppsWorker_def submit_def collect_take_def collect_finish_def
      collect_offer_def write_take_def write_send_def write_forget_def chan_try_send_def chan_try_recv_def
      make_chan_def queue_size_def result_queue_size_def appsFailure_def Let_def)

end
