(* ===== verification/Antivirus.thy ===== *)
theory Antivirus
  imports FilePath Messages "HOL-Library.Char_ord" "HOL-Library.List_Lexorder"
begin

text \<open>
  Virus scans: \<^verbatim>\<open>antivirus/scan.go\<close> (validation and the manager that runs one scan at a time)
  and \<^verbatim>\<open>antivirus/defender_windows.go\<close> (the command line and the bounded capture of output).

  The manager is a machine driven by events: calls of \<^verbatim>\<open>Submit\<close>, \<^verbatim>\<open>Reject\<close> and \<^verbatim>\<open>Close\<close>, and the
  steps of the goroutine of an accepted scan.  Times are texts that the events carry.
\<close>

section \<open>Data\<close>

record Report =
  rp_exit_code :: int
  rp_output :: string
  rp_truncated :: bool

record ScanResult =
  sr_type :: string
  sr_request_id :: string
  sr_scan_type :: string
  sr_status :: string
  sr_started_at :: string
  sr_finished_at :: string
  sr_report :: "Report option"
  sr_error :: string

datatype scan_invalid = BadRequestID | PathNotSupported | BadCustomPath | CustomPathStat | BadScanType

fun scan_invalid_text :: "scan_invalid \<Rightarrow> string" where
  "scan_invalid_text BadRequestID = ''request_id must contain 1-128 bytes''"
| "scan_invalid_text PathNotSupported = ''path is only supported for custom scans''"
| "scan_invalid_text BadCustomPath =
     ''custom scan requires an absolute file or directory path without wildcards''"
| "scan_invalid_text CustomPathStat = ''custom path: ''"
| "scan_invalid_text BadScanType = ''scan_type must be quick, custom or full''"

text \<open>
  \<open>is_abs\<close> is \<^verbatim>\<open>filepath.IsAbs\<close> of the platform and \<open>stat\<close> is \<^verbatim>\<open>os.Stat\<close>: the text of its
  error, if any.
\<close>

definition ScanValidate :: "(string \<Rightarrow> bool) \<Rightarrow> (string \<Rightarrow> string option) \<Rightarrow> ScanCommand \<Rightarrow> string option" where
  "ScanValidate is_abs stat c =
     (if trim_space (scan_request_id c) = '''' \<or> length (scan_request_id c) > 128
      then Some (scan_invalid_text BadRequestID)
      else if scan_type c = ''quick'' \<or> scan_type c = ''full''
      then (if scan_path c \<noteq> '''' then Some (scan_invalid_text PathNotSupported) else None)
      else if scan_type c = ''custom''
      then (if \<not> is_abs (scan_path c) \<or> contains_any (scan_path c) [CHR 0x00, CHR ''*'', CHR ''?'', CHR 0x22]
            then Some (scan_invalid_text BadCustomPath)
            else map_option (\<lambda>e. scan_invalid_text CustomPathStat @ e) (stat (scan_path c)))
      else Some (scan_invalid_text BadScanType))"

section \<open>The manager\<close>

datatype scan_phase = Accepted | Scanning | Reported

record scan_thread =
  th_command :: ScanCommand
  th_phase :: scan_phase
  th_started :: string
  th_cancelled :: bool

text \<open>\<open>sm_accepted\<close> lists the commands for which a goroutine was started, in order.\<close>

record scan_manager =
  sm_closed :: bool
  sm_busy :: bool
  sm_threads :: "scan_thread list"
  sm_emitted :: "ScanResult list"
  sm_accepted :: "ScanCommand list"

definition new_scan_manager :: scan_manager where
  "new_scan_manager =
     \<lparr>sm_closed = False, sm_busy = False, sm_threads = [], sm_emitted = [], sm_accepted = []\<rparr>"

definition emit :: "ScanResult \<Rightarrow> scan_manager \<Rightarrow> scan_manager" where
  "emit r m = m\<lparr>sm_emitted := sm_emitted m @ [r]\<rparr>"

definition rejected :: "ScanCommand \<Rightarrow> string \<Rightarrow> string \<Rightarrow> ScanResult" where
  "rejected c reason now =
     \<lparr>sr_type = ''virus_scan_result'', sr_request_id = scan_request_id c, sr_scan_type = scan_type c,
      sr_status = ''rejected'', sr_started_at = '''', sr_finished_at = now, sr_report = None, sr_error = reason\<rparr>"

definition ScanManagerReject :: "string \<Rightarrow> ScanCommand \<Rightarrow> string \<Rightarrow> scan_manager \<Rightarrow> scan_manager" where
  "ScanManagerReject now c reason m = emit (rejected c reason now) m"

definition ScanManagerSubmit ::
    "(string \<Rightarrow> bool) \<Rightarrow> (string \<Rightarrow> string option) \<Rightarrow> string \<Rightarrow> ScanCommand \<Rightarrow> scan_manager \<Rightarrow> scan_manager" where
  "ScanManagerSubmit is_abs stat now c m =
     (case ScanValidate is_abs stat c of
        Some reason \<Rightarrow> ScanManagerReject now c reason m
      | None \<Rightarrow>
          if sm_closed m then m
          else if sm_busy m then ScanManagerReject now c ''another scan is running'' m
          else m\<lparr>sm_busy := True,
                 sm_threads := sm_threads m @
                   [\<lparr>th_command = c, th_phase = Accepted, th_started = '''', th_cancelled = False\<rparr>],
                 sm_accepted := sm_accepted m @ [c]\<rparr>)"

text \<open>The first message of the goroutine.\<close>

definition running_result :: "ScanCommand \<Rightarrow> string \<Rightarrow> ScanResult" where
  "running_result c now =
     \<lparr>sr_type = ''virus_scan_status'', sr_request_id = scan_request_id c, sr_scan_type = scan_type c,
      sr_status = ''running'', sr_started_at = now, sr_finished_at = '''', sr_report = None, sr_error = ''''\<rparr>"

text \<open>
  Its last one; \<open>err\<close> is the error of the scanner and \<open>cancelled\<close> the state of the context.
\<close>

definition final_result ::
    "ScanCommand \<Rightarrow> string \<Rightarrow> string \<Rightarrow> Report \<Rightarrow> string option \<Rightarrow> bool \<Rightarrow> ScanResult" where
  "final_result c started now report err cancelled =
     (let r = (running_result c started)\<lparr>sr_type := ''virus_scan_result'', sr_status := ''completed'',
                sr_report := Some report, sr_finished_at := now\<rparr>;
          r = (case err of None \<Rightarrow> r | Some e \<Rightarrow> r\<lparr>sr_status := ''failed'', sr_error := e\<rparr>)
      in if cancelled then r\<lparr>sr_status := ''cancelled'', sr_error := ''context canceled''\<rparr> else r)"

text \<open>
  One step of goroutine \<open>i\<close>: announce the scan, report its outcome, or clear \<^verbatim>\<open>busy\<close> and end.
\<close>

definition scan_step ::
    "nat \<Rightarrow> string \<Rightarrow> Report \<Rightarrow> string option \<Rightarrow> scan_manager \<Rightarrow> scan_manager" where
  "scan_step i now report err m =
     (if i < length (sm_threads m)
      then let t = sm_threads m ! i; c = th_command t
           in case th_phase t of
                Accepted \<Rightarrow>
                  emit (running_result c now)
                    (m\<lparr>sm_threads := (sm_threads m)[i := t\<lparr>th_phase := Scanning, th_started := now\<rparr>]\<rparr>)
              | Scanning \<Rightarrow>
                  emit (final_result c (th_started t) now report err (th_cancelled t))
                    (m\<lparr>sm_threads := (sm_threads m)[i := t\<lparr>th_phase := Reported\<rparr>]\<rparr>)
              | Reported \<Rightarrow>
                  m\<lparr>sm_busy := False, sm_threads := take i (sm_threads m) @ drop (i + 1) (sm_threads m)\<rparr>
      else m)"

text \<open>The end of a connection cancels its scans; \<^verbatim>\<open>Close\<close> cancels the scan accepted last.\<close>

definition cancel_threads :: "scan_manager \<Rightarrow> scan_manager" where
  "cancel_threads m = m\<lparr>sm_threads := map (\<lambda>t. t\<lparr>th_cancelled := True\<rparr>) (sm_threads m)\<rparr>"

definition ScanManagerClose :: "scan_manager \<Rightarrow> scan_manager" where
  "ScanManagerClose m =
     m\<lparr>sm_closed := True,
       sm_threads := (case sm_threads m of [] \<Rightarrow> []
                      | ts \<Rightarrow> butlast ts @ [(last ts)\<lparr>th_cancelled := True\<rparr>])\<rparr>"

datatype scan_event =
    ScanSubmitEvent "string \<Rightarrow> bool" "string \<Rightarrow> string option" string ScanCommand
  | ScanRejectEvent string ScanCommand string
  | ScanStep nat string Report "string option"
  | ScanContextEnd
  | ScanCloseEvent

fun scan_machine :: "scan_manager \<Rightarrow> scan_event \<Rightarrow> scan_manager" where
  "scan_machine m (ScanSubmitEvent is_abs stat now c) = ScanManagerSubmit is_abs stat now c m"
| "scan_machine m (ScanRejectEvent now c reason) = ScanManagerReject now c reason m"
| "scan_machine m (ScanStep i now report err) = scan_step i now report err m"
| "scan_machine m ScanContextEnd = cancel_threads m"
| "scan_machine m ScanCloseEvent = ScanManagerClose m"

section \<open>One scan at a time, one result per scan\<close>

text \<open>The request identifiers of the final results of scans that were started.\<close>

definition is_final :: "ScanResult \<Rightarrow> bool" where
  "is_final r \<longleftrightarrow> sr_type r = ''virus_scan_result'' \<and> sr_status r \<noteq> ''rejected''"

definition finals :: "scan_manager \<Rightarrow> string list" where
  "finals m = map sr_request_id (filter is_final (sm_emitted m))"

definition unreported :: "scan_manager \<Rightarrow> string list" where
  "unreported m = map (scan_request_id \<circ> th_command) (filter (\<lambda>t. th_phase t \<noteq> Reported) (sm_threads m))"

definition scan_inv :: "scan_manager \<Rightarrow> bool" where
  "scan_inv m \<longleftrightarrow> length (sm_threads m) = (if sm_busy m then 1 else 0)
     \<and> finals m @ unreported m = map scan_request_id (sm_accepted m)"

lemma is_final_simps [simp]:
  "\<not> is_final (rejected c reason now)" "\<not> is_final (running_result c now)"
  "is_final (final_result c s now rep err can)"
  by (auto simp: is_final_def rejected_def running_result_def final_result_def Let_def split: option.split)

lemma final_request_id [simp]: "sr_request_id (final_result c s now rep err can) = scan_request_id c"
  by (simp add: final_result_def running_result_def Let_def split: option.split)

lemma emit_fields [simp]:
  "sm_threads (emit r m) = sm_threads m" "sm_busy (emit r m) = sm_busy m"
  "sm_closed (emit r m) = sm_closed m" "sm_accepted (emit r m) = sm_accepted m"
  "finals (emit r m) = finals m @ (if is_final r then [sr_request_id r] else [])"
  "unreported (emit r m) = unreported m"
  by (simp_all add: emit_def finals_def unreported_def)

lemma scan_inv_threads:
  "scan_inv m \<Longrightarrow> (sm_threads m = [] \<and> \<not> sm_busy m) \<or> (\<exists>t. sm_threads m = [t] \<and> sm_busy m)"
  by (cases "sm_threads m") (auto simp: scan_inv_def split: if_splits)

lemma scan_machine_inv: "scan_inv m \<Longrightarrow> scan_inv (scan_machine m e)"
proof -
  assume i: "scan_inv m"
  note t = scan_inv_threads [OF i]
  show ?thesis
  proof (cases e)
    case (ScanSubmitEvent is_abs stat now c)
    then show ?thesis using i t
      by (auto simp: ScanManagerSubmit_def ScanManagerReject_def scan_inv_def finals_def unreported_def emit_def
          split: option.split)
  next
    case (ScanRejectEvent now c reason)
    then show ?thesis using i by (simp add: ScanManagerReject_def scan_inv_def)
  next
    case (ScanStep k now report err)
    then show ?thesis using i t
      by (auto simp: scan_step_def Let_def scan_inv_def finals_def unreported_def emit_def split: scan_phase.split)
  next
    case ScanContextEnd
    then show ?thesis using i t by (auto simp: cancel_threads_def scan_inv_def finals_def unreported_def)
  next
    case ScanCloseEvent
    then show ?thesis using i t by (auto simp: ScanManagerClose_def scan_inv_def finals_def unreported_def)
  qed
qed

lemma scan_init_inv: "scan_inv new_scan_manager"
  by (simp add: new_scan_manager_def scan_inv_def finals_def unreported_def)

interpretation sm: event_machine "\<lambda>m. m = new_scan_manager" scan_machine scan_inv
  by unfold_locales (simp_all add: scan_init_inv scan_machine_inv)

text \<open>
  C27. However calls and goroutines interleave, at most one scan runs, and the final results
  already sent together with the scan still running are exactly the accepted scans in the order
  of their acceptance: none is lost, none is reported twice.
\<close>

theorem one_scan_one_result:
  "length (sm_threads (foldl scan_machine new_scan_manager es)) \<le> 1
   \<and> finals (foldl scan_machine new_scan_manager es) @ unreported (foldl scan_machine new_scan_manager es)
     = map scan_request_id (sm_accepted (foldl scan_machine new_scan_manager es))"
  using sm.run_inv [OF refl, of es] by (simp add: scan_inv_def split: if_splits)

section \<open>The command line of the scanner\<close>

text \<open>\<^verbatim>\<open>limitedOutput\<close> keeps the first 32 KiB; \<^verbatim>\<open>Write\<close> always reports all bytes as written.\<close>

record limitedOutput =
  lo_data :: string
  lo_truncated :: bool

definition limited_write :: "limitedOutput \<Rightarrow> string \<Rightarrow> limitedOutput \<times> nat" where
  "limited_write b p =
     (let n = length p;
          remaining = 32 * 1024 - length (lo_data b)
      in if length p > remaining
         then (\<lparr>lo_data = lo_data b @ take remaining p, lo_truncated = True\<rparr>, n)
         else (\<lparr>lo_data = lo_data b @ p, lo_truncated = lo_truncated b\<rparr>, n))"

definition limited_output :: "string list \<Rightarrow> limitedOutput" where
  "limited_output ps = foldl (\<lambda>b p. fst (limited_write b p)) \<lparr>lo_data = [], lo_truncated = False\<rparr> ps"

definition limited_ok :: "string \<Rightarrow> limitedOutput \<Rightarrow> bool" where
  "limited_ok out b \<longleftrightarrow> lo_data b = take (32 * 1024) out \<and> lo_truncated b = (32 * 1024 < length out)"

lemma limited_write_ok: "limited_ok out b \<Longrightarrow> limited_ok (out @ p) (fst (limited_write b p))"
  by (auto simp: limited_ok_def limited_write_def Let_def min_def)

text \<open>
  Of the output of the scanner exactly the first 32 KiB are kept, however it arrives in
  pieces, and the truncation flag is set exactly when there was more.
\<close>

theorem output_prefix:
  "lo_data (limited_output ps) = take (32 * 1024) (concat ps)
   \<and> lo_truncated (limited_output ps) = (32 * 1024 < length (concat ps))"
proof -
  have "limited_ok (out @ concat ps) (foldl (\<lambda>b p. fst (limited_write b p)) b ps)"
    if "limited_ok out b" for out b
    using that
  proof (induction ps arbitrary: out b)
    case Nil
    then show ?case by simp
  next
    case (Cons p ps)
    from Cons.IH [OF limited_write_ok [OF Cons.prems]] show ?case by simp
  qed
  from this [of "[]" "\<lparr>lo_data = [], lo_truncated = False\<rparr>"] show ?thesis
    by (simp add: limited_output_def limited_ok_def)
qed

text \<open>
  \<^verbatim>\<open>filepath.IsAbs\<close> on Windows: a drive or a share, followed by a separator unless the path
  starts with two of them.
\<close>

definition win_sep :: "char \<Rightarrow> bool" where
  "win_sep c \<longleftrightarrow> c = CHR 0x5C \<or> c = CHR ''/''"

definition win_prefix_fold :: "string \<Rightarrow> string \<Rightarrow> bool" where
  "win_prefix_fold s p \<longleftrightarrow>
     length p \<le> length s
     \<and> list_all2 (\<lambda>a b. if win_sep a then win_sep b else ascii_lower a = ascii_lower b) p (take (length p) s)
     \<and> (length p < length s \<longrightarrow> win_sep (s ! length p))"

fun unc_len :: "nat \<Rightarrow> nat \<Rightarrow> string \<Rightarrow> nat" where
  "unc_len i count [] = i"
| "unc_len i count (c # cs) =
     (if win_sep c then (if count = 1 then i else unc_len (i + 1) (count + 1) cs) else unc_len (i + 1) count cs)"

definition volumeNameLen :: "string \<Rightarrow> nat" where
  "volumeNameLen p =
     (if 2 \<le> length p \<and> p ! 1 = CHR '':'' then 2
      else if p = [] \<or> \<not> win_sep (hd p) then 0
      else if win_prefix_fold p [CHR 0x5C, CHR 0x5C, CHR ''.'', CHR 0x5C, CHR ''U'', CHR ''N'', CHR ''C'']
      then unc_len 8 0 (drop 8 p)
      else if win_prefix_fold p [CHR 0x5C, CHR 0x5C, CHR ''.''] \<or> win_prefix_fold p [CHR 0x5C, CHR 0x5C, CHR ''?'']
              \<or> win_prefix_fold p [CHR 0x5C, CHR ''?'', CHR ''?'']
      then (if length p = 3 then 3 else 4 + length (takeWhile (\<lambda>c. \<not> win_sep c) (drop 4 p)))
      else if 2 \<le> length p \<and> win_sep (p ! 1) then unc_len 2 0 (drop 2 p)
      else 0)"

definition IsAbs_windows :: "string \<Rightarrow> bool" where
  "IsAbs_windows p \<longleftrightarrow>
     (let l = volumeNameLen p
      in if l = 0 then False
         else if win_sep (hd p) \<and> 2 \<le> length p \<and> win_sep (p ! 1) then True
         else drop l p \<noteq> [] \<and> win_sep (hd (drop l p)))"

text \<open>
  \<^verbatim>\<open>defenderExecutable\<close>; \<open>globbed\<close> are the installed versions found, \<open>fallback\<close> the path below
  \<^verbatim>\<open>ProgramFiles\<close> and \<open>is_file\<close> the result of \<^verbatim>\<open>os.Stat\<close>.
\<close>

definition defenderExecutable :: "string list \<Rightarrow> string \<Rightarrow> (string \<Rightarrow> bool) \<Rightarrow> string option" where
  "defenderExecutable globbed fallback is_file =
     find (\<lambda>p. is_file p \<and> IsAbs_windows p) (rev (sort globbed) @ [fallback])"

definition scan_args :: "ScanCommand \<Rightarrow> string list" where
  "scan_args c =
     [''-Scan'', ''-ScanType'',
      (if scan_type c = ''quick'' then ''1'' else if scan_type c = ''full'' then ''2''
       else if scan_type c = ''custom'' then ''3'' else '''')]
     @ (if scan_type c = ''custom'' then [''-File'', scan_path c] else [])"

text \<open>
  \<^verbatim>\<open>Scan\<close>: \<open>output\<close> is what the process writes, \<open>exit\<close> its exit code if it was started, and
  \<open>run_error\<close> the error of running it.  The replacement of invalid UTF-8 is an argument.
\<close>

definition Scan ::
    "(string \<Rightarrow> string option) \<Rightarrow> string list \<Rightarrow> string \<Rightarrow> (string \<Rightarrow> bool) \<Rightarrow> (string \<Rightarrow> string)
      \<Rightarrow> string list \<Rightarrow> int option \<Rightarrow> string option \<Rightarrow> ScanCommand
      \<Rightarrow> Report \<times> string option \<times> (string \<times> string list) option" where
  "Scan stat globbed fallback is_file to_valid output exit run_error c =
     (let r = \<lparr>rp_exit_code = -1, rp_output = '''', rp_truncated = False\<rparr>
      in case ScanValidate IsAbs_windows stat c of
           Some e \<Rightarrow> (r, Some e, None)
         | None \<Rightarrow>
             (case defenderExecutable globbed fallback is_file of
                None \<Rightarrow> (r, Some ''Microsoft Defender MpCmdRun.exe was not found'', None)
              | Some exe \<Rightarrow>
                  let b = limited_output output;
                      r1 = \<lparr>rp_exit_code = (case exit of None \<Rightarrow> -1 | Some x \<Rightarrow> x),
                            rp_output = to_valid (lo_data b), rp_truncated = lo_truncated b\<rparr>
                  in (r1,
                      map_option (\<lambda>e. ''Defender scan did not complete successfully (exit code ''
                                       @ decimal (rp_exit_code r1) @ ''): '' @ e) run_error,
                      Some (exe, scan_args c))))"

text \<open>
  Whatever the server sends, the process that is started is an existing Defender executable
  from the two places it is looked for, with the arguments of a quick, a full or a custom scan; the
  only text of the server among them is the absolute path of a custom scan, without wildcards or
  quotes, which follows the option that takes it.
\<close>

theorem scan_command_line:
  assumes "Scan stat globbed fallback is_file to_valid output exit run_error c = (r, e, Some (exe, args))"
  shows "exe \<in> insert fallback (set globbed) \<and> is_file exe \<and> IsAbs_windows exe \<and>
    (args = [''-Scan'', ''-ScanType'', ''1''] \<or> args = [''-Scan'', ''-ScanType'', ''2'']
     \<or> (args = [''-Scan'', ''-ScanType'', ''3'', ''-File'', scan_path c]
          \<and> IsAbs_windows (scan_path c) \<and> set (scan_path c) \<inter> {CHR 0x00, CHR ''*'', CHR ''?'', CHR 0x22} = {}))"
proof -
  have v: "ScanValidate IsAbs_windows stat c = None" and a: "args = scan_args c"
    and x: "defenderExecutable globbed fallback is_file = Some exe"
    using assms by (auto simp: Scan_def Let_def split: option.splits)
  have exe: "exe \<in> insert fallback (set globbed) \<and> is_file exe \<and> IsAbs_windows exe"
    using x unfolding defenderExecutable_def find_Some_iff
    by (metis insert_iff list.set(2) nth_mem rotate1.simps(2) set_append set_rev set_rotate1 set_sort)
  show ?thesis using exe v a
    by (auto simp: ScanValidate_def scan_args_def contains_any_def list_ex_iff split: if_splits)
qed

definition sample_scan :: ScanCommand where
  "sample_scan = \<lparr>scan_type_field = ''virus_scan'', scan_request_id = ''r'', scan_type = ''custom'',
     scan_path = ''C:/tmp''\<rparr>"

theorem scan_command_line_witness:
  "Scan (\<lambda>_. None) [] ''C:/M.exe'' (\<lambda>_. True) id [''ok''] (Some 0) None sample_scan
     = (\<lparr>rp_exit_code = 0, rp_output = ''ok'', rp_truncated = False\<rparr>, None,
        Some (''C:/M.exe'', [''-Scan'', ''-ScanType'', ''3'', ''-File'', ''C:/tmp'']))
   \<and> IsAbs_windows ''C:/M.exe''"
proof -
  have v: "ScanValidate IsAbs_windows (\<lambda>_. None) sample_scan = None" by code_simp
  have d: "defenderExecutable [] ''C:/M.exe'' (\<lambda>_. True) = Some ''C:/M.exe''" by code_simp
  have o: "limited_output [''ok''] = \<lparr>lo_data = ''ok'', lo_truncated = False\<rparr>"
    by (simp add: limited_output_def limited_write_def)
  have a: "scan_args sample_scan = [''-Scan'', ''-ScanType'', ''3'', ''-File'', ''C:/tmp'']" by code_simp
  have s: "Scan (\<lambda>_. None) [] ''C:/M.exe'' (\<lambda>_. True) id [''ok''] (Some 0) None sample_scan
     = (\<lparr>rp_exit_code = 0, rp_output = ''ok'', rp_truncated = False\<rparr>, None,
        Some (''C:/M.exe'', [''-Scan'', ''-ScanType'', ''3'', ''-File'', ''C:/tmp'']))"
    by (simp add: Scan_def v d o a)
  from scan_command_line [OF s] s show ?thesis by blast
qed

end
