(* ===== verification/Outbox.thy ===== *)
theory Outbox
  imports Antivirus DownloadRun "HOL-Library.Multiset"
begin

text \<open>
  How events of downloads and scans reach the server: \<^verbatim>\<open>sendDownloadEvent\<close>, \<^verbatim>\<open>flushPending\<close> and
  the handling of \<^verbatim>\<open>pendingResults\<close> in \<^verbatim>\<open>client/client.go\<close>.

  A sender writes to the connection when there is one; when that fails, or there is none, final
  results are kept in a queue of 32 and everything else is dropped.  A new connection empties the
  queue, one message at a time, while senders may add to it.  \<open>ob_submitted\<close> and \<open>ob_dropped\<close>
  record what was handed in and what was given up, for the statements only.
\<close>

section \<open>State\<close>

datatype outgoing = DownloadEvent dl_event | ScanEvent ScanResult

definition is_final_event :: "outgoing \<Rightarrow> bool" where
  "is_final_event msg =
     (case msg of
        DownloadEvent ev \<Rightarrow> (case ev of EvResult r \<Rightarrow> True | _ \<Rightarrow> False)
      | ScanEvent r \<Rightarrow> sr_type r = ''virus_scan_result'')"

record outbox =
  ob_stopping :: bool
  ob_connected :: bool
  ob_pending :: "outgoing chan"
  ob_holding :: "outgoing option"
  ob_wire :: "outgoing list"
  ob_submitted :: "outgoing list"
  ob_dropped :: "outgoing list"

definition new_outbox :: outbox where
  "new_outbox =
     \<lparr>ob_stopping = False, ob_connected = False, ob_pending = make_chan 32, ob_holding = None,
      ob_wire = [], ob_submitted = [], ob_dropped = []\<rparr>"

datatype send_outcome = Sent | Dropped | Queued | QueueFull | Stopping

section \<open>Operations\<close>

text \<open>\<open>write_ok\<close> is the outcome of the write to the connection, if there is one.\<close>

definition sendDownloadEvent :: "bool \<Rightarrow> outgoing \<Rightarrow> outbox \<Rightarrow> outbox \<times> send_outcome" where
  "sendDownloadEvent write_ok msg ob =
     (if ob_stopping ob then (ob, Stopping)
      else
        let ob1 = ob\<lparr>ob_submitted := ob_submitted ob @ [msg]\<rparr>
        in if ob_connected ob \<and> write_ok then (ob1\<lparr>ob_wire := ob_wire ob @ [msg]\<rparr>, Sent)
           else if \<not> is_final_event msg then (ob1, Dropped)
           else case chan_try_send (ob_pending ob) msg of
                  Some q \<Rightarrow> (ob1\<lparr>ob_pending := q\<rparr>, Queued)
                | None \<Rightarrow> (ob1\<lparr>ob_dropped := ob_dropped ob @ [msg]\<rparr>, QueueFull))"

text \<open>
  \<^verbatim>\<open>flushPending\<close> alternates two steps: it receives a message, and it writes the message or, when
  the write fails, puts it back at the end of the queue and stops.  The second component says
  whether the loop goes on.
\<close>

definition flush_take :: "outbox \<Rightarrow> outbox \<times> bool" where
  "flush_take ob =
     (case ob_holding ob of
        Some _ \<Rightarrow> (ob, True)
      | None \<Rightarrow>
          (case chan_try_recv (ob_pending ob) of
             None \<Rightarrow> (ob, False)
           | Some (msg, q) \<Rightarrow> (ob\<lparr>ob_pending := q, ob_holding := Some msg\<rparr>, True)))"

definition flush_write :: "bool \<Rightarrow> outbox \<Rightarrow> outbox \<times> bool" where
  "flush_write write_ok ob =
     (case ob_holding ob of
        None \<Rightarrow> (ob, False)
      | Some msg \<Rightarrow>
          let ob1 = ob\<lparr>ob_holding := None\<rparr>
          in if write_ok then (ob1\<lparr>ob_wire := ob_wire ob @ [msg]\<rparr>, True)
             else (case chan_try_send (ob_pending ob1) msg of
                     Some q \<Rightarrow> (ob1\<lparr>ob_pending := q\<rparr>, False)
                   | None \<Rightarrow> (ob1\<lparr>ob_dropped := ob_dropped ob @ [msg]\<rparr>, False)))"

text \<open>
  The whole of \<^verbatim>\<open>flushPending\<close> when no sender interferes; \<open>write_ok n\<close> is the outcome of the
  write that leaves \<open>n\<close> messages waiting.
\<close>

function flushPending :: "(nat \<Rightarrow> bool) \<Rightarrow> outbox \<Rightarrow> outbox" where
  "flushPending write_ok ob =
     (case chan_try_recv (ob_pending ob) of
        None \<Rightarrow> ob
      | Some (msg, q) \<Rightarrow>
          let ob1 = ob\<lparr>ob_pending := q, ob_holding := Some msg\<rparr>;
              n = length (chan_buf q)
          in if write_ok n then flushPending write_ok (fst (flush_write True ob1)) else fst (flush_write False ob1))"
  by pat_completeness auto
termination
  by (relation "measure (\<lambda>(write_ok, ob). length (chan_buf (ob_pending ob)))")
     (auto simp: flush_write_def dest: ch.recv_some)

declare flushPending.simps [simp del]

datatype outbox_event =
    SendEvent bool outgoing
  | FlushTake
  | FlushWrite bool
  | Connect
  | Disconnect
  | StopEvent

fun outbox_step :: "outbox \<Rightarrow> outbox_event \<Rightarrow> outbox" where
  "outbox_step ob (SendEvent write_ok msg) = fst (sendDownloadEvent write_ok msg ob)"
| "outbox_step ob FlushTake = fst (flush_take ob)"
| "outbox_step ob (FlushWrite write_ok) = fst (flush_write write_ok ob)"
| "outbox_step ob Connect = ob\<lparr>ob_connected := True\<rparr>"
| "outbox_step ob Disconnect = ob\<lparr>ob_connected := False\<rparr>"
| "outbox_step ob StopEvent = ob\<lparr>ob_stopping := True\<rparr>"

section \<open>No final result is lost or doubled\<close>

definition held :: "outbox \<Rightarrow> outgoing list" where
  "held ob = (case ob_holding ob of None \<Rightarrow> [] | Some m \<Rightarrow> [m])"

text \<open>Every final result handed in is on the wire, waiting, or was given up, exactly once.\<close>

definition outbox_inv :: "outbox \<Rightarrow> bool" where
  "outbox_inv ob \<longleftrightarrow>
     chan_ok (ob_pending ob) \<and> chan_cap (ob_pending ob) = 32
     \<and> list_all is_final_event (chan_buf (ob_pending ob) @ held ob)
     \<and> mset (filter is_final_event (ob_wire ob)) + mset (chan_buf (ob_pending ob)) + mset (held ob)
         + mset (ob_dropped ob)
       = mset (filter is_final_event (ob_submitted ob))"

lemmas outbox_defs [inv_defs] = outbox_inv_def held_def

lemma send_inv: "outbox_inv ob \<Longrightarrow> outbox_inv (fst (sendDownloadEvent w msg ob))"
  by (auto simp: sendDownloadEvent_def Let_def inv_defs chan_send_ok ac_simps split: option.split dest!: ch.send_some)

lemma flush_take_inv: "outbox_inv ob \<Longrightarrow> outbox_inv (fst (flush_take ob))"
  by (auto simp: flush_take_def inv_defs chan_ok_def split: option.split dest!: ch.recv_some)

lemma flush_write_inv: "outbox_inv ob \<Longrightarrow> outbox_inv (fst (flush_write w ob))"
  by (auto simp: flush_write_def Let_def inv_defs chan_send_ok ac_simps split: option.splits dest!: ch.send_some)

lemma outbox_step_inv: "outbox_inv ob \<Longrightarrow> outbox_inv (outbox_step ob e)"
  by (cases e) (simp_all add: send_inv flush_take_inv flush_write_inv, simp_all add: inv_defs)

lemma outbox_init: "outbox_inv new_outbox"
  by (simp add: new_outbox_def inv_defs)

interpretation ob: event_machine "\<lambda>b. b = new_outbox" outbox_step outbox_inv
  by unfold_locales (simp_all add: outbox_init outbox_step_inv)

text \<open>
  C11. Over any sequence of sends, failures, reconnections and flushes, every final result that
  was handed in is on the wire, in the queue or in the hands of the flush, or was given up,
  exactly once, and at most 32 wait.
\<close>

theorem final_results_conserved:
  "mset (filter is_final_event (ob_wire (foldl outbox_step new_outbox es)))
     + mset (chan_buf (ob_pending (foldl outbox_step new_outbox es)))
     + mset (held (foldl outbox_step new_outbox es)) + mset (ob_dropped (foldl outbox_step new_outbox es))
   = mset (filter is_final_event (ob_submitted (foldl outbox_step new_outbox es)))
   \<and> length (chan_buf (ob_pending (foldl outbox_step new_outbox es))) \<le> 32"
  using ob.run_inv [OF refl, of es] by (simp add: outbox_inv_def chan_ok_def)

text \<open>
  A final result is given up only when 32 others are already waiting: a step that drops
  anything found the queue full.
\<close>

theorem dropped_only_when_full:
  assumes "outbox_inv ob" and "ob_dropped (outbox_step ob e) \<noteq> ob_dropped ob"
  shows "length (chan_buf (ob_pending ob)) = 32"
proof -
  have full: "length (chan_buf (ob_pending ob)) = 32" if "chan_try_send (ob_pending ob) msg = None" for msg
    using that assms(1) ch.send_none [of "ob_pending ob" msg] by (simp add: outbox_inv_def chan_ok_def)
  show ?thesis
  proof (cases e)
    case (SendEvent w msg)
    with assms(2) have "chan_try_send (ob_pending ob) msg = None"
      by (auto simp: sendDownloadEvent_def Let_def split: if_splits option.splits)
    then show ?thesis by (rule full)
  next
    case (FlushWrite w)
    with assms(2) obtain msg where "chan_try_send (ob_pending ob) msg = None"
      by (auto simp: flush_write_def Let_def split: if_splits option.splits)
    then show ?thesis by (rule full)
  qed (use assms(2) in \<open>auto simp: flush_take_def split: option.splits\<close>)
qed

section \<open>The whole flush\<close>

lemma flushPending_mset:
  assumes "ob_holding ob = None" and "chan_ok (ob_pending ob)"
  shows "mset (ob_wire (flushPending w ob)) + mset (chan_buf (ob_pending (flushPending w ob)))
       = mset (ob_wire ob) + mset (chan_buf (ob_pending ob))
     \<and> ob_dropped (flushPending w ob) = ob_dropped ob"
  using assms
proof (induction w ob rule: flushPending.induct)
  case (1 w ob)
  show ?case
  proof (cases "chan_try_recv (ob_pending ob)")
    case None
    then show ?thesis by (simp add: flushPending.simps [of w ob])
  next
    case (Some x)
    then obtain msg q where r: "chan_try_recv (ob_pending ob) = Some (msg, q)" by (cases x) auto
    note q = ch.recv_some [OF r]
    have ok: "chan_ok q" by (rule chan_recv_ok [OF "1.prems"(2) r])
    let ?ob1 = "ob\<lparr>ob_pending := q, ob_holding := Some msg\<rparr>"
    show ?thesis
    proof (cases "w (length (chan_buf q))")
      case True
      let ?ob2 = "fst (flush_write True ?ob1)"
      have f: "ob_holding ?ob2 = None" "chan_ok (ob_pending ?ob2)" "ob_wire ?ob2 = ob_wire ob @ [msg]"
        "chan_buf (ob_pending ?ob2) = chan_buf q" "ob_dropped ?ob2 = ob_dropped ob"
        using ok by (simp_all add: flush_write_def Let_def)
      have "flushPending w ob = flushPending w ?ob2" using r True by (simp add: flushPending.simps [of w ob])
      then show ?thesis using "1.IH" [OF r refl refl refl True f(1,2)] f q by simp
    next
      case False
      have "chan_try_send q msg \<noteq> None"
        using "1.prems"(2) q ch.send_none [of q msg] by (simp add: chan_ok_def)
      then obtain q2 where s: "chan_try_send q msg = Some q2" by blast
      then show ?thesis using r False q ch.send_some [OF s]
        by (simp add: flushPending.simps [of w ob] flush_write_def Let_def)
    qed
  qed
qed

lemma flushPending_all:
  assumes "ob_holding ob = None"
  shows "chan_buf (ob_pending (flushPending (\<lambda>_. True) ob)) = []
     \<and> ob_wire (flushPending (\<lambda>_. True) ob) = ob_wire ob @ chan_buf (ob_pending ob)"
  using assms
proof (induction "\<lambda>_ :: nat. True" ob rule: flushPending.induct)
  case (1 ob)
  show ?case
  proof (cases "chan_try_recv (ob_pending ob)")
    case None
    then show ?thesis using ch.recv_none [of "ob_pending ob"]
      by (simp add: flushPending.simps [of _ ob])
  next
    case (Some x)
    then obtain msg q where r: "chan_try_recv (ob_pending ob) = Some (msg, q)" by (cases x) auto
    let ?ob2 = "fst (flush_write True (ob\<lparr>ob_pending := q, ob_holding := Some msg\<rparr>))"
    have f: "ob_holding ?ob2 = None" "ob_wire ?ob2 = ob_wire ob @ [msg]" "ob_pending ?ob2 = q"
      by (simp_all add: flush_write_def Let_def)
    have "flushPending (\<lambda>_. True) ob = flushPending (\<lambda>_. True) ?ob2"
      using r by (simp add: flushPending.simps [of _ ob])
    then show ?thesis using "1.hyps" [OF r refl refl refl TrueI f(1)] f ch.recv_some [OF r] by simp
  qed
qed

text \<open>
  A flush that no sender disturbs keeps every waiting result: the messages on the wire and in
  the queue together are the same before and after, whichever write fails; when every write
  succeeds the queue is empty and its messages were sent in order.
\<close>

theorem flush_keeps_everything:
  assumes "ob_holding ob = None" and "chan_ok (ob_pending ob)"
  shows "mset (ob_wire (flushPending w ob)) + mset (chan_buf (ob_pending (flushPending w ob)))
       = mset (ob_wire ob) + mset (chan_buf (ob_pending ob))
     \<and> chan_buf (ob_pending (flushPending (\<lambda>_. True) ob)) = []
     \<and> ob_wire (flushPending (\<lambda>_. True) ob) = ob_wire ob @ chan_buf (ob_pending ob)"
  using flushPending_mset [OF assms] flushPending_all [OF assms(1)] by blast

definition sample_final :: "string \<Rightarrow> outgoing" where
  "sample_final i = ScanEvent (rejected \<lparr>scan_type_field = '''', scan_request_id = i, scan_type = '''',
     scan_path = ''''\<rparr> '''' '''')"

definition sample_outbox :: outbox where
  "sample_outbox = new_outbox\<lparr>ob_pending := \<lparr>chan_cap = 32, chan_buf = [sample_final ''1'', sample_final ''2'']\<rparr>\<rparr>"

theorem flush_keeps_everything_witness:
  "ob_wire (flushPending (\<lambda>_. True) sample_outbox) = [sample_final ''1'', sample_final ''2'']"
proof -
  have "ob_holding sample_outbox = None" "chan_ok (ob_pending sample_outbox)"
    by (simp_all add: sample_outbox_def new_outbox_def chan_ok_def)
  from flush_keeps_everything [OF this, of "\<lambda>_. True"] show ?thesis
    by (simp add: sample_outbox_def new_outbox_def)
qed

definition full_outbox :: outbox where
  "full_outbox = new_outbox\<lparr>ob_pending := \<lparr>chan_cap = 32, chan_buf = replicate 32 (sample_final ''1'')\<rparr>,
     ob_submitted := replicate 32 (sample_final ''1'')\<rparr>"

theorem dropped_only_when_full_witness:
  "length (chan_buf (ob_pending full_outbox)) = 32
   \<and> ob_dropped (outbox_step full_outbox (SendEvent False (sample_final ''2''))) \<noteq> ob_dropped full_outbox"
proof -
  have f: "is_final_event (sample_final i)" for i
    by (simp add: sample_final_def is_final_event_def rejected_def)
  then have i: "outbox_inv full_outbox"
    by (simp add: full_outbox_def new_outbox_def inv_defs chan_ok_def list_all_iff)
  have d: "ob_dropped (outbox_step full_outbox (SendEvent False (sample_final ''2''))) \<noteq> ob_dropped full_outbox"
    by (simp add: full_outbox_def new_outbox_def sendDownloadEvent_def chan_try_send_def f)
  show ?thesis using dropped_only_when_full [OF i d] d by blast
qed

end
