(* ===== verification/Client.thy ===== *)
theory Client
  imports Outbox Backoff
begin

text \<open>
  The connection loop and its workers: \<^verbatim>\<open>client/client.go\<close>, \<^verbatim>\<open>client/performance.go\<close>,
  \<^verbatim>\<open>client/screen.go\<close>, \<^verbatim>\<open>client/heartbeat.go\<close> and the actions of \<^verbatim>\<open>client/power.go\<close>.

  The workers are machines driven by what their select statements receive.  The providers, the
  screen capture, the process killer, the power controller and the socket answer through the
  events.
\<close>

section \<open>The latest command wins\<close>

text \<open>
  \<^verbatim>\<open>setStreamState\<close> on a channel of capacity one; \<open>taken\<close> says that the publisher receives
  between the first attempt and the drain.  \<open>None\<close> is a send that would block.
\<close>

definition setStreamState :: "bool \<Rightarrow> bool \<Rightarrow> bool chan \<Rightarrow> bool chan option" where
  "setStreamState taken start q =
     (case chan_try_send q start of
        Some q' \<Rightarrow> Some q'
      | None \<Rightarrow>
          let q1 = (if taken then (case chan_try_recv q of None \<Rightarrow> q | Some (_, q') \<Rightarrow> q') else q);
              q2 = (case chan_try_recv q1 of None \<Rightarrow> q1 | Some (_, q') \<Rightarrow> q')
          in chan_try_send q2 start)"

lemma setStreamState_one:
  assumes "chan_cap q = 1" and "chan_ok q"
  shows "\<exists>q'. setStreamState taken start q = Some q' \<and> chan_buf q' = [start] \<and> chan_cap q' = 1"
proof -
  from assms obtain x where "chan_buf q = [] \<or> chan_buf q = [x]"
    by (cases "chan_buf q") (auto simp: chan_ok_def)
  then show ?thesis using assms(1)
    by (auto simp: setStreamState_def chan_try_send_def chan_try_recv_def Let_def)
qed

fun requests :: "(bool \<times> bool) list \<Rightarrow> bool chan \<Rightarrow> bool chan option" where
  "requests [] q = Some q"
| "requests ((taken, start) # rs) q =
     (case setStreamState taken start q of None \<Rightarrow> None | Some q' \<Rightarrow> requests rs q')"

text \<open>
  The reader never blocks on a stream command: after any requests, interleaved with receives
  of the publisher in any way, the channel holds exactly the last request.
\<close>

theorem latest_request_wins:
  "\<exists>q. requests (rs @ [(taken, start)]) (make_chan 1) = Some q \<and> chan_buf q = [start]"
proof -
  have "\<exists>q'. requests (rs @ [(taken, start)]) q = Some q' \<and> chan_buf q' = [start]"
    if "chan_cap q = 1" "chan_ok q" for q
    using that
  proof (induction rs arbitrary: q)
    case Nil
    then show ?case using setStreamState_one [OF Nil, of taken start] by auto
  next
    case (Cons r rs)
    obtain t s where r: "r = (t, s)" by fastforce
    obtain q1 where "setStreamState t s q = Some q1" "chan_buf q1 = [s]" "chan_cap q1 = 1"
      using setStreamState_one [OF Cons.prems] by blast
    with Cons.IH [of q1] show ?case by (simp add: r chan_ok_def)
  qed
  from this [of "make_chan 1"] show ?thesis by simp
qed

section \<open>Publishing on command\<close>

text \<open>\<open>pb_ticking\<close>: the ticker exists; \<open>pb_sent\<close> counts the messages written.\<close>

record publisher =
  pb_active :: bool
  pb_ticking :: bool
  pb_alive :: bool
  pb_sent :: nat

definition new_publisher :: publisher where
  "new_publisher = \<lparr>pb_active = False, pb_ticking = False, pb_alive = True, pb_sent = 0\<rparr>"

datatype provided = ProviderFailed | WriteFailed | WriteDone

text \<open>\<^verbatim>\<open>send\<close>: only a failed write ends the publisher.\<close>

definition pb_send :: "provided \<Rightarrow> publisher \<Rightarrow> publisher \<times> bool" where
  "pb_send r p =
     (case r of ProviderFailed \<Rightarrow> (p, True)
      | WriteFailed \<Rightarrow> (p, False)
      | WriteDone \<Rightarrow> (p\<lparr>pb_sent := pb_sent p + 1\<rparr>, True))"

definition pb_stop :: "publisher \<Rightarrow> publisher" where
  "pb_stop p = p\<lparr>pb_alive := False, pb_ticking := False\<rparr>"

datatype publish_event = Command bool provided | Tick provided | ContextDone

fun publishOnCommand :: "publisher \<Rightarrow> publish_event \<Rightarrow> publisher" where
  "publishOnCommand p (Command start r) =
     (if \<not> pb_alive p then p
      else if start = pb_active p then p
      else let p1 = p\<lparr>pb_active := start\<rparr>
           in if \<not> start then p1\<lparr>pb_ticking := False\<rparr>
              else (case pb_send r p1 of
                      (p2, ok) \<Rightarrow> if ok then p2\<lparr>pb_ticking := True\<rparr> else pb_stop p2))"
| "publishOnCommand p (Tick r) =
     (if \<not> pb_alive p \<or> \<not> pb_ticking p then p
      else case pb_send r p of (p1, ok) \<Rightarrow> if ok then p1 else pb_stop p1)"
| "publishOnCommand p ContextDone = pb_stop p"

text \<open>The last command among the events, and the messages that the commands ask for.\<close>

fun wanted :: "bool \<Rightarrow> publish_event list \<Rightarrow> bool" where
  "wanted b [] = b"
| "wanted b (Command start r # es) = wanted start es"
| "wanted b (e # es) = wanted b es"

fun expected :: "bool \<Rightarrow> publish_event list \<Rightarrow> nat" where
  "expected b [] = 0"
| "expected b (Command start r # es) = (if start \<and> \<not> b \<and> r = WriteDone then 1 else 0) + expected start es"
| "expected b (Tick r # es) = (if b \<and> r = WriteDone then 1 else 0) + expected b es"
| "expected b (ContextDone # es) = expected b es"

lemma publish_dead: "\<not> pb_alive p \<Longrightarrow> \<not> pb_alive (foldl publishOnCommand p es)"
proof (induction es arbitrary: p)
  case (Cons e es)
  then have "\<not> pb_alive (publishOnCommand p e)" by (cases e) (auto simp: pb_stop_def)
  with Cons.IH show ?case by simp
qed simp

lemma publish_spec:
  assumes "pb_alive (foldl publishOnCommand p es)" and "pb_ticking p = pb_active p"
  shows "pb_ticking (foldl publishOnCommand p es) = wanted (pb_active p) es
    \<and> pb_sent (foldl publishOnCommand p es) = pb_sent p + expected (pb_active p) es"
  using assms
proof (induction es arbitrary: p)
  case Nil
  then show ?case by simp
next
  case (Cons e es)
  let ?p = "publishOnCommand p e"
  have alive: "pb_alive ?p" "pb_alive p"
    using Cons.prems(1) publish_dead [of ?p es] publish_dead [of p "e # es"] by auto
  have "pb_ticking ?p = pb_active ?p \<and> pb_active ?p = wanted (pb_active p) [e]
      \<and> pb_sent ?p = pb_sent p + expected (pb_active p) [e]"
    using alive Cons.prems(2)
    by (cases e) (auto simp: pb_send_def pb_stop_def Let_def split: provided.splits)
  moreover have "wanted b (e # es) = wanted (wanted b [e]) es"
    "expected b (e # es) = expected b [e] + expected (wanted b [e]) es" for b
    by (cases e; simp)+
  ultimately show ?case using Cons.IH [of ?p] Cons.prems(1) by simp
qed

text \<open>
  A publisher does what it was told last: as long as it lives its ticker runs exactly when
  the last command was a start, and the messages it has written are one for every start from the
  stopped state and one for every tick while started.
\<close>

theorem publisher_follows_commands:
  assumes "pb_alive (foldl publishOnCommand new_publisher es)"
  shows "pb_ticking (foldl publishOnCommand new_publisher es) = wanted False es
    \<and> pb_sent (foldl publishOnCommand new_publisher es) = expected False es"
  using publish_spec [OF assms] by (simp add: new_publisher_def)

section \<open>The screen stream\<close>

text \<open>
  \<open>ss_done\<close> names the goroutine the streamer owns, \<open>ss_threads\<close> lists the goroutines that
  exist; one of them is leaving when its flag is set.  \<open>ss_waiting\<close> is the goroutine a call of
  \<^verbatim>\<open>Stop\<close> waits for.
\<close>

record screen_streamer =
  ss_capture :: bool
  ss_streaming :: bool
  ss_done :: nat
  ss_next :: nat
  ss_cancelled :: "nat list"
  ss_threads :: "(nat \<times> bool) list"
  ss_waiting :: "nat option"
  ss_frames :: "nat list"

definition NewScreenStreamer :: "bool \<Rightarrow> screen_streamer" where
  "NewScreenStreamer capture =
     \<lparr>ss_capture = capture, ss_streaming = False, ss_done = 0, ss_next = 1, ss_cancelled = [],
      ss_threads = [], ss_waiting = None, ss_frames = []\<rparr>"

definition Start :: "screen_streamer \<Rightarrow> screen_streamer" where
  "Start s =
     (if ss_streaming s \<or> \<not> ss_capture s then s
      else s\<lparr>ss_streaming := True, ss_done := ss_next s, ss_next := ss_next s + 1,
             ss_threads := ss_threads s @ [(ss_next s, False)]\<rparr>)"

datatype frame_outcome = CaptureFailed | FrameWritten | FrameFailed

text \<open>One turn of the loop of the first goroutine that exists, on a tick or on the end of its context.\<close>

definition screen_tick :: "frame_outcome \<Rightarrow> screen_streamer \<Rightarrow> screen_streamer" where
  "screen_tick r s =
     (case ss_threads s of
        [] \<Rightarrow> s
      | (i, leaving) # ts \<Rightarrow>
          if leaving then s
          else (case r of
                  CaptureFailed \<Rightarrow> s
                | FrameWritten \<Rightarrow> s\<lparr>ss_frames := ss_frames s @ [i]\<rparr>
                | FrameFailed \<Rightarrow> s\<lparr>ss_threads := (i, True) # ts\<rparr>))"

definition screen_cancelled :: "screen_streamer \<Rightarrow> screen_streamer" where
  "screen_cancelled s =
     (case ss_threads s of
        [] \<Rightarrow> s
      | (i, leaving) # ts \<Rightarrow> if i \<in> set (ss_cancelled s) then s\<lparr>ss_threads := (i, True) # ts\<rparr> else s)"

text \<open>The deferred end of the goroutine.\<close>

definition screen_exit :: "screen_streamer \<Rightarrow> screen_streamer" where
  "screen_exit s =
     (case ss_threads s of
        [] \<Rightarrow> s
      | (i, leaving) # ts \<Rightarrow>
          if \<not> leaving then s
          else (if ss_done s = i then s\<lparr>ss_streaming := False\<rparr> else s)
                 \<lparr>ss_threads := ts, ss_waiting := (if ss_waiting s = Some i then None else ss_waiting s)\<rparr>)"

definition Stop :: "screen_streamer \<Rightarrow> screen_streamer" where
  "Stop s =
     (if \<not> ss_streaming s then s
      else s\<lparr>ss_cancelled := ss_done s # ss_cancelled s, ss_waiting := Some (ss_done s)\<rparr>)"

text \<open>The reader calls \<^verbatim>\<open>Start\<close> and \<^verbatim>\<open>Stop\<close>; it does nothing while it waits in \<^verbatim>\<open>Stop\<close>.\<close>

datatype screen_event = StartCall | StopCall | ScreenTick frame_outcome | ScreenCancelled | ScreenExit

fun screen_step :: "screen_streamer \<Rightarrow> screen_event \<Rightarrow> screen_streamer" where
  "screen_step s StartCall = (if ss_waiting s = None then Start s else s)"
| "screen_step s StopCall = (if ss_waiting s = None then Stop s else s)"
| "screen_step s (ScreenTick r) = screen_tick r s"
| "screen_step s ScreenCancelled = screen_cancelled s"
| "screen_step s ScreenExit = screen_exit s"

definition screen_inv :: "screen_streamer \<Rightarrow> bool" where
  "screen_inv s \<longleftrightarrow>
     (if ss_streaming s then \<exists>l. ss_threads s = [(ss_done s, l)] \<and> ss_done s < ss_next s else ss_threads s = [])
     \<and> (case ss_waiting s of None \<Rightarrow> True | Some i \<Rightarrow> ss_streaming s \<and> i = ss_done s \<and> i \<in> set (ss_cancelled s))
     \<and> (ss_streaming s \<longrightarrow> ss_capture s)"

lemma screen_step_inv: "screen_inv s \<Longrightarrow> screen_inv (screen_step s e)"
  by (cases e)
     (auto simp: screen_inv_def Start_def Stop_def screen_tick_def screen_cancelled_def screen_exit_def
        split: if_splits option.splits frame_outcome.split)

lemma screen_init: "screen_inv (NewScreenStreamer c)"
  by (simp add: screen_inv_def NewScreenStreamer_def)

interpretation ss: event_machine "\<lambda>s. \<exists>c. s = NewScreenStreamer c" screen_step screen_inv
  by unfold_locales (auto simp: screen_init screen_step_inv)

text \<open>
  C37. At most one capture goroutine exists, and exactly while the streamer says it is streaming;
  a call of Stop only ever waits for that goroutine, whose context it has cancelled.
\<close>

theorem single_screen_stream:
  "length (ss_threads (foldl screen_step (NewScreenStreamer c) es))
     = (if ss_streaming (foldl screen_step (NewScreenStreamer c) es) then 1 else 0)
   \<and> (case ss_waiting (foldl screen_step (NewScreenStreamer c) es) of
        None \<Rightarrow> True
      | Some i \<Rightarrow> ss_streaming (foldl screen_step (NewScreenStreamer c) es)
          \<and> map fst (ss_threads (foldl screen_step (NewScreenStreamer c) es)) = [i]
          \<and> i \<in> set (ss_cancelled (foldl screen_step (NewScreenStreamer c) es)))"
proof -
  have "screen_inv (foldl screen_step (NewScreenStreamer c) es)" by (rule ss.run_inv) blast
  then show ?thesis by (auto simp: screen_inv_def split: option.splits if_splits)
qed

section \<open>Killing a process, shutting down\<close>

text \<open>
  The texts of \<^verbatim>\<open>killProcess\<close> are Thai; the constructors name them.  \<open>killer\<close> is \<open>None\<close> when the
  platform has none, and otherwise says whether terminating a process works.
\<close>

datatype kill_message = CannotClose | Closed
datatype kill_error = NoError | PIDNotPositive | Unsupported | KillFailed int

record kill_result =
  kr_pid :: int
  kr_success :: bool
  kr_message :: kill_message
  kr_error :: kill_error

text \<open>The result that is written and the processes the killer was asked to terminate.\<close>

definition killProcess :: "int \<Rightarrow> (int \<Rightarrow> bool) option \<Rightarrow> kill_result \<times> int list" where
  "killProcess pid killer =
     (if pid \<le> 0
      then (\<lparr>kr_pid = pid, kr_success = False, kr_message = CannotClose, kr_error = PIDNotPositive\<rparr>, [])
      else case killer of
             None \<Rightarrow> (\<lparr>kr_pid = pid, kr_success = False, kr_message = CannotClose, kr_error = Unsupported\<rparr>, [])
           | Some kill \<Rightarrow>
               if \<not> kill pid
               then (\<lparr>kr_pid = pid, kr_success = False, kr_message = CannotClose, kr_error = KillFailed pid\<rparr>, [pid])
               else (\<lparr>kr_pid = pid, kr_success = True, kr_message = Closed, kr_error = NoError\<rparr>, [pid]))"

record power_result =
  pw_type :: string
  pw_action :: string
  pw_request_id :: string
  pw_success :: bool
  pw_mode :: string
  pw_message :: string

text \<open>A power controller: its mode and the outcome of a shutdown request.\<close>

record power_controller =
  pc_mode :: string
  pc_shutdown_ok :: bool

definition powerMode :: "power_controller option \<Rightarrow> string" where
  "powerMode ctl =
     (case ctl of None \<Rightarrow> ''mock'' | Some c \<Rightarrow> if pc_mode c = ''real'' then ''real'' else ''mock'')"

text \<open>The result, if one is written, and the number of calls of \<^verbatim>\<open>Shutdown\<close>.\<close>

definition handlePowerCommand ::
    "bool \<Rightarrow> power_controller option \<Rightarrow> string \<Rightarrow> power_result option \<times> nat" where
  "handlePowerCommand cancelled ctl request =
     (if cancelled then (None, 0)
      else
        let r = \<lparr>pw_type = ''power'', pw_action = ''shutdown_result'', pw_request_id = request,
                 pw_success = False, pw_mode = powerMode ctl, pw_message = ''''\<rparr>
        in case ctl of
             None \<Rightarrow> (Some (r\<lparr>pw_message := ''power controller unavailable''\<rparr>), 0)
           | Some c \<Rightarrow>
               if \<not> pc_shutdown_ok c then (Some (r\<lparr>pw_message := ''shutdown command failed''\<rparr>), 1)
               else (Some (r\<lparr>pw_success := True, pw_message := ''shutdown command accepted''\<rparr>), 1))"

text \<open>
  A process is terminated only when its number is positive and only that one, and the reply
  claims success exactly when it was terminated; a shutdown is requested at most once per
  command, never on an ended connection, and the reply echoes the request and claims success
  exactly when the controller accepted.
\<close>

theorem actions_reported_truthfully:
  "(snd (killProcess pid killer) = [] \<or> (snd (killProcess pid killer) = [pid] \<and> 0 < pid))
   \<and> kr_success (fst (killProcess pid killer)) = (0 < pid \<and> (case killer of None \<Rightarrow> False | Some kill \<Rightarrow> kill pid))
   \<and> kr_pid (fst (killProcess pid killer)) = pid
   \<and> (case handlePowerCommand cancelled ctl request of
        (None, n) \<Rightarrow> cancelled \<and> n = 0
      | (Some r, n) \<Rightarrow> \<not> cancelled \<and> n = (if ctl = None then 0 else 1) \<and> pw_request_id r = request
          \<and> pw_success r = (case ctl of None \<Rightarrow> False | Some c \<Rightarrow> pc_shutdown_ok c))"
  by (simp add: killProcess_def handlePowerCommand_def Let_def split: option.split)

section \<open>One connection\<close>

text \<open>
  What happens on a connection, in order.  The environment says how far it gets: whether the dial,
  the handshake and the first write succeed, and how long it then stays up (nanoseconds).
\<close>

datatype conn_action =
    Dial | Authenticate | WriteInitial | Install | FlushResults | StartWorkers | ReadMessages
  | CancelWorkers | CloseSocket | StopScreen | JoinWorkers | Uninstall

datatype conn_error = DialError | AuthError | WriteError | ReadError

record conn_env =
  ce_dial_ok :: bool
  ce_auth_ok :: bool
  ce_initial_ok :: bool
  ce_read_failed :: bool
  ce_cancelled :: bool
  ce_uptime :: int

text \<open>The actions, the error returned, and \<^verbatim>\<open>stableConnection\<close>.\<close>

definition runConnection :: "conn_env \<Rightarrow> conn_action list \<times> conn_error option \<times> bool" where
  "runConnection env =
     (if \<not> ce_dial_ok env then ([Dial], Some DialError, False)
      else if \<not> ce_auth_ok env then ([Dial, Authenticate, CloseSocket], Some AuthError, False)
      else if \<not> ce_initial_ok env then ([Dial, Authenticate, WriteInitial, CloseSocket], Some WriteError, False)
      else ([Dial, Authenticate, WriteInitial, Install, FlushResults, StartWorkers, ReadMessages,
             CancelWorkers, CloseSocket, StopScreen, JoinWorkers, Uninstall, CloseSocket],
            (if \<not> ce_read_failed env \<or> ce_cancelled env then None else Some ReadError),
            ce_uptime env \<ge> 30000000000))"

section \<open>The reconnect loop\<close>

text \<open>
  One round: the state of the context before and after the connection, the connection, the random
  draw of the backoff and whether the wait was cut short.
\<close>

record round_env =
  rd_cancelled_before :: bool
  rd_conn :: conn_env
  rd_cancelled_after :: bool
  rd_draw :: int
  rd_wait_cancelled :: bool

datatype run_log = Connected "conn_action list" | Delay nat bool

text \<open>
  \<^verbatim>\<open>Run\<close> over the rounds it meets; \<open>True\<close> says that it returned.  The flag of a delay is
  \<^verbatim>\<open>stableConnection\<close>.
\<close>

fun run_rounds :: "backoff \<Rightarrow> round_env list \<Rightarrow> run_log list \<times> backoff \<times> bool" where
  "run_rounds b [] = ([], b, False)"
| "run_rounds b (r # rs) =
     (if rd_cancelled_before r then ([], b, True)
      else case runConnection (rd_conn r) of
             (acts, err, lasted) \<Rightarrow>
               if rd_cancelled_after r then ([Connected acts], b, True)
               else let b1 = (if lasted then Reset b else b);
                        (delay, b2) = Next b1 (rd_draw r)
                    in if rd_wait_cancelled r then ([Connected acts, Delay delay lasted], b2, True)
                       else (case run_rounds b2 rs of
                               (log, b3, returned) \<Rightarrow> (Connected acts # Delay delay lasted # log, b3, returned)))"

definition RunLoop :: "round_env list \<Rightarrow> run_log list \<times> backoff \<times> bool" where
  "RunLoop rs = run_rounds New rs"

definition log_ok :: "run_log \<Rightarrow> bool" where
  "log_ok e =
     (case e of
        Connected acts \<Rightarrow>
          acts \<noteq> [] \<and> hd acts = Dial
          \<and> (Install \<notin> set acts \<or> take 4 acts = [Dial, Authenticate, WriteInitial, Install])
          \<and> (StartWorkers \<notin> set acts \<or> JoinWorkers \<in> set acts)
      | Delay d lasted \<Rightarrow>
          second div 2 \<le> d \<and> d \<le> 30 * second \<and> (\<not> lasted \<or> d \<le> second))"

lemma log_ok_conn: "log_ok (Connected (fst (runConnection env)))"
  by (simp add: log_ok_def runConnection_def)

definition loop_inv :: "backoff \<Rightarrow> bool" where
  "loop_inv b \<longleftrightarrow> backoff_inv b \<and> bo_base b = second \<and> bo_cap b = 30 * second"

lemma loop_inv_steps: "loop_inv b \<Longrightarrow> loop_inv (Reset b) \<and> loop_inv (snd (Next b r))"
  using backoff_step_inv [of b "DoNext r"] backoff_step_inv [of b DoReset]
  by (auto simp: loop_inv_def Next_window Reset_def)

lemma log_ok_delay:
  assumes "loop_inv b" and "lasted \<Longrightarrow> bo_next b = second"
  shows "log_ok (Delay (fst (Next b r)) lasted)"
proof -
  have "second \<le> bo_next b" "bo_next b \<le> 30 * second" using assms(1) by (auto simp: loop_inv_def backoff_inv_def)
  moreover have "second div 2 \<le> bo_next b div 2" using \<open>second \<le> bo_next b\<close> by (rule div_le_mono)
  ultimately show ?thesis using Next_bounds [of b r] assms by (auto simp: log_ok_def loop_inv_def)
qed

lemma run_rounds_ok: "loop_inv b \<Longrightarrow> list_all log_ok (fst (run_rounds b rs))"
proof (induction b rs rule: run_rounds.induct)
  case (1 b)
  then show ?case by simp
next
  case (2 b r rs)
  obtain acts err lasted where c: "runConnection (rd_conn r) = (acts, err, lasted)" by (metis prod_cases3)
  then have a: "log_ok (Connected acts)" using log_ok_conn by (metis fst_conv)
  let ?b1 = "if lasted then Reset b else b"
  obtain delay b2 where n: "Next ?b1 (rd_draw r) = (delay, b2)" by fastforce
  have i1: "loop_inv ?b1" using loop_inv_steps 2(2) by simp
  have i2: "loop_inv b2" using loop_inv_steps [OF i1, of "rd_draw r"] n by simp
  have "lasted \<Longrightarrow> bo_next ?b1 = second" using 2(2) by (simp add: Reset_def loop_inv_def)
  then have d: "log_ok (Delay delay lasted)" using log_ok_delay [OF i1, of lasted "rd_draw r"] n by simp
  obtain log b3 ret where rr: "run_rounds b2 rs = (log, b3, ret)" by (metis prod_cases3)
  have "list_all log_ok log" if "\<not> rd_cancelled_before r" "\<not> rd_cancelled_after r" "\<not> rd_wait_cancelled r"
  proof -
    have "list_all log_ok (fst (run_rounds b2 rs))"
      by (rule "2.IH" [OF that(1) c [symmetric] refl that(2) refl refl n [symmetric] that(3) i2])
    then show ?thesis by (simp add: rr)
  qed
  then show ?case using a d c n rr by (simp add: Let_def)
qed


section \<open>Heartbeat and shutdown\<close>

text \<open>
  Each tick sends a ping; the first one that fails closes the connection and ends the worker.
  The result is the number of pings and whether the connection was closed.
\<close>

fun heartbeat :: "bool option list \<Rightarrow> nat \<times> bool" where
  "heartbeat [] = (0, False)"
| "heartbeat (None # es) = (0, False)"   \<comment> \<open>the context is done\<close>
| "heartbeat (Some ok # es) =
     (if \<not> ok then (1, True) else case heartbeat es of (n, closed) \<Rightarrow> (n + 1, closed))"

datatype close_action =
    SetStopping | CancelEvents | CloseConnection | ClosePower | CloseDownloads | CloseScans

record client_life =
  cl_closed :: bool
  cl_connected :: bool
  cl_power_closer :: bool
  cl_downloads :: bool
  cl_log :: "close_action list"

definition ClientClose :: "client_life \<Rightarrow> client_life" where
  "ClientClose c =
     (if cl_closed c then c
      else c\<lparr>cl_closed := True,
             cl_log := cl_log c @ [SetStopping, CancelEvents]
               @ (if cl_connected c then [CloseConnection] else [])
               @ (if cl_power_closer c then [ClosePower] else [])
               @ (if cl_downloads c then [CloseDownloads] else []) @ [CloseScans]\<rparr>)"

lemma ClientClose_idem [simp]: "ClientClose (ClientClose c) = ClientClose c"
  by (simp add: ClientClose_def)

lemma heartbeat_closed_iff:
  "snd (heartbeat es) \<longleftrightarrow> Some False \<in> set (takeWhile (\<lambda>e. e \<noteq> None) es)"
  by (induction es rule: heartbeat.induct) (auto split: prod.split)

section \<open>Witnesses\<close>

theorem publisher_follows_commands_witness:
  "pb_sent (foldl publishOnCommand new_publisher
      [Command True WriteDone, Tick WriteDone, Tick ProviderFailed, Command False WriteDone, Tick WriteDone]) = 2"
proof -
  let ?es = "[Command True WriteDone, Tick WriteDone, Tick ProviderFailed, Command False WriteDone, Tick WriteDone]"
  have a: "pb_alive (foldl publishOnCommand new_publisher ?es)"
    by (simp add: new_publisher_def pb_send_def)
  from publisher_follows_commands [OF a] show ?thesis by simp
qed

end
