(* ===== verification/Identity.thy ===== *)
theory Identity
  imports Json Encoding "HOL-Library.Char_ord" "HOL-Library.List_Lexorder"
begin

text \<open>
  The identity of the agent and its private key: \<^verbatim>\<open>service/agent_id.go\<close>, \<^verbatim>\<open>service/private_key.go\<close>,
  \<^verbatim>\<open>service/private_key_migration.go\<close> and \<^verbatim>\<open>internal/statefile\<close>.

  Files are reached through two operations on a state, a read and a write that may both fail; the
  locale \<open>file_store\<close> lists what the code relies on, and the disk of the last section, on which
  every operation can fail at every step, provides it.  The JSON text functions, the UUID check,
  DPAPI and the Ed25519 key derivation are arguments.
\<close>

section \<open>Identities\<close>

record AgentConfig =
  ag_id :: string
  ag_algorithm :: string
  ag_public_key :: string
  ag_encrypted_key :: string
  ag_protection :: string

record id_lib =
  il_uuid_ok :: "string \<Rightarrow> bool"
  il_parse :: "string \<Rightarrow> json option"
  il_encode :: "json \<Rightarrow> string"
  il_derive :: "string \<Rightarrow> string"

definition keyAlgorithm :: string where "keyAlgorithm = ''Ed25519''"
definition MachinePrivateKeyProtection :: string where "MachinePrivateKeyProtection = ''dpapi-machine-v1''"

definition agent_config_fields :: "fval fields" where
  "agent_config_fields =
     [(''agent_id'', conv_string), (''algorithm'', conv_string), (''public_key'', conv_string),
      (''encrypted_private_key'', conv_string), (''private_key_protection'', conv_string)]"

datatype id_error =
    JsonInvalid | BadAgentID | BadAlgorithm | BadProtection | BadPublicKey | BadEncryptedKey
  | NotBoundedFile | FileMissing | FileFailed | ProvisioningRequired | UnprotectedDirectory
  | KeyPairFailed | EncodeFailed | CreateRefused | IdentityConflict | MigrationRefused | VerificationFailed

definition config_of :: "(string \<rightharpoonup> fval) \<Rightarrow> AgentConfig" where
  "config_of m =
     \<lparr>ag_id = get_str m ''agent_id'', ag_algorithm = get_str m ''algorithm'',
      ag_public_key = get_str m ''public_key'', ag_encrypted_key = get_str m ''encrypted_private_key'',
      ag_protection = get_str m ''private_key_protection''\<rparr>"

definition DecodeIdentity :: "id_lib \<Rightarrow> string \<Rightarrow> id_error + AgentConfig" where
  "DecodeIdentity L data =
     (case il_parse L data of
        None \<Rightarrow> Inl JsonInvalid
      | Some j \<Rightarrow>
          (case unmarshal False agent_config_fields j of
             (m, bad) \<Rightarrow>
               let cfg = config_of m
               in if bad then Inl JsonInvalid
                  else if length (ag_id cfg) \<noteq> 36 \<or> \<not> il_uuid_ok L (ag_id cfg) then Inl BadAgentID
                  else if ag_algorithm cfg \<noteq> keyAlgorithm then Inl BadAlgorithm
                  else if ag_protection cfg \<noteq> '''' \<and> ag_protection cfg \<noteq> MachinePrivateKeyProtection
                  then Inl BadProtection
                  else if (case b64_decode False (ag_public_key cfg) of None \<Rightarrow> True | Some p \<Rightarrow> length p \<noteq> 32)
                  then Inl BadPublicKey
                  else if (case b64_decode False (ag_encrypted_key cfg) of None \<Rightarrow> True | Some p \<Rightarrow> p = [])
                  then Inl BadEncryptedKey
                  else Inr cfg))"

section \<open>Files\<close>

datatype io_error = Missing | Failed

text \<open>
  A read gives an error or the contents; a write says whether it succeeded.  \<open>exclusive\<close> writes
  refuse existing targets.
\<close>

type_synonym 's reader = "'s \<Rightarrow> string \<Rightarrow> (io_error + string) \<times> 's"
type_synonym 's writer = "'s \<Rightarrow> string \<Rightarrow> string \<Rightarrow> bool \<Rightarrow> bool \<times> 's"

text \<open>\<^verbatim>\<open>readIdentity\<close>; that the file is regular is part of a successful read.\<close>

definition readIdentity :: "id_lib \<Rightarrow> 's reader \<Rightarrow> string \<Rightarrow> 's \<Rightarrow> (id_error + string \<times> AgentConfig) \<times> 's" where
  "readIdentity L rd path s =
     (case rd s path of
        (Inl Missing, s1) \<Rightarrow> (Inl FileMissing, s1)
      | (Inl Failed, s1) \<Rightarrow> (Inl FileFailed, s1)
      | (Inr data, s1) \<Rightarrow>
          if length data > 2 ^ 20 then (Inl NotBoundedFile, s1)
          else (case DecodeIdentity L data of Inl e \<Rightarrow> (Inl e, s1) | Inr cfg \<Rightarrow> (Inr (data, cfg), s1)))"

text \<open>
  \<^verbatim>\<open>addKeyPairWithProtection\<close>; \<open>keys\<close> is the new key pair, if one could be generated, and \<open>protect\<close>
  the DPAPI call.
\<close>

definition addKeyPairWithProtection ::
    "(string \<times> string) option \<Rightarrow> (bool \<Rightarrow> string \<Rightarrow> string option) \<Rightarrow> bool \<Rightarrow> AgentConfig \<Rightarrow> AgentConfig option" where
  "addKeyPairWithProtection keys protect machine cfg =
     (case keys of
        None \<Rightarrow> None
      | Some (public, private) \<Rightarrow>
          (case protect machine private of
             None \<Rightarrow> None
           | Some encrypted \<Rightarrow>
               Some (cfg\<lparr>ag_algorithm := keyAlgorithm, ag_public_key := b64_encode public,
                         ag_encrypted_key := b64_encode encrypted,
                         ag_protection := (if machine then MachinePrivateKeyProtection else '''')\<rparr>)))"

text \<open>\<^verbatim>\<open>json.MarshalIndent\<close> of an \<^verbatim>\<open>AgentConfig\<close>: empty fields with \<^verbatim>\<open>omitempty\<close> are left out.\<close>

definition config_json :: "AgentConfig \<Rightarrow> json" where
  "config_json cfg =
     JObj ([(''agent_id'', JStr (ag_id cfg))]
       @ filter (\<lambda>(k, j). j \<noteq> JStr '''')
           [(''algorithm'', JStr (ag_algorithm cfg)), (''public_key'', JStr (ag_public_key cfg)),
            (''encrypted_private_key'', JStr (ag_encrypted_key cfg)),
            (''private_key_protection'', JStr (ag_protection cfg))])"

text \<open>What creating an identity draws from its surroundings.\<close>

record create_env =
  cr_uuid :: string
  cr_keys :: "(string \<times> string) option"
  cr_protect :: "bool \<Rightarrow> string \<Rightarrow> string option"
  cr_directory_ok :: bool

definition loadIdentity ::
    "id_lib \<Rightarrow> 's reader \<Rightarrow> 's writer \<Rightarrow> create_env \<Rightarrow> bool \<Rightarrow> bool \<Rightarrow> string \<Rightarrow> 's \<Rightarrow> (id_error + AgentConfig) \<times> 's" where
  "loadIdentity L rd wr env allowCreate machine path s =
     (case readIdentity L rd path s of
        (Inr (data, cfg), s1) \<Rightarrow> (Inr cfg, s1)
      | (Inl e, s1) \<Rightarrow>
          if e \<noteq> FileMissing then (Inl e, s1)
          else if \<not> allowCreate then (Inl ProvisioningRequired, s1)
          else if machine \<and> \<not> cr_directory_ok env then (Inl UnprotectedDirectory, s1)
          else (case addKeyPairWithProtection (cr_keys env) (cr_protect env) machine
                       \<lparr>ag_id = cr_uuid env, ag_algorithm = keyAlgorithm, ag_public_key = '''',
                        ag_encrypted_key = '''', ag_protection = ''''\<rparr> of
                  None \<Rightarrow> (Inl KeyPairFailed, s1)
                | Some cfg \<Rightarrow>
                    (case wr s1 path (il_encode L (config_json cfg)) True of
                       (ok, s2) \<Rightarrow> if ok then (Inr cfg, s2) else (Inl CreateRefused, s2))))"

definition MigrateIdentity ::
    "id_lib \<Rightarrow> 's reader \<Rightarrow> 's writer \<Rightarrow> string \<Rightarrow> string \<Rightarrow> 's \<Rightarrow> id_error option \<times> 's" where
  "MigrateIdentity L rd wr source dest s =
     (case readIdentity L rd source s of
        (Inl e, s1) \<Rightarrow> (Some e, s1)
      | (Inr (data, src), s1) \<Rightarrow>
          (case readIdentity L rd dest s1 of
             (Inr (_, dst), s2) \<Rightarrow> (if src \<noteq> dst then Some IdentityConflict else None, s2)
           | (Inl e, s2) \<Rightarrow>
               if e \<noteq> FileMissing then (Some e, s2)
               else (case wr s2 dest data True of
                       (ok, s3) \<Rightarrow>
                         if \<not> ok then (Some MigrationRefused, s3)
                         else (case readIdentity L rd dest s3 of
                                 (Inl e, s4) \<Rightarrow> (Some e, s4)
                               | (Inr (check, _), s4) \<Rightarrow>
                                   (if check \<noteq> data then Some VerificationFailed else None, s4)))))"

section \<open>The private key\<close>

datatype key_error =
    IdentityInvalid id_error | LegacyProtection | NotValidated | CannotDecrypt | BadKeyLength | Inconsistent
  | PublicKeyMismatch

definition validatePrivateKey :: "id_lib \<Rightarrow> string \<Rightarrow> string \<Rightarrow> key_error option" where
  "validatePrivateKey L key publicKey =
     (if length key \<noteq> 64 then Some BadKeyLength
      else let derived = il_derive L (take 32 key)
           in if key \<noteq> derived then Some Inconsistent
              else case b64_decode False publicKey of
                     None \<Rightarrow> Some PublicKeyMismatch
                   | Some public \<Rightarrow>
                       if length public \<noteq> 32 \<or> drop 32 derived \<noteq> public then Some PublicKeyMismatch else None)"

definition privateKeyFromIdentity ::
    "id_lib \<Rightarrow> string \<Rightarrow> bool \<Rightarrow> (string \<Rightarrow> string option) \<Rightarrow> key_error + string" where
  "privateKeyFromIdentity L data requireMachine unprotect =
     (case DecodeIdentity L data of
        Inl e \<Rightarrow> Inl (IdentityInvalid e)
      | Inr cfg \<Rightarrow>
          if requireMachine \<and> ag_protection cfg \<noteq> MachinePrivateKeyProtection then Inl LegacyProtection
          else case b64_decode False (ag_encrypted_key cfg) of
                 None \<Rightarrow> Inl (IdentityInvalid BadEncryptedKey)
               | Some ciphertext \<Rightarrow>
                   (case unprotect ciphertext of
                      None \<Rightarrow> Inl CannotDecrypt
                    | Some key \<Rightarrow>
                        (case validatePrivateKey L key (ag_public_key cfg) of
                           Some e \<Rightarrow> Inl e
                         | None \<Rightarrow> Inr key)))"

text \<open>\<^verbatim>\<open>LoadPrivateKey\<close>; \<open>validated\<close> is the answer of \<^verbatim>\<open>protectedpath.ValidateFile\<close>.\<close>

definition LoadPrivateKey ::
    "id_lib \<Rightarrow> 's reader \<Rightarrow> bool \<Rightarrow> (string \<Rightarrow> string option) \<Rightarrow> string \<Rightarrow> 's \<Rightarrow> (key_error + string) \<times> 's" where
  "LoadPrivateKey L rd validated unprotect path s =
     (case readIdentity L rd path s of
        (Inl e, s1) \<Rightarrow> (Inl (IdentityInvalid e), s1)
      | (Inr (data, cfg), s1) \<Rightarrow>
          if ag_protection cfg \<noteq> MachinePrivateKeyProtection then (Inl LegacyProtection, s1)
          else if \<not> validated then (Inl NotValidated, s1)
          else (privateKeyFromIdentity L data True unprotect, s1))"

lemma LoadPrivateKey_ok:
  assumes "LoadPrivateKey L rd validated unprotect path s = (Inr key, s')"
  shows "validated \<and> length key = 64 \<and> il_derive L (take 32 key) = key
    \<and> (\<exists>data cfg s1. readIdentity L rd path s = (Inr (data, cfg), s1)
         \<and> ag_protection cfg = MachinePrivateKeyProtection
         \<and> b64_decode False (ag_public_key cfg) = Some (drop 32 key))"
proof -
  obtain r s1 where r: "readIdentity L rd path s = (r, s1)" by fastforce
  then obtain data cfg where d: "r = Inr (data, cfg)"
    using assms by (cases r) (auto simp: LoadPrivateKey_def)
  with r assms have m: "ag_protection cfg = MachinePrivateKeyProtection" "validated"
    and k: "privateKeyFromIdentity L data True unprotect = Inr key"
    by (auto simp: LoadPrivateKey_def split: if_splits)
  have "DecodeIdentity L data = Inr cfg"
    using r d by (auto simp: readIdentity_def split: prod.splits sum.splits io_error.splits if_splits)
  with k have "validatePrivateKey L key (ag_public_key cfg) = None"
    by (auto simp: privateKeyFromIdentity_def split: if_splits option.splits)
  with r d m show ?thesis
    by (auto simp: validatePrivateKey_def Let_def split: if_splits option.splits)
qed

text \<open>
  A private key is handed out only when it is the whole Ed25519 key that its own seed
  derives, its public half is the one of the identity file, and the file is protected for the
  machine and validated.
\<close>

theorem private_key_matches_identity:
  assumes "LoadPrivateKey L rd validated unprotect path s = (Inr key, s')"
  shows "validated \<and> length key = 64 \<and> il_derive L (take 32 key) = key
    \<and> (\<exists>data cfg s1. readIdentity L rd path s = (Inr (data, cfg), s1)
         \<and> ag_protection cfg = MachinePrivateKeyProtection
         \<and> b64_decode False (ag_public_key cfg) = Some (drop 32 key))"
  using assms by (rule LoadPrivateKey_ok)

section \<open>Migration of the key protection\<close>

record codec =
  co_protect :: "string \<Rightarrow> string option"
  co_unprotect :: "string \<Rightarrow> string option"

datatype migration_error =
    CannotReadIdentity | KeyRefused key_error | CannotReadEnrollment | EnrollmentMalformed | EnrollmentBinding
  | CannotBackup | BackupDiffers | BackupUnverified | ProtectFailed | EmptyCiphertext | CannotPrepare
  | CandidateUnverified | IdentityChanged | EnrollmentChanged
  | UnchangedVerified | RestoredVerified | RollbackUnverified

definition privateKeyBackupSuffix :: string where
  "privateKeyBackupSuffix = ''.dpapi-user-v1.bak''"

definition enrollment_fields :: "fval fields" where
  "enrollment_fields =
     [(''agent_id'', conv_string), (''public_key_sha256'', conv_string), (''api'', conv_string),
      (''verified'', conv_bool)]"

definition validateEnrollmentKeyBinding ::
    "id_lib \<Rightarrow> (string \<Rightarrow> string) \<Rightarrow> string \<Rightarrow> AgentConfig \<Rightarrow> migration_error option" where
  "validateEnrollmentKeyBinding L sha data cfg =
     (if length data > 2 ^ 20 then Some EnrollmentMalformed
      else case il_parse L data of
             None \<Rightarrow> Some EnrollmentMalformed
           | Some j \<Rightarrow>
               (case unmarshal False enrollment_fields j of
                  (m, bad) \<Rightarrow>
                    let public = (case b64_decode False (ag_public_key cfg) of None \<Rightarrow> [] | Some p \<Rightarrow> p)
                    in if bad then Some EnrollmentMalformed
                       else if get_str m ''agent_id'' \<noteq> ag_id cfg
                               \<or> get_str m ''public_key_sha256'' \<noteq> hex_encode (sha public)
                       then Some EnrollmentBinding
                       else None))"

definition verifyMigratedIdentity ::
    "id_lib \<Rightarrow> string \<Rightarrow> AgentConfig \<Rightarrow> string \<Rightarrow> (string \<Rightarrow> string option) \<Rightarrow> bool" where
  "verifyMigratedIdentity L data original key unprotect =
     (if length data > 2 ^ 20 then False
      else case DecodeIdentity L data of
             Inl _ \<Rightarrow> False
           | Inr cfg \<Rightarrow>
               if ag_id cfg \<noteq> ag_id original \<or> ag_algorithm cfg \<noteq> ag_algorithm original
                  \<or> ag_public_key cfg \<noteq> ag_public_key original
               then False
               else (case privateKeyFromIdentity L data True unprotect of
                       Inl _ \<Rightarrow> False
                     | Inr check \<Rightarrow> key = check))"

text \<open>
  The identity as a map from keys to raw values, with two of them replaced and written back with
  the keys in order.
\<close>

definition set_member :: "string \<Rightarrow> json \<Rightarrow> (string \<times> json) list \<Rightarrow> (string \<times> json) list" where
  "set_member k v ms = filter (\<lambda>m. fst m \<noteq> k) ms @ [(k, v)]"

definition last_members :: "(string \<times> json) list \<Rightarrow> (string \<times> json) list" where
  "last_members ms = foldl (\<lambda>acc (k, v). set_member k v acc) [] ms"

definition candidate_json :: "string \<Rightarrow> json \<Rightarrow> json option" where
  "candidate_json ciphertext j =
     (case j of
        JObj ms \<Rightarrow>
          Some (JObj (sort_key fst
            (set_member ''private_key_protection'' (JStr MachinePrivateKeyProtection)
              (set_member ''encrypted_private_key'' (JStr (b64_encode ciphertext)) (last_members ms)))))
      | _ \<Rightarrow> None)"

definition rollbackPrivateKey ::
    "'s reader \<Rightarrow> 's writer \<Rightarrow> string \<Rightarrow> string \<Rightarrow> 's \<Rightarrow> migration_error \<times> 's" where
  "rollbackPrivateKey rd wr path original s =
     (case rd s path of
        (r, s1) \<Rightarrow>
          if r = Inr original then (UnchangedVerified, s1)
          else (case wr s1 path original False of
                  (_, s2) \<Rightarrow>
                    (case rd s2 path of
                       (r2, s3) \<Rightarrow> (if r2 \<noteq> Inr original then RollbackUnverified else RestoredVerified, s3))))"

text \<open>The backup, created exclusively or found equal, and read back.\<close>

definition make_backup ::
    "'s reader \<Rightarrow> 's writer \<Rightarrow> string \<Rightarrow> string \<Rightarrow> 's \<Rightarrow> migration_error option \<times> 's" where
  "make_backup rd wr backup original s =
     (case rd s backup of
        (r, s1) \<Rightarrow>
          let (e, s2) =
            (if r = Inl Missing
             then (case wr s1 backup original True of (ok, s2) \<Rightarrow> (if ok then None else Some CannotBackup, s2))
             else if r \<noteq> Inr original then (Some BackupDiffers, s1) else (None, s1))
          in case e of
               Some _ \<Rightarrow> (e, s2)
             | None \<Rightarrow>
                 (case rd s2 backup of
                    (check, s3) \<Rightarrow> (if check \<noteq> Inr original then Some BackupUnverified else None, s3)))"

text \<open>The new contents of the identity file, verified before anything is replaced.\<close>

definition make_candidate ::
    "id_lib \<Rightarrow> codec \<Rightarrow> string \<Rightarrow> AgentConfig \<Rightarrow> string \<Rightarrow> migration_error + string" where
  "make_candidate L codec original cfg key =
     (case co_protect codec key of
        None \<Rightarrow> Inl ProtectFailed
      | Some ciphertext \<Rightarrow>
          if ciphertext = [] then Inl EmptyCiphertext
          else case Option.bind (il_parse L original) (candidate_json ciphertext) of
                 None \<Rightarrow> Inl CannotPrepare
               | Some j \<Rightarrow>
                   if \<not> verifyMigratedIdentity L (il_encode L j) cfg key (co_unprotect codec)
                   then Inl CandidateUnverified
                   else Inr (il_encode L j))"

text \<open>The replacement: both files must still be what was read, and the result is read back.\<close>

definition replace_identity ::
    "id_lib \<Rightarrow> 's reader \<Rightarrow> 's writer \<Rightarrow> codec \<Rightarrow> string \<Rightarrow> string \<Rightarrow> string \<Rightarrow> AgentConfig \<Rightarrow> string
      \<Rightarrow> string option \<Rightarrow> string \<Rightarrow> 's \<Rightarrow> migration_error option \<times> 's" where
  "replace_identity L rd wr codec path enrollmentPath original cfg key enrollment candidate s =
     (case rd s path of
        (current, s1) \<Rightarrow>
          if current \<noteq> Inr original then (Some IdentityChanged, s1)
          else case rd s1 enrollmentPath of
            (e, s2) \<Rightarrow>
              if e \<noteq> (case enrollment of None \<Rightarrow> Inl Missing | Some d \<Rightarrow> Inr d) then (Some EnrollmentChanged, s2)
              else (case wr s2 path candidate False of
                      (ok, s3) \<Rightarrow>
                        if \<not> ok then map_prod Some id (rollbackPrivateKey rd wr path original s3)
                        else (case rd s3 path of
                                (published, s4) \<Rightarrow>
                                  if published \<noteq> Inr candidate
                                     \<or> \<not> verifyMigratedIdentity L candidate cfg key (co_unprotect codec)
                                  then map_prod Some id (rollbackPrivateKey rd wr path original s4)
                                  else (None, s4))))"

text \<open>\<^verbatim>\<open>migratePrivateKeyProtection\<close>; the flag of a success is \<^verbatim>\<open>AlreadyMigrated\<close>.\<close>

definition migratePrivateKeyProtection ::
    "id_lib \<Rightarrow> (string \<Rightarrow> string) \<Rightarrow> 's reader \<Rightarrow> 's writer \<Rightarrow> codec \<Rightarrow> string \<Rightarrow> string \<Rightarrow> 's
      \<Rightarrow> (migration_error + bool) \<times> 's" where
  "migratePrivateKeyProtection L sha rd wr codec path enrollmentPath s =
     (case rd s path of
        (Inl _, s1) \<Rightarrow> (Inl CannotReadIdentity, s1)
      | (Inr original, s1) \<Rightarrow>
          (case DecodeIdentity L original of
             Inl e \<Rightarrow> (Inl (KeyRefused (IdentityInvalid e)), s1)
           | Inr cfg \<Rightarrow>
               (case privateKeyFromIdentity L original False (co_unprotect codec) of
                  Inl e \<Rightarrow> (Inl (KeyRefused e), s1)
                | Inr key \<Rightarrow>
                    (case rd s1 enrollmentPath of
                       (er, s2) \<Rightarrow>
                         if er = Inl Failed then (Inl CannotReadEnrollment, s2)
                         else
                           let enrollment = (case er of Inl _ \<Rightarrow> None | Inr d \<Rightarrow> Some d)
                           in case (case enrollment of None \<Rightarrow> None
                                    | Some d \<Rightarrow> validateEnrollmentKeyBinding L sha d cfg) of
                                Some e \<Rightarrow> (Inl e, s2)
                              | None \<Rightarrow>
                                  if ag_protection cfg = MachinePrivateKeyProtection then (Inr True, s2)
                                  else (case make_backup rd wr (path @ privateKeyBackupSuffix) original s2 of
                                          (Some e, s3) \<Rightarrow> (Inl e, s3)
                                        | (None, s3) \<Rightarrow>
                                            (case make_candidate L codec original cfg key of
                                               Inl e \<Rightarrow> (Inl e, s3)
                                             | Inr candidate \<Rightarrow>
                                                 (case replace_identity L rd wr codec path enrollmentPath original
                                                         cfg key enrollment candidate s3 of
                                                    (Some e, s4) \<Rightarrow> (Inl e, s4)
                                                  | (None, s4) \<Rightarrow> (Inr False, s4))))))))"

section \<open>What the code relies on\<close>

text \<open>
  Reads report what is there and change nothing; an exclusive write never replaces; a write that
  fails has left the old contents or the new ones, nothing in between; no write touches another
  file.
\<close>

locale file_store =
  fixes rd :: "'s \<Rightarrow> string \<Rightarrow> (io_error + string) \<times> 's"
    and wr :: "'s \<Rightarrow> string \<Rightarrow> string \<Rightarrow> bool \<Rightarrow> bool \<times> 's"
    and contents :: "'s \<Rightarrow> string \<Rightarrow> string option"
  assumes read_pure: "rd s p = (r, s') \<Longrightarrow> contents s' = contents s"
    and read_data: "rd s p = (Inr d, s') \<Longrightarrow> contents s p = Some d"
    and read_missing: "rd s p = (Inl Missing, s') \<Longrightarrow> contents s p = None"
    and write_other: "wr s p d x = (ok, s') \<Longrightarrow> q \<noteq> p \<Longrightarrow> contents s' q = contents s q"
    and write_ok: "wr s p d x = (True, s') \<Longrightarrow> contents s' p = Some d"
    and write_either: "wr s p d x = (ok, s') \<Longrightarrow> contents s' p = contents s p \<or> contents s' p = Some d"
    and write_exclusive: "wr s p d True = (ok, s') \<Longrightarrow> contents s p = Some c \<Longrightarrow> contents s' p = Some c \<and> \<not> ok"
begin

lemma readIdentity_pure: "readIdentity L rd path s = (r, s') \<Longrightarrow> contents s' = contents s"
  by (auto simp: readIdentity_def split: prod.splits sum.splits io_error.splits if_splits dest: read_pure)

lemma readIdentity_data: "readIdentity L rd path s = (Inr (data, cfg), s') \<Longrightarrow> contents s path = Some data"
  by (auto simp: readIdentity_def split: prod.splits sum.splits io_error.splits if_splits dest: read_data)

lemma write_keeps: "wr s p d True = (ok, s') \<Longrightarrow> contents s q = Some c \<Longrightarrow> contents s' q = Some c"
  using write_exclusive write_other by metis

lemma loadIdentity_keeps:
  assumes "loadIdentity L rd wr env create machine path s = (r, s')" and "contents s q = Some c"
  shows "contents s' q = Some c"
proof -
  obtain r1 s1 where r1: "readIdentity L rd path s = (r1, s1)" by fastforce
  have "contents s1 q = Some c" using readIdentity_pure [OF r1] assms(2) by simp
  with assms(1) r1 show ?thesis
    by (auto simp: loadIdentity_def split: sum.splits if_splits option.splits prod.splits dest: write_keeps)
qed

lemma MigrateIdentity_keeps:
  assumes "MigrateIdentity L rd wr source dest s = (r, s')" and "contents s q = Some c"
  shows "contents s' q = Some c"
proof -
  obtain r1 s1 where r1: "readIdentity L rd source s = (r1, s1)" by fastforce
  obtain r2 s2 where r2: "readIdentity L rd dest s1 = (r2, s2)" by fastforce
  have k: "contents s1 q = Some c" "contents s2 q = Some c"
    using readIdentity_pure [OF r1] readIdentity_pure [OF r2] assms(2) by simp_all
  have w: "wr s2 dest data True = (ok, s3) \<Longrightarrow> contents s3 q = Some c" for data ok s3
    using write_keeps k(2) by blast
  have "readIdentity L rd dest s3 = (r4, s4) \<Longrightarrow> contents s4 = contents s3" for s3 r4 s4
    by (rule readIdentity_pure)
  with w k assms(1) r1 r2 show ?thesis
    by (auto simp: MigrateIdentity_def split: sum.splits if_splits prod.splits)
qed

lemma MigrateIdentity_copies:
  assumes "MigrateIdentity L rd wr source dest s = (None, s')"
  shows "\<exists>data src. contents s source = Some data \<and> DecodeIdentity L data = Inr src
    \<and> (\<exists>data' dst. contents s' dest = Some data' \<and> DecodeIdentity L data' = Inr dst \<and> dst = src
         \<and> (contents s dest = None \<longrightarrow> data' = data))"
proof -
  have dec: "readIdentity L rd p t = (Inr (data, cfg), t') \<Longrightarrow>
      contents t p = Some data \<and> DecodeIdentity L data = Inr cfg \<and> contents t' = contents t" for p t data cfg t'
    using readIdentity_data readIdentity_pure
    by (fastforce simp: readIdentity_def split: prod.splits sum.splits io_error.splits if_splits)
  obtain r1 s1 where r1: "readIdentity L rd source s = (r1, s1)" by fastforce
  then obtain data src where d: "r1 = Inr (data, src)"
    using assms by (cases r1) (auto simp: MigrateIdentity_def)
  obtain r2 s2 where r2: "readIdentity L rd dest s1 = (r2, s2)" by fastforce
  note i1 = dec [OF r1 [unfolded d]]
  show ?thesis
  proof (cases r2)
    case (Inr x)
    obtain data' dst where x: "x = (data', dst)" by fastforce
    then have "readIdentity L rd dest s1 = (Inr (data', dst), s2)" using r2 Inr by simp
    note i2 = dec [OF this]
    have "src = dst" "s' = s2" using assms r1 r2 d Inr x by (auto simp: MigrateIdentity_def split: if_splits)
    with i1 i2 show ?thesis by fastforce
  next
    case (Inl e)
    have e: "e = FileMissing" using assms r1 r2 d Inl by (auto simp: MigrateIdentity_def split: if_splits)
    obtain ok s3 where w: "wr s2 dest data True = (ok, s3)" by fastforce
    obtain r4 s4 where r4: "readIdentity L rd dest s3 = (r4, s4)" by fastforce
    have "ok" "s' = s4" "\<exists>cfg. r4 = Inr (data, cfg)"
      using assms r1 r2 d Inl e w r4 by (auto simp: MigrateIdentity_def split: if_splits sum.splits prod.splits)
    then obtain cfg where "readIdentity L rd dest s3 = (Inr (data, cfg), s')" using r4 by blast
    note i4 = dec [OF this]
    then have "cfg = src" using i1 by simp
    with i1 i4 show ?thesis by fastforce
  qed
qed

end

context file_store
begin

lemma rollback_safe:
  assumes "rollbackPrivateKey rd wr path original s = (e, s')"
    and "contents s path = Some original \<or> contents s path = Some candidate"
  shows "(\<forall>q. q \<noteq> path \<longrightarrow> contents s' q = contents s q)
    \<and> (contents s' path = Some original \<or> (contents s' path = Some candidate \<and> e = RollbackUnverified))"
proof -
  obtain r s1 where r: "rd s path = (r, s1)" by fastforce
  note c1 = read_pure [OF r]
  obtain ok s2 where w: "wr s1 path original False = (ok, s2)" by fastforce
  obtain r2 s3 where r2: "rd s2 path = (r2, s3)" by fastforce
  note c3 = read_pure [OF r2]
  have d: "r = Inr original \<Longrightarrow> contents s path = Some original" using read_data r by blast
  have d2: "r2 = Inr original \<Longrightarrow> contents s2 path = Some original" using read_data r2 by blast
  have o: "contents s2 q = contents s q" if "q \<noteq> path" for q using write_other [OF w that] c1 by simp
  have p: "contents s2 path = Some original \<or> contents s2 path = Some candidate"
    using write_either [OF w] c1 assms(2) by metis
  show ?thesis
  proof (cases "r = Inr original")
    case True
    with assms(1) r c1 d show ?thesis by (simp add: rollbackPrivateKey_def)
  next
    case False
    with assms(1) r w r2 have "s' = s3" "e = (if r2 \<noteq> Inr original then RollbackUnverified else RestoredVerified)"
      by (simp_all add: rollbackPrivateKey_def)
    with o p d2 c3 show ?thesis by (cases "r2 = Inr original") auto
  qed
qed

lemma backup_safe:
  assumes "make_backup rd wr backup original s = (e, s')"
  shows "(\<forall>q. q \<noteq> backup \<longrightarrow> contents s' q = contents s q)
    \<and> (\<forall>b. contents s backup = Some b \<longrightarrow> contents s' backup = Some b)
    \<and> (e = None \<longrightarrow> contents s' backup = Some original) \<and> e \<noteq> Some RollbackUnverified"
proof -
  obtain r s1 where r: "rd s backup = (r, s1)" by fastforce
  note c1 = read_pure [OF r]
  obtain ok s2 where w: "wr s1 backup original True = (ok, s2)" by fastforce
  have fin: "rd t backup = (check, t') \<Longrightarrow> contents t' = contents t \<and>
      (check = Inr original \<longrightarrow> contents t backup = Some original)" for t check t'
    using read_pure read_data by blast
  have keep: "contents s q = Some b \<Longrightarrow> contents s2 q = Some b" for q b using write_keeps [OF w] c1 by simp
  have other: "q \<noteq> backup \<Longrightarrow> contents s2 q = contents s q" for q using write_other [OF w] c1 by simp
  show ?thesis
  proof (cases "r = Inl Missing")
    case True
    with assms r w show ?thesis using fin keep other c1
      by (cases ok; cases "rd s2 backup") (auto simp: make_backup_def split: if_splits)
  next
    case False
    with assms r show ?thesis using fin c1
      by (cases "r = Inr original"; cases "rd s1 backup") (auto simp: make_backup_def split: if_splits)
  qed
qed

lemma replace_safe:
  assumes "replace_identity L rd wr codec path enrollmentPath original cfg key enrollment candidate s = (e, s')"
    and "contents s path = Some original"
  shows "(\<forall>q. q \<noteq> path \<longrightarrow> contents s' q = contents s q)
    \<and> (contents s' path = Some original \<or> contents s' path = Some candidate)
    \<and> (e = None \<longrightarrow> contents s' path = Some candidate)
    \<and> (e \<noteq> None \<and> e \<noteq> Some RollbackUnverified \<longrightarrow> contents s' path = Some original)"
proof -
  obtain cur s1 where r1: "rd s path = (cur, s1)" by fastforce
  obtain er s2 where r2: "rd s1 enrollmentPath = (er, s2)" by fastforce
  obtain ok s3 where w: "wr s2 path candidate False = (ok, s3)" by fastforce
  obtain pub s4 where r4: "rd s3 path = (pub, s4)" by fastforce
  have c: "contents s1 = contents s" "contents s2 = contents s" "contents s4 = contents s3"
    using read_pure [OF r1] read_pure [OF r2] read_pure [OF r4] by simp_all
  have o: "contents s3 q = contents s q" if "q \<noteq> path" for q using write_other [OF w that] c by simp
  have p3: "contents s3 path = Some original \<or> contents s3 path = Some candidate"
    using write_either [OF w] c assms(2) by metis
  have rb: "map_prod Some id (rollbackPrivateKey rd wr path original t) = (e, s') \<Longrightarrow>
      contents t = contents s3 \<Longrightarrow> ?thesis" for t
  proof -
    assume m: "map_prod Some id (rollbackPrivateKey rd wr path original t) = (e, s')"
      and t: "contents t = contents s3"
    obtain e' t' where b: "rollbackPrivateKey rd wr path original t = (e', t')" by fastforce
    with m have "e = Some e'" "s' = t'" by simp_all
    with rollback_safe [OF b, of candidate] t o p3 show ?thesis by auto
  qed
  let ?en = "case enrollment of None \<Rightarrow> Inl Missing | Some d \<Rightarrow> Inr d"
  have eq: "(e, s') =
      (if cur \<noteq> Inr original then (Some IdentityChanged, s1)
       else if er \<noteq> ?en then (Some EnrollmentChanged, s2)
       else if \<not> ok then map_prod Some id (rollbackPrivateKey rd wr path original s3)
       else if pub \<noteq> Inr candidate \<or> \<not> verifyMigratedIdentity L candidate cfg key (co_unprotect codec)
       then map_prod Some id (rollbackPrivateKey rd wr path original s4)
       else (None, s4))"
    unfolding assms(1) [symmetric] replace_identity_def by (simp add: r1 r2 w r4)
  consider (stop) "e \<noteq> None" "contents s' = contents s" "e \<noteq> Some RollbackUnverified"
    | (roll) t where "map_prod Some id (rollbackPrivateKey rd wr path original t) = (e, s')" "contents t = contents s3"
    | (ok) "e = None" "s' = s4" "pub = Inr candidate"
  proof (cases "cur \<noteq> Inr original \<or> er \<noteq> ?en")
    case True
    with eq c that(1) show ?thesis by (simp split: if_splits)
  next
    case False
    with eq c(3) that(2,3) show ?thesis by (cases ok) (simp_all split: if_splits)
  qed
  then show ?thesis
  proof cases
    case stop
    with assms(2) show ?thesis by auto
  next
    case (roll t)
    then show ?thesis by (rule rb)
  next
    case ok
    have "contents s3 path = Some candidate" using read_data r4 ok(3) by blast
    with ok o c show ?thesis by simp
  qed
qed

lemma migration_safe:
  assumes "migratePrivateKeyProtection L sha rd wr codec path enrollmentPath s = (r, s')"
  shows "(\<forall>q. q \<noteq> path \<and> q \<noteq> path @ privateKeyBackupSuffix \<longrightarrow> contents s' q = contents s q)
    \<and> (\<forall>b. contents s (path @ privateKeyBackupSuffix) = Some b \<longrightarrow>
          contents s' (path @ privateKeyBackupSuffix) = Some b)
    \<and> (contents s' path = contents s path
       \<or> (\<exists>original cfg key candidate. contents s path = Some original \<and> contents s' path = Some candidate
            \<and> contents s' (path @ privateKeyBackupSuffix) = Some original
            \<and> DecodeIdentity L original = Inr cfg
            \<and> privateKeyFromIdentity L original False (co_unprotect codec) = Inr key
            \<and> verifyMigratedIdentity L candidate cfg key (co_unprotect codec)
            \<and> (r = Inr False \<or> r = Inl RollbackUnverified)))
    \<and> (r = Inr False \<longrightarrow> (\<exists>original cfg key candidate. contents s path = Some original
            \<and> contents s' path = Some candidate
            \<and> contents s' (path @ privateKeyBackupSuffix) = Some original
            \<and> DecodeIdentity L original = Inr cfg
            \<and> privateKeyFromIdentity L original False (co_unprotect codec) = Inr key
            \<and> verifyMigratedIdentity L candidate cfg key (co_unprotect codec)))"
proof (cases "contents s' = contents s \<and> r \<noteq> Inr False")
  case True
  then show ?thesis by simp
next
  case False
  let ?backup = "path @ privateKeyBackupSuffix"
  have ne: "?backup \<noteq> path" by (simp add: privateKeyBackupSuffix_def)
  obtain r1 s1 where r1: "rd s path = (r1, s1)" by fastforce
  note c1 = read_pure [OF r1]
  obtain er s2 where r2: "rd s1 enrollmentPath = (er, s2)" by fastforce
  note c2 = read_pure [OF r2]
  from assms False r1 c1 obtain original where o: "r1 = Inr original"
    by (cases r1) (auto simp: migratePrivateKeyProtection_def)
  from assms False r1 o c1 obtain cfg where cfg: "DecodeIdentity L original = Inr cfg"
    by (cases "DecodeIdentity L original") (auto simp: migratePrivateKeyProtection_def)
  from assms False r1 o c1 cfg obtain key where key: "privateKeyFromIdentity L original False (co_unprotect codec) = Inr key"
    by (cases "privateKeyFromIdentity L original False (co_unprotect codec)") (auto simp: migratePrivateKeyProtection_def)
  obtain be s3 where b: "make_backup rd wr ?backup original s2 = (be, s3)" by fastforce
  note bs = backup_safe [OF b]
  have os: "contents s path = Some original" using read_data r1 o by blast
  let ?en = "case er of Inl _ \<Rightarrow> None | Inr d \<Rightarrow> Some d"
  have m: "(case (be, s3) of
        (Some e, s3) \<Rightarrow> (Inl e, s3)
      | (None, s3) \<Rightarrow>
          (case make_candidate L codec original cfg key of
             Inl e \<Rightarrow> (Inl e, s3)
           | Inr candidate \<Rightarrow>
               (case replace_identity L rd wr codec path enrollmentPath original cfg key ?en candidate s3 of
                  (Some e, s4) \<Rightarrow> (Inl e, s4)
                | (None, s4) \<Rightarrow> (Inr False, s4)))) = (r, s')"
    using assms False r1 o cfg key r2 c1 c2 b
    by (auto simp: migratePrivateKeyProtection_def Let_def split: if_splits option.splits sum.splits)
  have p3: "contents s3 path = Some original" using bs ne c1 c2 os by metis
  show ?thesis
  proof (cases "be = None \<and> (\<exists>candidate. make_candidate L codec original cfg key = Inr candidate)")
    case False
    with m have "s' = s3" "r \<noteq> Inr False" by (auto split: option.splits sum.splits)
    with bs p3 c1 c2 os show ?thesis by simp
  next
    case True
    then obtain candidate where mc: "make_candidate L codec original cfg key = Inr candidate" and be: "be = None" by blast
    obtain e s4 where rp: "replace_identity L rd wr codec path enrollmentPath original cfg key ?en candidate s3 = (e, s4)"
      by fastforce
    have v: "verifyMigratedIdentity L candidate cfg key (co_unprotect codec)"
      using mc by (auto simp: make_candidate_def split: option.splits if_splits)
    have res: "s' = s4" "r = (case e of Some x \<Rightarrow> Inl x | None \<Rightarrow> Inr False)"
      using m be mc rp by (auto split: option.splits)
    note rs = replace_safe [OF rp p3]
    have "contents s' ?backup = Some original" using rs bs be ne res by metis
    moreover have "contents s' q = contents s q" if "q \<noteq> path" "q \<noteq> ?backup" for q
      using rs bs that res c1 c2 by metis
    moreover have "contents s' ?backup = Some b" if "contents s ?backup = Some b" for b
      using rs bs ne res that c1 c2 by metis
    moreover have "contents s' path = Some original \<or> contents s' path = Some candidate \<and> (r = Inr False \<or> r = Inl RollbackUnverified)"
      using rs res by (cases e) auto
    moreover have "r = Inr False \<longrightarrow> contents s' path = Some candidate" using rs res by (cases e) auto
    ultimately show ?thesis using os cfg key v by metis
  qed
qed

end

section \<open>A disk on which everything can fail\<close>

text \<open>
  \<^verbatim>\<open>statefile.Write\<close>: a temporary file beside the target is created, written, synced and closed,
  and then linked (exclusive) or renamed.  The publication may fail, or take place although an error
  is reported.  The temporary file has a fresh name that nothing else reads; it is removed again.
\<close>

datatype publication = Published | NotPublished | PublishedWithError

record write_env =
  we_create :: bool
  we_write :: bool
  we_sync :: bool
  we_close :: bool
  we_publish :: publication

definition statefile_write ::
    "write_env \<Rightarrow> (string \<rightharpoonup> string) \<Rightarrow> string \<Rightarrow> string \<Rightarrow> bool \<Rightarrow> bool \<times> (string \<rightharpoonup> string)" where
  "statefile_write env files path data exclusive =
     (if \<not> we_create env then (False, files)
      else if \<not> (we_write env \<and> we_sync env) then (False, files)
      else if \<not> we_close env then (False, files)
      else if exclusive \<and> files path \<noteq> None then (False, files)
      else case we_publish env of
             Published \<Rightarrow> (True, files(path \<mapsto> data))
           | NotPublished \<Rightarrow> (False, files)
           | PublishedWithError \<Rightarrow> (False, files(path \<mapsto> data)))"

text \<open>The disk with the outcomes of the reads and writes to come; what is not listed works.\<close>

record disk =
  dk_files :: "string \<rightharpoonup> string"
  dk_read_fails :: "bool list"
  dk_writes :: "write_env list"

definition fine_write :: write_env where
  "fine_write = \<lparr>we_create = True, we_write = True, we_sync = True, we_close = True, we_publish = Published\<rparr>"

definition disk_read :: "disk reader" where
  "disk_read s p =
     (let s' = s\<lparr>dk_read_fails := tl (dk_read_fails s)\<rparr>
      in if dk_read_fails s \<noteq> [] \<and> hd (dk_read_fails s) then (Inl Failed, s')
         else case dk_files s p of None \<Rightarrow> (Inl Missing, s') | Some d \<Rightarrow> (Inr d, s'))"

definition disk_write :: "disk writer" where
  "disk_write s p d exclusive =
     (let env = (case dk_writes s of [] \<Rightarrow> fine_write | e # es \<Rightarrow> e)
      in case statefile_write env (dk_files s) p d exclusive of
           (ok, files) \<Rightarrow> (ok, s\<lparr>dk_files := files, dk_writes := tl (dk_writes s)\<rparr>))"

interpretation disk: file_store disk_read disk_write dk_files
  by unfold_locales
     (auto simp: disk_read_def disk_write_def statefile_write_def Let_def
       split: if_splits option.splits list.splits publication.splits)

section \<open>Properties of the identity file\<close>

text \<open>
  Neither loading, creating nor copying an identity ever changes a file that exists, whatever
  fails on the way.
\<close>

theorem existing_files_kept:
  assumes "snd (loadIdentity L disk_read disk_write env create machine path s) = s1
      \<or> snd (MigrateIdentity L disk_read disk_write path dest s) = s1"
    and "dk_files s q = Some c"
  shows "dk_files s1 q = Some c"
  using assms(1)
proof
  assume "snd (loadIdentity L disk_read disk_write env create machine path s) = s1"
  then obtain r where "loadIdentity L disk_read disk_write env create machine path s = (r, s1)"
    by (metis prod.collapse)
  then show ?thesis using assms(2) by (rule disk.loadIdentity_keeps)
next
  assume "snd (MigrateIdentity L disk_read disk_write path dest s) = s1"
  then obtain r where "MigrateIdentity L disk_read disk_write path dest s = (r, s1)"
    by (metis prod.collapse)
  then show ?thesis using assms(2) by (rule disk.MigrateIdentity_keeps)
qed

section \<open>Witnesses\<close>

definition sample_seed :: string where "sample_seed = replicate 32 CHR ''s''"

text \<open>A toy key derivation and a toy protection; the texts of the two identities are \<open>I\<close> and \<open>C\<close>.\<close>

definition sample_identity :: "string \<Rightarrow> string \<Rightarrow> AgentConfig" where
  "sample_identity encrypted protection =
     \<lparr>ag_id = replicate 36 CHR ''a'', ag_algorithm = ''Ed25519'', ag_public_key = b64_encode sample_seed,
      ag_encrypted_key = b64_encode encrypted, ag_protection = protection\<rparr>"

definition sample_codec :: codec where
  "sample_codec = \<lparr>co_protect = (\<lambda>k. Some (''m'' @ k)),
     co_unprotect = (\<lambda>c. if c = [] then None else Some (tl c))\<rparr>"

definition sample_id_lib :: id_lib where
  "sample_id_lib =
     \<lparr>il_uuid_ok = (\<lambda>_. True),
      il_parse = (\<lambda>t. if t = ''I'' then Some (config_json (sample_identity (''u'' @ sample_seed @ sample_seed) ''''))
                      else if t = ''C''
                      then Some (config_json (sample_identity (''m'' @ sample_seed @ sample_seed) ''dpapi-machine-v1''))
                      else None),
      il_encode = (\<lambda>j. ''C''), il_derive = (\<lambda>seed. seed @ seed)\<rparr>"

definition sample_disk :: disk where
  "sample_disk = \<lparr>dk_files = [''id'' \<mapsto> ''I''], dk_read_fails = [], dk_writes = []\<rparr>"

lemma b64_encode_Nil_iff: "b64_encode s = [] \<longleftrightarrow> s = []"
proof -
  have "b64_encode [] = []" by code_simp
  with b64_encode_inj [of s "[]"] show ?thesis by simp
qed

lemma sample_config_of:
  assumes "sample_seed \<noteq> []"
  shows "unmarshal False agent_config_fields (config_json (sample_identity (u # sample_seed @ sample_seed) protection))
     = (m, bad) \<Longrightarrow> \<not> bad \<and> config_of m = sample_identity (u # sample_seed @ sample_seed) protection"
  using assms
  by (auto simp: config_json_def sample_identity_def unmarshal_def agent_config_fields_def find_field_def
      conv_string_def config_of_def get_str_def b64_encode_Nil_iff split: if_splits)

lemma sample_seed_length [simp]: "length sample_seed = 32" "sample_seed \<noteq> []"
  by (simp_all add: sample_seed_def)

lemma sample_fields [simp]:
  "ag_id (sample_identity x p) = replicate 36 CHR ''a''" "ag_algorithm (sample_identity x p) = ''Ed25519''"
  "ag_public_key (sample_identity x p) = b64_encode sample_seed"
  "ag_encrypted_key (sample_identity x p) = b64_encode x" "ag_protection (sample_identity x p) = p"
  by (simp_all add: sample_identity_def)

lemma sample_lib_fields [simp]:
  "il_uuid_ok sample_id_lib i" "il_derive sample_id_lib seed = seed @ seed" "il_encode sample_id_lib j = ''C''"
  by (simp_all add: sample_id_lib_def)

lemma sample_decode_any:
  assumes "il_parse sample_id_lib t = Some (config_json (sample_identity (u # sample_seed @ sample_seed) protection))"
    and "protection = '''' \<or> protection = ''dpapi-machine-v1''"
  shows "DecodeIdentity sample_id_lib t = Inr (sample_identity (u # sample_seed @ sample_seed) protection)"
proof -
  obtain m bad where m: "unmarshal False agent_config_fields
      (config_json (sample_identity (u # sample_seed @ sample_seed) protection)) = (m, bad)" by fastforce
  note c = sample_config_of [OF sample_seed_length(2) m]
  show ?thesis using assms(2) c
    by (auto simp: DecodeIdentity_def assms(1) m Let_def keyAlgorithm_def MachinePrivateKeyProtection_def)
qed

lemma sample_decodes:
  "DecodeIdentity sample_id_lib ''I'' = Inr (sample_identity (''u'' @ sample_seed @ sample_seed) '''')"
  "DecodeIdentity sample_id_lib ''C'' = Inr (sample_identity (''m'' @ sample_seed @ sample_seed) ''dpapi-machine-v1'')"
  using sample_decode_any [of "''I''" "CHR ''u''" "''''"] sample_decode_any [of "''C''" "CHR ''m''" "''dpapi-machine-v1''"]
  by (simp_all add: sample_id_lib_def)

lemma sample_keys:
  "privateKeyFromIdentity sample_id_lib ''I'' False (co_unprotect sample_codec) = Inr (sample_seed @ sample_seed)"
  "privateKeyFromIdentity sample_id_lib ''C'' True (co_unprotect sample_codec) = Inr (sample_seed @ sample_seed)"
  by (simp_all add: privateKeyFromIdentity_def sample_decodes, simp_all add: sample_identity_def sample_codec_def
      validatePrivateKey_def MachinePrivateKeyProtection_def sample_id_lib_def Let_def)

theorem private_key_matches_identity_witness:
  "fst (LoadPrivateKey sample_id_lib disk_read True (co_unprotect sample_codec) ''id''
      (sample_disk\<lparr>dk_files := [''id'' \<mapsto> ''C'']\<rparr>)) = Inr (sample_seed @ sample_seed)
   \<and> il_derive sample_id_lib (take 32 (sample_seed @ sample_seed)) = sample_seed @ sample_seed"
proof -
  let ?s = "sample_disk\<lparr>dk_files := [''id'' \<mapsto> ''C'']\<rparr>"
  have "LoadPrivateKey sample_id_lib disk_read True (co_unprotect sample_codec) ''id'' ?s
      = (Inr (sample_seed @ sample_seed), ?s)"
    by (simp add: LoadPrivateKey_def readIdentity_def disk_read_def sample_disk_def Let_def sample_decodes sample_keys,
        simp add: sample_identity_def MachinePrivateKeyProtection_def)
  from private_key_matches_identity [OF this] this show ?thesis by simp
qed

theorem existing_files_kept_witness:
  "dk_files (snd (MigrateIdentity sample_id_lib disk_read disk_write ''id'' ''new'' sample_disk)) ''id'' = Some ''I''"
proof -
  have "dk_files sample_disk ''id'' = Some ''I''" by (simp add: sample_disk_def)
  from existing_files_kept [OF disjI2 [OF refl] this] show ?thesis by blast
qed

lemma sample_verified:
  "verifyMigratedIdentity sample_id_lib ''C'' (sample_identity (''u'' @ sample_seed @ sample_seed) '''')
     (sample_seed @ sample_seed) (co_unprotect sample_codec)"
  by (simp add: verifyMigratedIdentity_def sample_decodes sample_keys)

lemma sample_candidate:
  "make_candidate sample_id_lib sample_codec ''I'' (sample_identity (''u'' @ sample_seed @ sample_seed) '''')
     (sample_seed @ sample_seed) = Inr ''C''"
proof -
  have "\<exists>j. Option.bind (il_parse sample_id_lib ''I'') (candidate_json (''m'' @ sample_seed @ sample_seed)) = Some j"
    by (simp add: sample_id_lib_def config_json_def candidate_json_def)
  moreover have "co_protect sample_codec (sample_seed @ sample_seed) = Some (''m'' @ sample_seed @ sample_seed)"
    by (simp add: sample_codec_def)
  ultimately show ?thesis using sample_verified by (auto simp: make_candidate_def)
qed

end
