(* ===== verification/Enrollment.thy ===== *)
theory Enrollment
  imports Identity Backoff
begin

text \<open>
  Enrollment: \<^verbatim>\<open>service/enrollment_state.go\<close> and \<^verbatim>\<open>service/registration.go\<close>.

  The marker file is reached through the reads and writes of \<open>Identity\<close>; the server, the terminal
  and the clock answer through the rounds of an environment.  The verification loop of an
  unattended agent may retry for ever: it is a recursion over the rounds it meets, and \<open>None\<close>
  says that it is still running when they are used up.
\<close>

section \<open>The marker\<close>

record enrollmentState =
  es_agent_id :: string
  es_key_hash :: string
  es_api :: string
  es_verified :: bool

definition enrollmentFor :: "(string \<Rightarrow> string) \<Rightarrow> AgentConfig \<Rightarrow> string \<Rightarrow> bool \<Rightarrow> enrollmentState" where
  "enrollmentFor sha cfg api verified =
     (let pub = (case b64_decode False (ag_public_key cfg) of None \<Rightarrow> [] | Some p \<Rightarrow> p)
      in \<lparr>es_agent_id = ag_id cfg, es_key_hash = hex_encode (sha pub),
          es_api = trim_right_char CHR ''/'' api, es_verified = verified\<rparr>)"

definition state_json :: "enrollmentState \<Rightarrow> json" where
  "state_json st =
     JObj [(''agent_id'', JStr (es_agent_id st)), (''public_key_sha256'', JStr (es_key_hash st)),
           (''api'', JStr (es_api st)), (''verified'', JBool (es_verified st))]"

definition state_of :: "(string \<rightharpoonup> fval) \<Rightarrow> enrollmentState" where
  "state_of m =
     \<lparr>es_agent_id = get_str m ''agent_id'', es_key_hash = get_str m ''public_key_sha256'',
      es_api = get_str m ''api'', es_verified = get_bool m ''verified''\<rparr>"

datatype enroll_error =
    MarkerUnreadable | MarkerMalformed | MarkerNotWritten | ContextDone | CheckFailed | NotEnrolled
  | TokenUnreadable | TokenEmpty | RegisterFailed | IdentityMismatch

definition ReadEnrollment ::
    "id_lib \<Rightarrow> (string \<Rightarrow> string) \<Rightarrow> 's reader \<Rightarrow> string \<Rightarrow> AgentConfig \<Rightarrow> string \<Rightarrow> 's \<Rightarrow> (enroll_error + bool) \<times> 's" where
  "ReadEnrollment L sha rd path cfg api s =
     (case rd s path of
        (Inl Missing, s1) \<Rightarrow> (Inr False, s1)
      | (Inl Failed, s1) \<Rightarrow> (Inl MarkerUnreadable, s1)
      | (Inr b, s1) \<Rightarrow>
          if length b > 2 ^ 20 then (Inl MarkerMalformed, s1)
          else case il_parse L b of
                 None \<Rightarrow> (Inl MarkerMalformed, s1)
               | Some j \<Rightarrow>
                   (case unmarshal False enrollment_fields j of
                      (m, bad) \<Rightarrow>
                        if bad then (Inl MarkerMalformed, s1)
                        else (Inr (state_of m = enrollmentFor sha cfg api True), s1)))"

definition WriteEnrollment ::
    "id_lib \<Rightarrow> (string \<Rightarrow> string) \<Rightarrow> 's writer \<Rightarrow> string \<Rightarrow> AgentConfig \<Rightarrow> string \<Rightarrow> bool \<Rightarrow> 's \<Rightarrow> bool \<times> 's" where
  "WriteEnrollment L sha wr path cfg api verified s =
     wr s path (il_encode L (state_json (enrollmentFor sha cfg api verified))) False"

lemma state_json_decodes:
  "unmarshal False enrollment_fields (state_json st) = (m, bad) \<Longrightarrow> \<not> bad \<and> state_of m = st"
  by (auto simp: state_json_def unmarshal_def enrollment_fields_def find_field_def conv_string_def conv_bool_def
      state_of_def get_str_def get_bool_def)


section \<open>Asking the server\<close>

text \<open>
  \<^verbatim>\<open>agentExists\<close>: the request cannot be built, the transport fails (with the context done or
  not), or a status arrives.
\<close>

datatype exists_outcome = BuildFailed | TransportFailed bool | Status int
datatype exists_error = Permanent | ContextError | Temporary

definition agentExists :: "exists_outcome \<Rightarrow> exists_error + int" where
  "agentExists out =
     (case out of
        BuildFailed \<Rightarrow> Inl Permanent
      | TransportFailed done_ctx \<Rightarrow> if done_ctx then Inl ContextError else Inl Temporary
      | Status n \<Rightarrow>
          if n = 204 \<or> n = 404 then Inr n
          else if n = 408 \<or> n = 429 \<or> n \<ge> 500 then Inl Temporary
          else Inl Permanent)"

text \<open>\<^verbatim>\<open>readRegistrationToken\<close>: a line, and whether reading failed for another reason than its end.\<close>

definition readRegistrationToken :: "string \<times> bool \<Rightarrow> enroll_error + string" where
  "readRegistrationToken input =
     (case input of
        (line, failed) \<Rightarrow>
          if failed then Inl TokenUnreadable
          else let token = trim_space line in if token = '''' then Inl TokenEmpty else Inr token)"

text \<open>
  \<^verbatim>\<open>registerAgent\<close>: no response, or a status and a body; \<open>identifier\<close> reads the field \<^verbatim>\<open>id\<close> of the
  body, \<open>None\<close> when it is not a JSON object of that kind.
\<close>

definition register_fields :: "fval fields" where
  "register_fields = [(''id'', conv_string), (''message'', conv_string)]"

definition registerAgent :: "AgentConfig \<Rightarrow> (int \<times> json option) option \<Rightarrow> enroll_error option" where
  "registerAgent cfg response =
     (case response of
        None \<Rightarrow> Some RegisterFailed
      | Some (status, body) \<Rightarrow>
          if status < 200 \<or> status \<ge> 300 then Some RegisterFailed
          else case body of
                 None \<Rightarrow> Some RegisterFailed
               | Some j \<Rightarrow>
                   (case unmarshal False register_fields j of
                      (m, bad) \<Rightarrow>
                        if bad then Some RegisterFailed
                        else if get_str m ''id'' \<noteq> ag_id cfg then Some IdentityMismatch else None))"

definition registerResponseDebugEnabled :: "string \<Rightarrow> bool" where
  "registerResponseDebugEnabled value =
     (let v = to_lower (trim_space value) in v = ''1'' \<or> v = ''true'' \<or> v = ''yes'')"

section \<open>Ensuring enrollment\<close>

record enroll_round =
  er_context_done :: bool
  er_exists :: exists_outcome
  er_draw :: int
  er_wait_cancelled :: bool
  er_input :: "string \<times> bool"
  er_register :: "(int \<times> json option) option"

datatype enroll_action = Asked "exists_error + int" | Paused nat | ReadToken | Registered "enroll_error option"
  | Marked bool bool

text \<open>
  The loop of \<^verbatim>\<open>EnsureEnrollment\<close>; its actions, its result (\<open>None\<close> while it goes on) and the state.
\<close>

fun enroll_loop ::
    "id_lib \<Rightarrow> (string \<Rightarrow> string) \<Rightarrow> 's writer \<Rightarrow> string \<Rightarrow> AgentConfig \<Rightarrow> string \<Rightarrow> bool \<Rightarrow> backoff
      \<Rightarrow> enroll_round list \<Rightarrow> 's \<Rightarrow> enroll_action list \<times> (enroll_error option) option \<times> 's" where
  "enroll_loop L sha wr path cfg api interactive b [] s = ([], None, s)"
| "enroll_loop L sha wr path cfg api interactive b (r # rs) s =
     (if er_context_done r then ([], Some (Some ContextDone), s)
      else let answer = agentExists (er_exists r); a = Asked answer
           in case answer of
                Inl e \<Rightarrow>
                  if interactive \<or> e \<noteq> Temporary then ([a], Some (Some CheckFailed), s)
                  else (case Next b (er_draw r) of
                          (delay, b') \<Rightarrow>
                            if er_wait_cancelled r then ([a, Paused delay], Some (Some ContextDone), s)
                            else (case enroll_loop L sha wr path cfg api interactive b' rs s of
                                    (as, res, s') \<Rightarrow> (a # Paused delay # as, res, s')))
              | Inr status \<Rightarrow>
                  if status = 404
                  then (case WriteEnrollment L sha wr path cfg api False s of
                          (ok, s1) \<Rightarrow>
                            let as1 = [a, Marked False ok]
                            in if \<not> ok then (as1, Some (Some MarkerNotWritten), s1)
                               else if \<not> interactive then (as1, Some (Some NotEnrolled), s1)
                               else case readRegistrationToken (er_input r) of
                                      Inl e \<Rightarrow> (as1 @ [ReadToken], Some (Some e), s1)
                                    | Inr token \<Rightarrow>
                                        let out = registerAgent cfg (er_register r);
                                            as2 = as1 @ [ReadToken, Registered out]
                                        in case out of
                                             Some e \<Rightarrow> (as2, Some (Some e), s1)
                                           | None \<Rightarrow>
                                               (case WriteEnrollment L sha wr path cfg api True s1 of
                                                  (ok2, s2) \<Rightarrow>
                                                    (as2 @ [Marked True ok2],
                                                     Some (if ok2 then None else Some MarkerNotWritten), s2)))
                  else (case WriteEnrollment L sha wr path cfg api True s of
                          (ok, s1) \<Rightarrow> ([a, Marked True ok], Some (if ok then None else Some MarkerNotWritten), s1)))"

definition EnsureEnrollment ::
    "id_lib \<Rightarrow> (string \<Rightarrow> string) \<Rightarrow> 's reader \<Rightarrow> 's writer \<Rightarrow> string \<Rightarrow> AgentConfig \<Rightarrow> string \<Rightarrow> bool
      \<Rightarrow> enroll_round list \<Rightarrow> 's \<Rightarrow> enroll_action list \<times> (enroll_error option) option \<times> 's" where
  "EnsureEnrollment L sha rd wr path cfg api interactive rs s =
     (case ReadEnrollment L sha rd path cfg api s of
        (Inl e, s1) \<Rightarrow> ([], Some (Some e), s1)
      | (Inr verified, s1) \<Rightarrow> enroll_loop L sha wr path cfg api interactive New rs s1)"

lemma agentExists_Inr: "agentExists out = Inr n \<Longrightarrow> n = 204 \<or> n = 404"
  by (auto simp: agentExists_def split: exists_outcome.splits if_splits)

definition loop_ok :: "bool \<Rightarrow> enroll_action list \<Rightarrow> (enroll_error option) option \<Rightarrow> bool" where
  "loop_ok interactive as res \<longleftrightarrow>
     (interactive \<or> ReadToken \<notin> set as \<and> (\<forall>out. Registered out \<notin> set as))
     \<and> (res = Some None \<longrightarrow>
          last as = Marked True True \<and>
          (Asked (Inr 204) \<in> set as \<or> (interactive \<and> Asked (Inr 404) \<in> set as \<and> Registered None \<in> set as)))"

lemma loop_ok_Cons: "loop_ok i as res \<Longrightarrow> loop_ok i (Asked (Inl e) # Paused d # as) res"
  by (cases as) (auto simp: loop_ok_def)

lemma enroll_loop_ok:
  "enroll_loop L sha wr path cfg api interactive b rs s = (as, res, s') \<Longrightarrow> loop_ok interactive as res"
proof (induction rs arbitrary: b s as res s')
  case Nil
  then show ?case by (simp add: loop_ok_def)
next
  case (Cons r rs)
  show ?case
  proof (cases "er_context_done r")
    case True
    with Cons.prems show ?thesis by (auto simp: loop_ok_def)
  next
    case False
    show ?thesis
    proof (cases "agentExists (er_exists r)")
      case (Inl e)
      show ?thesis
      proof (cases "interactive \<or> e \<noteq> Temporary \<or> er_wait_cancelled r")
        case True
        with Cons.prems False Inl show ?thesis
          by (auto simp: loop_ok_def Let_def split: if_splits prod.splits)
      next
        case go: False
        obtain d b' where n: "Next b (er_draw r) = (d, b')" by fastforce
        obtain as1 res1 s1 where l: "enroll_loop L sha wr path cfg api interactive b' rs s = (as1, res1, s1)"
          by (metis prod_cases3)
        have "as = Asked (Inl e) # Paused d # as1" "res = res1"
          using Cons.prems False Inl go n l by (auto simp: Let_def)
        with loop_ok_Cons [OF Cons.IH [OF l]] show ?thesis by simp
      qed
    next
      case (Inr n)
      then have "n = 204 \<or> n = 404" by (rule agentExists_Inr)
      with Cons.prems False Inr show ?thesis
        by (auto simp: loop_ok_def Let_def split: if_splits prod.splits sum.splits option.splits)
    qed
  qed
qed

text \<open>
  C30. An old marker never replaces the question to the server: enrollment succeeds only after the
  server said that the agent exists, or, interactively, after it said it does not and the agent was
  registered under its own identity; the marker was then written.  An unattended agent never asks
  for a token and never registers.
\<close>

theorem enrollment_needs_server:
  assumes "EnsureEnrollment L sha rd wr path cfg api interactive rs s = (as, res, s')"
  shows "(interactive \<or> ReadToken \<notin> set as \<and> (\<forall>out. Registered out \<notin> set as))
    \<and> (res = Some None \<longrightarrow>
         last as = Marked True True \<and>
         (Asked (Inr 204) \<in> set as \<or> (interactive \<and> Asked (Inr 404) \<in> set as \<and> Registered None \<in> set as)))"
proof -
  have "loop_ok interactive as res"
    using assms enroll_loop_ok
    by (fastforce simp: EnsureEnrollment_def loop_ok_def split: prod.splits sum.splits)
  then show ?thesis by (simp add: loop_ok_def)
qed

section \<open>Witnesses\<close>

definition sample_round :: "exists_outcome \<Rightarrow> enroll_round" where
  "sample_round out =
     \<lparr>er_context_done = False, er_exists = out, er_draw = 0, er_wait_cancelled = False, er_input = (''t'', False),
      er_register = None\<rparr>"

definition marker_lib :: id_lib where
  "marker_lib = sample_id_lib\<lparr>il_parse := (\<lambda>_. Some (state_json (enrollmentFor id (sample_identity ''x'' '''') ''h/'' True)))\<rparr>"


theorem enrollment_needs_server_witness:
  "\<exists>as s'. EnsureEnrollment sample_id_lib id disk_read disk_write ''m'' (sample_identity ''x'' '''') ''http://h/'' False
       [sample_round (Status 503), sample_round (Status 204)] sample_disk = (as, Some None, s')
     \<and> last as = Marked True True"
proof -
  let ?e = "EnsureEnrollment sample_id_lib id disk_read disk_write ''m'' (sample_identity ''x'' '''') ''http://h/'' False
       [sample_round (Status 503), sample_round (Status 204)] sample_disk"
  have "fst (snd ?e) = Some None"
    by (simp add: EnsureEnrollment_def ReadEnrollment_def WriteEnrollment_def disk_read_def disk_write_def
        sample_disk_def sample_round_def agentExists_def statefile_write_def fine_write_def Let_def
        split: prod.split)
  then obtain as s' where e: "?e = (as, Some None, s')" by (metis prod.collapse)
  from enrollment_needs_server [OF e] e show ?thesis by blast
qed

end
