(* ===== verification/RotatingLog.thy ===== *)
theory RotatingLog
  imports Prelude
begin

text \<open>
  The rotating log of \<^verbatim>\<open>service/logging.go\<close>.

  The files are numbered: 0 is the log itself, \<open>i\<close> its backup with the suffix \<open>.i\<close>.  Every call of
  the operating system can fail; the environment of a write says which ones do.  A handle that
  was closed with an error stays in the field \<^verbatim>\<open>file\<close>, and every operation on it fails.
\<close>

section \<open>State\<close>

type_synonym log_files = "nat \<rightharpoonup> string"

datatype handle = NoFile | OpenFile | BrokenFile

record rotatingLog =
  rl_limit :: nat
  rl_size :: nat
  rl_backups :: nat
  rl_file :: handle

text \<open>
  \<open>le_boundary_ok\<close> is the check of the boundary around the rotation, \<open>le_written\<close> the number of
  bytes after which the write fails, if it does.
\<close>

datatype open_outcome = Opened | StatFailed | NotOpened

record log_env =
  le_open1 :: open_outcome
  le_boundary_ok :: bool
  le_close_ok :: bool
  le_remove_ok :: "nat \<Rightarrow> bool"
  le_rename_ok :: "nat \<Rightarrow> bool"
  le_open2 :: open_outcome
  le_written :: "nat option"

section \<open>Operations\<close>

text \<open>\<^verbatim>\<open>open\<close> creates the file when it is missing and takes its size; the size may be refused.\<close>

definition log_open :: "open_outcome \<Rightarrow> rotatingLog \<Rightarrow> log_files \<Rightarrow> bool \<times> rotatingLog \<times> log_files" where
  "log_open out w fs =
     (let content = (case fs 0 of None \<Rightarrow> [] | Some c \<Rightarrow> c)
      in case out of
           NotOpened \<Rightarrow> (False, w, fs)
         | StatFailed \<Rightarrow> (False, w, fs(0 \<mapsto> content))
         | Opened \<Rightarrow> (True, w\<lparr>rl_file := OpenFile, rl_size := length content\<rparr>, fs(0 \<mapsto> content)))"

definition newRotatingLog :: "open_outcome \<Rightarrow> nat \<Rightarrow> nat \<Rightarrow> log_files \<Rightarrow> bool \<times> rotatingLog \<times> log_files" where
  "newRotatingLog out limit backups fs =
     log_open out \<lparr>rl_limit = limit, rl_size = 0, rl_backups = backups, rl_file = NoFile\<rparr> fs"

text \<open>
  The loop of \<^verbatim>\<open>rotateFiles\<close> from backup \<open>i\<close> down to 1: a missing file is no error, neither for
  the removal nor for the renaming.
\<close>

fun shift_files :: "log_env \<Rightarrow> nat \<Rightarrow> log_files \<Rightarrow> bool \<times> log_files" where
  "shift_files env 0 fs = (True, fs)"
| "shift_files env (Suc i) fs =
     (if fs (Suc i) \<noteq> None \<and> \<not> le_remove_ok env (Suc i) then (False, fs)
      else
        let fs1 = fs(Suc i := None)
        in if fs1 i \<noteq> None \<and> \<not> le_rename_ok env (Suc i) then (False, fs1)
           else shift_files env i (if fs1 i = None then fs1 else fs1(Suc i := fs1 i, i := None)))"

definition rotateFiles :: "log_env \<Rightarrow> rotatingLog \<Rightarrow> log_files \<Rightarrow> bool \<times> rotatingLog \<times> log_files" where
  "rotateFiles env w fs =
     (if rl_file w = BrokenFile \<or> \<not> le_close_ok env then (False, w\<lparr>rl_file := BrokenFile\<rparr>, fs)
      else
        let w1 = w\<lparr>rl_file := NoFile\<rparr>
        in case shift_files env (rl_backups w) fs of
             (ok, fs1) \<Rightarrow> if \<not> ok then (False, w1, fs1) else log_open (le_open2 env) w1 fs1)"

definition rotateLog :: "log_env \<Rightarrow> rotatingLog \<Rightarrow> log_files \<Rightarrow> bool \<times> rotatingLog \<times> log_files" where
  "rotateLog env w fs = (if \<not> le_boundary_ok env then (False, w, fs) else rotateFiles env w fs)"

text \<open>The write itself, to an open file: what was asked for is cut to the limit.\<close>

definition append_log :: "log_env \<Rightarrow> rotatingLog \<Rightarrow> log_files \<Rightarrow> string \<Rightarrow> bool \<times> nat \<times> rotatingLog \<times> log_files" where
  "append_log env w fs p =
     (let q = (if length p > rl_limit w then take (rl_limit w) p else p);
          (n, err) = (if rl_file w = BrokenFile then (0, True)
                      else case le_written env of None \<Rightarrow> (length q, False) | Some k \<Rightarrow> (min k (length q), True));
          content = (case fs 0 of None \<Rightarrow> [] | Some c \<Rightarrow> c) @ take n q;
          w1 = w\<lparr>rl_size := rl_size w + n\<rparr>
      in (\<not> err, if err then n else length p, w1, if n = 0 then fs else fs(0 \<mapsto> content)))"

text \<open>\<^verbatim>\<open>Write\<close>: success, the number of bytes reported, the new state.\<close>

definition Write :: "log_env \<Rightarrow> rotatingLog \<Rightarrow> log_files \<Rightarrow> string \<Rightarrow> bool \<times> nat \<times> rotatingLog \<times> log_files" where
  "Write env w fs p =
     (case (if rl_file w = NoFile then log_open (le_open1 env) w fs else (True, w, fs)) of
        (ok1, w1, fs1) \<Rightarrow>
          if \<not> ok1 then (False, 0, w1, fs1)
          else case (if rl_size w1 + length p > rl_limit w1 then rotateLog env w1 fs1 else (True, w1, fs1)) of
            (ok2, w2, fs2) \<Rightarrow> if \<not> ok2 then (False, 0, w2, fs2) else append_log env w2 fs2 p)"

definition CloseLog :: "bool \<Rightarrow> rotatingLog \<Rightarrow> bool \<times> rotatingLog" where
  "CloseLog sync_close_ok w =
     (case rl_file w of
        NoFile \<Rightarrow> (True, w)
      | OpenFile \<Rightarrow> (sync_close_ok, w\<lparr>rl_file := NoFile\<rparr>)
      | BrokenFile \<Rightarrow> (False, w\<lparr>rl_file := NoFile\<rparr>))"

section \<open>Rotation is a shift\<close>

text \<open>The abstract log is the list of its generations, the newest first.\<close>

definition generations :: "nat \<Rightarrow> log_files \<Rightarrow> string option list" where
  "generations k fs = map fs [0..<Suc k]"

lemma shift_files_ok:
  assumes "shift_files env k fs = (True, fs')"
  shows "fs' = (\<lambda>i. if i \<le> k then (if i = 0 then (if k = 0 then fs 0 else None) else fs (i - 1)) else fs i)"
  using assms
proof (induction k arbitrary: fs fs')
  case 0
  then show ?case by (auto simp: fun_eq_iff)
next
  case (Suc k)
  let ?fs1 = "fs(Suc k := None)"
  let ?fs2 = "if ?fs1 k = None then ?fs1 else ?fs1(Suc k := ?fs1 k, k := None)"
  have s: "shift_files env k ?fs2 = (True, fs')"
    using Suc.prems by (auto simp: Let_def split: if_splits)
  have f2: "?fs2 = (\<lambda>i. if i = Suc k then fs k else if i = k then None else fs i)" by auto
  show ?case using Suc.IH [OF s] unfolding f2 by (auto simp: fun_eq_iff)
qed

lemma rotateFiles_shift:
  assumes "rotateFiles env w fs = (True, w', fs')" and "0 < rl_backups w"
  shows "generations (rl_backups w) fs' = Some [] # butlast (generations (rl_backups w) fs)
    \<and> (\<forall>i > rl_backups w. fs' i = fs i) \<and> rl_size w' = 0 \<and> rl_file w' = OpenFile"
proof -
  let ?k = "rl_backups w"
  obtain ok fs1 where s: "shift_files env ?k fs = (ok, fs1)" by fastforce
  with assms(1) have ok: "ok" "log_open (le_open2 env) (w\<lparr>rl_file := NoFile\<rparr>) fs1 = (True, w', fs')"
    by (auto simp: rotateFiles_def Let_def split: if_splits)
  with s have f: "fs1 = (\<lambda>i. if i \<le> ?k then (if i = 0 then None else fs (i - 1)) else fs i)"
    using shift_files_ok [of env ?k fs fs1] assms(2) by (auto simp: fun_eq_iff)
  from ok(2) f have o: "fs' = fs1(0 \<mapsto> [])" "rl_size w' = 0" "rl_file w' = OpenFile"
    by (auto simp: log_open_def Let_def split: open_outcome.splits)
  have "generations ?k fs' = Some [] # map fs [0..<?k]"
  proof -
    have "map fs' [0..<Suc ?k] = fs' 0 # map (\<lambda>i. fs' (Suc i)) [0..<?k]"
      by (simp add: upt_conv_Cons map_Suc_upt [symmetric] del: upt_Suc)
    also have "map (\<lambda>i. fs' (Suc i)) [0..<?k] = map fs [0..<?k]" by (auto simp: o(1) f)
    finally have g: "map fs' [0..<Suc ?k] = fs' 0 # map fs [0..<?k]" .
    have "fs' 0 = Some []" by (simp add: o(1))
    then show ?thesis unfolding generations_def g by (rule arg_cong)
  qed
  moreover have "butlast (generations ?k fs) = map fs [0..<?k]" by (simp add: generations_def)
  ultimately show ?thesis using o f by auto
qed

text \<open>
  Rotation refines a shift of generations: when every step works, the log starts empty, each
  generation moves one place up, the oldest one is dropped, and no other file is touched.
\<close>

theorem rotation_is_a_shift:
  assumes "rotateFiles env w fs = (True, w', fs')" and "0 < rl_backups w"
  shows "generations (rl_backups w) fs' = Some [] # butlast (generations (rl_backups w) fs)
    \<and> (\<forall>i > rl_backups w. fs' i = fs i) \<and> rl_size w' = 0 \<and> rl_file w' = OpenFile"
  using assms by (rule rotateFiles_shift)

section \<open>The size of the log\<close>

definition log_inv :: "rotatingLog \<Rightarrow> log_files \<Rightarrow> bool" where
  "log_inv w fs \<longleftrightarrow> 0 < rl_backups w \<and>
     (rl_file w = OpenFile \<longrightarrow> (\<exists>c. fs 0 = Some c \<and> rl_size w = length c))"

lemma log_open_inv:
  "log_open ok w fs = (r, w', fs') \<Longrightarrow> 0 < rl_backups w \<Longrightarrow> rl_file w \<noteq> OpenFile \<Longrightarrow>
     log_inv w' fs' \<and> (r \<longrightarrow> rl_file w' = OpenFile) \<and> rl_limit w' = rl_limit w"
  by (auto simp: log_open_def Let_def log_inv_def split: open_outcome.splits)

lemma rotate_inv:
  assumes "rotateLog env w fs = (r, w', fs')" and "log_inv w fs"
  shows "log_inv w' fs' \<and> (r \<longrightarrow> rl_file w' = OpenFile \<and> rl_size w' = 0) \<and> rl_limit w' = rl_limit w"
proof (cases r)
  case True
  then have r: "rotateFiles env w fs = (True, w', fs')" using assms(1) by (auto simp: rotateLog_def split: if_splits)
  have "0 < rl_backups w" using assms(2) by (simp add: log_inv_def)
  note shift = rotateFiles_shift [OF r this]
  have "fs' 0 = Some []"
    using shift by (simp add: generations_def upt_conv_Cons del: upt_Suc)
  moreover have "rl_backups w' = rl_backups w" "rl_limit w' = rl_limit w"
    using r by (auto simp: rotateFiles_def log_open_def Let_def split: if_splits prod.splits open_outcome.splits)
  ultimately show ?thesis using shift assms(2) by (simp add: log_inv_def)
next
  case False
  then show ?thesis using assms
    by (auto simp: rotateLog_def rotateFiles_def log_open_def Let_def log_inv_def split: if_splits prod.splits open_outcome.splits)
qed

lemma append_inv:
  assumes "append_log env w fs p = (r, n, w', fs')" and "log_inv w fs" and "rl_file w \<noteq> NoFile"
    and "rl_file w = OpenFile \<longrightarrow> rl_size w + length p \<le> rl_limit w \<or> rl_size w = 0"
  shows "log_inv w' fs' \<and> (r \<longrightarrow> (\<exists>c. fs' 0 = Some c \<and> length c \<le> rl_limit w') \<and> n = length p)"
proof (cases "rl_file w")
  case OpenFile
  then obtain c where c: "fs 0 = Some c" "rl_size w = length c" using assms(2) by (auto simp: log_inv_def)
  with OpenFile assms show ?thesis
    by (auto simp: append_log_def Let_def log_inv_def min_def split: if_splits option.splits)
next
  case BrokenFile
  with assms show ?thesis by (auto simp: append_log_def Let_def log_inv_def split: if_splits)
qed (use assms(3) in simp)

text \<open>The three parts of a write: the open it may start with, the rotation it may need, the append.\<close>

lemma Write_cases:
  obtains ok1 w1 fs1 ok2 w2 fs2 where
    "(if rl_file w = NoFile then log_open (le_open1 env) w fs else (True, w, fs)) = (ok1, w1, fs1)"
    "(if rl_size w1 + length p > rl_limit w1 then rotateLog env w1 fs1 else (True, w1, fs1)) = (ok2, w2, fs2)"
    "Write env w fs p =
      (if \<not> ok1 then (False, 0, w1, fs1) else if \<not> ok2 then (False, 0, w2, fs2) else append_log env w2 fs2 p)"
proof -
  obtain ok1 w1 fs1 where
    o: "(if rl_file w = NoFile then log_open (le_open1 env) w fs else (True, w, fs)) = (ok1, w1, fs1)"
    by (metis prod_cases3)
  obtain ok2 w2 fs2 where
    t: "(if rl_size w1 + length p > rl_limit w1 then rotateLog env w1 fs1 else (True, w1, fs1)) = (ok2, w2, fs2)"
    by (metis prod_cases3)
  have "Write env w fs p =
      (if \<not> ok1 then (False, 0, w1, fs1) else if \<not> ok2 then (False, 0, w2, fs2) else append_log env w2 fs2 p)"
    unfolding Write_def o by (simp add: t)
  with o t show thesis by (rule that)
qed

lemma Write_inv:
  assumes "Write env w fs p = (r, n, w', fs')" and "log_inv w fs"
  shows "log_inv w' fs' \<and> (r \<longrightarrow> (\<exists>c. fs' 0 = Some c \<and> length c \<le> rl_limit w') \<and> n = length p)"
proof (rule Write_cases)
  fix ok1 w1 fs1 ok2 w2 fs2
  assume o: "(if rl_file w = NoFile then log_open (le_open1 env) w fs else (True, w, fs)) = (ok1, w1, fs1)"
    and t: "(if rl_size w1 + length p > rl_limit w1 then rotateLog env w1 fs1 else (True, w1, fs1)) = (ok2, w2, fs2)"
    and w: "Write env w fs p =
      (if \<not> ok1 then (False, 0, w1, fs1) else if \<not> ok2 then (False, 0, w2, fs2) else append_log env w2 fs2 p)"
  have i1: "log_inv w1 fs1 \<and> (ok1 \<longrightarrow> rl_file w1 \<noteq> NoFile)"
    using o assms(2) log_open_inv [of "le_open1 env" w fs ok1 w1 fs1]
    by (auto simp: log_inv_def split: if_splits)
  have i2: "log_inv w2 fs2 \<and> (ok1 \<and> ok2 \<longrightarrow> rl_file w2 \<noteq> NoFile
      \<and> (rl_size w2 + length p \<le> rl_limit w2 \<or> rl_size w2 = 0))"
    using t i1 rotate_inv [of env w1 fs1 ok2 w2 fs2] by (auto split: if_splits)
  show ?thesis
  proof (cases "ok1 \<and> ok2")
    case True
    then have "append_log env w2 fs2 p = (r, n, w', fs')" using w assms(1) by simp
    moreover have "log_inv w2 fs2" "rl_file w2 \<noteq> NoFile"
      "rl_file w2 = OpenFile \<longrightarrow> rl_size w2 + length p \<le> rl_limit w2 \<or> rl_size w2 = 0"
      using i2 True by simp_all
    ultimately show ?thesis by (rule append_inv)
  next
    case False
    then show ?thesis using assms(1) [unfolded w] i1 i2 by (auto split: if_splits)
  qed
qed

text \<open>A write that works ends with the file open, and no operation changes the limit.\<close>

lemma log_open_cases:
  assumes "log_open out w fs = (r, w', fs')"
  shows "r \<longleftrightarrow> out = Opened" and "r \<Longrightarrow> rl_file w' = OpenFile" and "\<not> r \<Longrightarrow> w' = w"
    and "i \<noteq> 0 \<Longrightarrow> fs' i = fs i" and "rl_limit w' = rl_limit w"
  using assms by (auto simp: log_open_def Let_def split: open_outcome.splits)

lemma rotateLog_cases:
  assumes "rotateLog env w fs = (r, w', fs')"
  shows "r \<Longrightarrow> rl_file w' = OpenFile" and "rl_limit w' = rl_limit w"
  using assms log_open_cases(2,5)
  by (fastforce simp: rotateLog_def rotateFiles_def Let_def split: if_splits prod.splits)+

lemma append_log_cases:
  assumes "append_log env w fs p = (r, n, w', fs')"
  shows "rl_file w' = rl_file w" and "r \<Longrightarrow> rl_file w \<noteq> BrokenFile" and "rl_limit w' = rl_limit w"
  using assms by (auto simp: append_log_def Let_def split: if_splits option.splits)

lemma Write_file:
  assumes "Write env w fs p = (r, n, w', fs')"
  shows "r \<Longrightarrow> rl_file w' = OpenFile" and "rl_limit w' = rl_limit w"
proof -
  have "(r \<longrightarrow> rl_file w' = OpenFile) \<and> rl_limit w' = rl_limit w"
  proof (rule Write_cases)
    fix ok1 w1 fs1 ok2 w2 fs2
    assume o: "(if rl_file w = NoFile then log_open (le_open1 env) w fs else (True, w, fs)) = (ok1, w1, fs1)"
      and t: "(if rl_size w1 + length p > rl_limit w1 then rotateLog env w1 fs1 else (True, w1, fs1)) = (ok2, w2, fs2)"
      and w: "Write env w fs p =
        (if \<not> ok1 then (False, 0, w1, fs1) else if \<not> ok2 then (False, 0, w2, fs2) else append_log env w2 fs2 p)"
    have 1: "rl_limit w1 = rl_limit w" "ok1 \<Longrightarrow> rl_file w1 \<noteq> NoFile"
      using o log_open_cases(2,5) by (auto split: if_splits)
    have 2: "rl_limit w2 = rl_limit w1" "ok2 \<Longrightarrow> w2 = w1 \<or> rl_file w2 = OpenFile"
      using t rotateLog_cases by (auto split: if_splits)
    show ?thesis
    proof (cases "ok1 \<and> ok2")
      case True
      then have a: "append_log env w2 fs2 p = (r, n, w', fs')" using w assms by simp
      have "rl_file w2 \<noteq> NoFile" using 1(2) 2(2) True by auto
      with append_log_cases [OF a] 1(1) 2(1) show ?thesis by (cases "rl_file w2") auto
    next
      case False
      then show ?thesis using assms [unfolded w] 1(1) 2(1) by (auto split: if_splits)
    qed
  qed
  then show "r \<Longrightarrow> rl_file w' = OpenFile" and "rl_limit w' = rl_limit w" by blast+
qed

text \<open>Any sequence of writes and closings, with any failures.\<close>

datatype log_event = WriteEvent log_env string | CloseEvent bool

fun log_step :: "rotatingLog \<times> log_files \<Rightarrow> log_event \<Rightarrow> rotatingLog \<times> log_files" where
  "log_step (w, fs) (WriteEvent env p) = (case Write env w fs p of (_, _, w', fs') \<Rightarrow> (w', fs'))"
| "log_step (w, fs) (CloseEvent ok) = (snd (CloseLog ok w), fs)"

definition log_init :: "rotatingLog \<times> log_files \<Rightarrow> bool" where
  "log_init s \<longleftrightarrow> (\<exists>ok limit backups fs r. 0 < backups \<and> newRotatingLog ok limit backups fs = (r, s))"

lemma log_step_inv: "case_prod log_inv s \<Longrightarrow> case_prod log_inv (log_step s e)"
proof (cases s)
  case (Pair w fs)
  assume i: "case_prod log_inv s"
  show ?thesis
  proof (cases e)
    case (WriteEvent env p)
    obtain r n w' fs' where "Write env w fs p = (r, n, w', fs')" by (metis prod_cases4)
    with Write_inv [OF this] i Pair WriteEvent show ?thesis by simp
  next
    case (CloseEvent ok)
    with i Pair show ?thesis by (auto simp: CloseLog_def log_inv_def split: handle.splits)
  qed
qed

lemma log_run_limit: "rl_limit (fst (foldl log_step x es)) = rl_limit (fst x)"
proof (induction es arbitrary: x)
  case (Cons e es)
  have "rl_limit (fst (log_step x e)) = rl_limit (fst x)"
    using Write_file(2) by (cases x; cases e) (auto simp: CloseLog_def split: prod.splits handle.splits)
  with Cons.IH [of "log_step x e"] show ?case by simp
qed simp

interpretation lg: event_machine log_init log_step "case_prod log_inv"
proof
  show "case_prod log_inv s" if "log_init s" for s
    using that log_open_inv
    by (fastforce simp: log_init_def newRotatingLog_def)
  show "case_prod log_inv (log_step s e)" if "case_prod log_inv s" for s e
    using that by (rule log_step_inv)
qed

text \<open>
  After any history of writes, rotations, closings and failures of the operating system, a
  write that reports success leaves a log no longer than the limit and reports all its bytes.
\<close>

theorem log_within_limit:
  assumes "newRotatingLog ok limit backups fs0 = (r0, s0)" and "0 < backups"
    and "foldl log_step s0 es = (w, fs)" and "Write env w fs p = (True, n, w', fs')"
  shows "(\<exists>c. fs' 0 = Some c \<and> length c \<le> rl_limit w') \<and> n = length p"
proof -
  have "log_init s0" unfolding log_init_def using assms(1,2) by blast
  then have "case_prod log_inv (foldl log_step s0 es)" by (rule lg.run_inv)
  with assms(3) have "log_inv w fs" by simp
  with Write_inv [OF assms(4)] show ?thesis by blast
qed

section \<open>A failed close\<close>

text \<open>
  A close that fails during a rotation is permanent: the closed handle stays in place and
  every later write fails, whatever the system does by then, until the log is closed.
\<close>

theorem failed_close_is_permanent:
  assumes "rotateFiles (env\<lparr>le_close_ok := False\<rparr>) w fs = (ok, w1, fs1)"
  shows "\<not> ok \<and> list_all (\<lambda>(env, p). \<not> fst (Write env (fst (foldl log_step (w1, fs1) (map (\<lambda>(env, p). WriteEvent env p) ps)))
            (snd (foldl log_step (w1, fs1) (map (\<lambda>(env, p). WriteEvent env p) ps))) p)) qs"
proof -
  have b: "\<not> ok \<and> rl_file w1 = BrokenFile" using assms by (auto simp: rotateFiles_def)
  have keep: "rl_file w = BrokenFile \<Longrightarrow> \<not> fst (Write env w fs p) \<and> rl_file (fst (snd (snd (Write env w fs p)))) = BrokenFile"
    for env w fs p
    by (simp add: Write_def rotateLog_def rotateFiles_def append_log_def Let_def)
  have "rl_file (fst (foldl log_step (w, fs) (map (\<lambda>(env, p). WriteEvent env p) ps))) = BrokenFile"
    if "rl_file w = BrokenFile" for w fs
    using that
  proof (induction ps arbitrary: w fs)
    case Nil
    then show ?case by simp
  next
    case (Cons x ps)
    obtain env p where x: "x = (env, p)" by fastforce
    obtain r n w' fs' where "Write env w fs p = (r, n, w', fs')" by (metis prod_cases4)
    with keep [OF Cons.prems, of env fs p] Cons.IH [of w' fs'] x show ?case by simp
  qed
  with b keep show ?thesis by (auto simp: list_all_iff)
qed

section \<open>Witnesses\<close>

definition fine_env :: log_env where
  "fine_env = \<lparr>le_open1 = Opened, le_boundary_ok = True, le_close_ok = True, le_remove_ok = (\<lambda>_. True),
     le_rename_ok = (\<lambda>_. True), le_open2 = Opened, le_written = None\<rparr>"

definition sample_log :: rotatingLog where
  "sample_log = \<lparr>rl_limit = 4, rl_size = 3, rl_backups = 2, rl_file = OpenFile\<rparr>"

theorem rotation_is_a_shift_witness:
  "\<exists>w' fs'. rotateFiles fine_env sample_log [0 \<mapsto> ''new'', 1 \<mapsto> ''old'', 2 \<mapsto> ''older''] = (True, w', fs')
     \<and> generations 2 fs' = [Some [], Some ''new'', Some ''old'']"
proof -
  let ?r = "rotateFiles fine_env sample_log [0 \<mapsto> ''new'', 1 \<mapsto> ''old'', 2 \<mapsto> ''older'']"
  have "fst ?r" by code_simp
  then obtain w' fs' where r: "?r = (True, w', fs')" by (metis prod.collapse)
  have b: "0 < rl_backups sample_log" by (simp add: sample_log_def)
  from rotation_is_a_shift [OF r b] r show ?thesis
    by (auto simp: sample_log_def generations_def eval_nat_numeral)
qed

theorem log_within_limit_witness:
  "fst (Write fine_env \<lparr>rl_limit = 4, rl_size = 0, rl_backups = 1, rl_file = OpenFile\<rparr> [0 \<mapsto> []] ''abcdef'')
   \<and> (\<exists>c. snd (snd (snd (Write fine_env \<lparr>rl_limit = 4, rl_size = 0, rl_backups = 1, rl_file = OpenFile\<rparr>
          [0 \<mapsto> []] ''abcdef''))) 0 = Some c \<and> length c \<le> 4)"
proof -
  let ?w = "\<lparr>rl_limit = 4, rl_size = 0, rl_backups = 1, rl_file = OpenFile\<rparr>"
  let ?x = "Write fine_env ?w [0 \<mapsto> []] ''abcdef''"
  have n: "newRotatingLog Opened 4 1 (\<lambda>_. None) = (True, ?w, [0 \<mapsto> []])"
    by (simp add: newRotatingLog_def log_open_def)
  have x: "fst ?x" "rl_limit (fst (snd (snd ?x))) = 4" by code_simp+
  then have w: "?x = (True, fst (snd ?x), fst (snd (snd ?x)), snd (snd (snd ?x)))" by (simp add: prod_eq_iff)
  have e: "foldl log_step (?w, [0 \<mapsto> []]) [] = (?w, [0 \<mapsto> []])" by simp
  from log_within_limit [OF n _ e w] x show ?thesis by simp
qed

theorem failed_close_is_permanent_witness:
  "\<not> fst (Write fine_env (fst (snd (rotateFiles (fine_env\<lparr>le_close_ok := False\<rparr>) sample_log [0 \<mapsto> ''new''])))
       (snd (snd (rotateFiles (fine_env\<lparr>le_close_ok := False\<rparr>) sample_log [0 \<mapsto> ''new'']))) ''x'')"
proof -
  let ?r = "rotateFiles (fine_env\<lparr>le_close_ok := False\<rparr>) sample_log [0 \<mapsto> ''new'']"
  have "?r = (fst ?r, fst (snd ?r), snd (snd ?r))" by simp
  from failed_close_is_permanent [OF this, of "[]" "[(fine_env, ''x'')]"] show ?thesis by simp
qed

end
