(* ===== verification/AppPaths.thy ===== *)
theory AppPaths
  imports FilePath
begin

text \<open>
  The fixed locations of the program, \<^verbatim>\<open>internal/apppaths\<close>.

  The Service runs on Windows, the other hosts of the repository also elsewhere.  The functions of
  \<^verbatim>\<open>path/filepath\<close> and the case folding of \<^verbatim>\<open>strings\<close> are therefore a parameter of the parts
  that run on both; \<open>unix_paths\<close> is the instance made of the functions of \<open>FilePath\<close>.
\<close>

record path_lib =
  pl_abs :: "string \<Rightarrow> bool"
  pl_clean :: "string \<Rightarrow> string"
  pl_dir :: "string \<Rightarrow> string"
  pl_join :: "string list \<Rightarrow> string"
  pl_rel :: "string \<Rightarrow> string \<Rightarrow> string option"
  pl_fold :: "string \<Rightarrow> string \<Rightarrow> bool"
  pl_lower :: "string \<Rightarrow> string"
  pl_separator :: char

definition unix_paths :: path_lib where
  "unix_paths =
     \<lparr>pl_abs = IsAbs, pl_clean = Clean, pl_dir = Dir, pl_join = Join, pl_rel = Rel, pl_fold = equal_fold,
      pl_lower = to_lower, pl_separator = CHR ''/''\<rparr>"

section \<open>Paths\<close>

record app_paths =
  ap_install :: string
  ap_root :: string
  ap_identity :: string
  ap_enrollment :: string
  ap_config :: string
  ap_log :: string
  ap_downloads :: string

definition app_name :: string where "app_name = ''ThesisAgentDev''"

definition LegacyPrivateKeyBackupSuffix :: string where
  "LegacyPrivateKeyBackupSuffix = ''.dpapi-user-v1.bak''"

definition IdentityBackup :: "app_paths \<Rightarrow> string" where
  "IdentityBackup p = ap_identity p @ LegacyPrivateKeyBackupSuffix"

definition RuntimeLock :: "path_lib \<Rightarrow> app_paths \<Rightarrow> string" where
  "RuntimeLock L p = pl_join L [ap_root p, ''.runtime.lock'']"

definition fromRoot :: "path_lib \<Rightarrow> string \<Rightarrow> string \<Rightarrow> app_paths" where
  "fromRoot L root install =
     \<lparr>ap_install = install, ap_root = root, ap_identity = pl_join L [root, ''agent_config.json''],
      ap_enrollment = pl_join L [root, ''enrollment_state.json''], ap_config = pl_join L [root, ''.env''],
      ap_log = pl_join L [root, ''logs'', ''agent.log''], ap_downloads = pl_join L [root, ''data'', ''downloads'']\<rparr>"

definition ConsolePaths :: "path_lib \<Rightarrow> string \<Rightarrow> app_paths option" where
  "ConsolePaths L cwd = (if \<not> pl_abs L cwd then None else Some (fromRoot L (pl_clean L cwd) ''''))"

definition MachineFromRoots :: "path_lib \<Rightarrow> string \<Rightarrow> string \<Rightarrow> app_paths option" where
  "MachineFromRoots L programData programFiles =
     (if \<not> pl_abs L programData \<or> \<not> pl_abs L programFiles then None
      else Some (fromRoot L (pl_join L [programData, app_name]) (pl_join L [programFiles, app_name])))"

text \<open>\<^verbatim>\<open>Machine\<close> on Windows: the two known folders, each of which may be unknown.\<close>

definition Machine :: "path_lib \<Rightarrow> string option \<Rightarrow> string option \<Rightarrow> app_paths option" where
  "Machine L data programs =
     (case data of
        None \<Rightarrow> None
      | Some d \<Rightarrow> (case programs of None \<Rightarrow> None | Some p \<Rightarrow> MachineFromRoots L d p))"

end
