(* ===== verification/RuntimeAcl.thy ===== *)
theory RuntimeAcl
  imports Prelude "HOL-Library.Word"
begin

text \<open>
  Access control lists of the protected runtime: the classification of a security descriptor in
  \<^verbatim>\<open>internal/protectedpath/runtime_windows.go\<close>, the canonical list that a repair installs, and the
  check of \<^verbatim>\<open>internal/protectedpath/path_windows.go\<close> that the loader of the private key relies on.

  A descriptor is what the Windows accessors return: \<open>None\<close> stands for an accessor that fails or
  returns nil.  An entry is \<open>None\<close> when \<^verbatim>\<open>GetAce\<close> fails.
\<close>

unbundle bit_operations_syntax

section \<open>Descriptors\<close>

datatype sid = LocalSystem | BuiltinAdministrators | OtherSid string

fun sid_text :: "sid \<Rightarrow> string" where
  "sid_text LocalSystem = ''S-1-5-18''"
| "sid_text BuiltinAdministrators = ''S-1-5-32-544''"
| "sid_text (OtherSid s) = s"

record ace =
  ace_type :: "8 word"
  ace_size :: nat
  ace_flags :: "8 word"
  ace_mask :: "32 word"
  ace_sid :: sid
  ace_sid_valid :: bool
  ace_sid_len :: nat

record descriptor =
  sd_valid :: bool
  sd_owner :: "sid option"
  sd_control :: "16 word option"
  sd_dacl :: "ace option list option"

definition trustedSID :: "sid \<Rightarrow> bool" where
  "trustedSID s \<longleftrightarrow> s = LocalSystem \<or> s = BuiltinAdministrators"

text \<open>The constants of the Windows headers.\<close>

definition ACCESS_ALLOWED_ACE_TYPE :: "8 word" where "ACCESS_ALLOWED_ACE_TYPE = 0"
definition INHERITED_ACE :: "8 word" where "INHERITED_ACE = 0x10"
definition SE_DACL_PRESENT :: "16 word" where "SE_DACL_PRESENT = 0x4"
definition SE_DACL_PROTECTED :: "16 word" where "SE_DACL_PROTECTED = 0x1000"

definition fullControl :: "32 word" where
  "fullControl = (0xF0000 OR 0x100000) OR 0x1FF"

section \<open>Classification\<close>

datatype acl_class = Canonical | Repairable | Unsafe

record assessment =
  as_class :: acl_class
  as_owner :: string
  as_principal :: string
  as_mask :: "32 word"
  as_reasons :: "string list"

definition unsafeAssessment :: "string \<Rightarrow> assessment" where
  "unsafeAssessment reason =
     \<lparr>as_class = Unsafe, as_owner = '''', as_principal = '''', as_mask = 0, as_reasons = [reason]\<rparr>"

definition want_flags :: "bool \<Rightarrow> 8 word" where
  "want_flags directory = (if directory then 1 OR 2 else 0)"

text \<open>
  The loop over the entries: the two principals seen with full control, and whether all flags are as
  wanted.  An error is an entry that cannot be trusted to mean anything (\<open>None\<close>) or a foreign
  entry.
\<close>

fun scan_aces :: "bool \<Rightarrow> bool \<Rightarrow> ace option list \<Rightarrow> bool \<times> bool \<times> bool \<Rightarrow> ace option + bool \<times> bool \<times> bool" where
  "scan_aces directory root [] acc = Inr acc"
| "scan_aces directory root (None # es) acc = Inl None"
| "scan_aces directory root (Some a # es) (system, admins, flagsOK) =
     (if ace_type a \<noteq> ACCESS_ALLOWED_ACE_TYPE \<or> ace_size a < 16 then Inl None
      else if \<not> ace_sid_valid a \<or> ace_sid_len a + 8 > ace_size a then Inl None
      else if \<not> trustedSID (ace_sid a) then Inl (Some a)
      else
        let flags = ace_flags a AND NOT INHERITED_ACE;
            flagsOK1 = (if flags \<noteq> want_flags directory \<or> (root \<and> ace_flags a AND INHERITED_ACE \<noteq> 0)
                        then False else flagsOK)
        in if flags \<noteq> want_flags directory \<or> ace_mask a \<noteq> fullControl
           then scan_aces directory root es (system, admins, flagsOK1)
           else scan_aces directory root es
                  (system \<or> ace_sid a = LocalSystem, admins \<or> ace_sid a = BuiltinAdministrators, flagsOK1))"

definition classifyDescriptor :: "descriptor option \<Rightarrow> bool \<Rightarrow> bool \<Rightarrow> assessment" where
  "classifyDescriptor sd directory root =
     (let bad = unsafeAssessment ''security_descriptor_unreadable''
      in case sd of
           None \<Rightarrow> bad
         | Some d \<Rightarrow>
             if \<not> sd_valid d then bad
             else case sd_owner d of
               None \<Rightarrow> bad
             | Some owner \<Rightarrow>
                 let bad1 = bad\<lparr>as_owner := sid_text owner\<rparr>
                 in if \<not> trustedSID owner then bad1\<lparr>as_reasons := [''untrusted_owner'']\<rparr>
                    else (case sd_control d of
                            None \<Rightarrow> bad1
                          | Some control \<Rightarrow>
                              (case sd_dacl d of
                                 None \<Rightarrow> bad1
                               | Some dacl \<Rightarrow>
                                   if control AND SE_DACL_PRESENT = 0 then bad1
                                   else (case scan_aces directory root dacl (False, False, True) of
                                           Inl None \<Rightarrow> bad1
                                         | Inl (Some a) \<Rightarrow>
                                             bad1\<lparr>as_reasons := [''untrusted_ace''],
                                                  as_principal := sid_text (ace_sid a), as_mask := ace_mask a\<rparr>
                                         | Inr (system, admins, flagsOK) \<Rightarrow>
                                             let reasons =
                                               (if (root \<and> control AND SE_DACL_PROTECTED = 0) \<or> \<not> flagsOK
                                                then [''inheritance_drift''] else [])
                                               @ (if \<not> system then [''missing_system_full_control''] else [])
                                               @ (if \<not> admins then [''missing_admin_full_control''] else [])
                                               @ (if length dacl \<noteq> 2 then [''noncanonical_trusted_aces''] else [])
                                             in \<lparr>as_class = (if reasons \<noteq> [] then Repairable else Canonical),
                                                 as_owner = sid_text owner, as_principal = '''', as_mask = 0,
                                                 as_reasons = (if reasons \<noteq> [] then reasons else [''acl_canonical''])\<rparr>))))"

text \<open>The check of \<^verbatim>\<open>path_windows.go\<close>: \<open>True\<close> is its nil error.\<close>

fun validate_aces :: "bool \<Rightarrow> ace option list \<Rightarrow> bool \<times> bool \<Rightarrow> (bool \<times> bool) option" where
  "validate_aces directory [] acc = Some acc"
| "validate_aces directory (None # es) acc = None"
| "validate_aces directory (Some a # es) (system, admins) =
     (if ace_type a \<noteq> ACCESS_ALLOWED_ACE_TYPE then None
      else if \<not> trustedSID (ace_sid a) then None
      else if ace_flags a AND 0x08 \<noteq> 0 \<or> ace_mask a AND fullControl \<noteq> fullControl
              \<or> (directory \<and> ace_flags a AND 0x03 \<noteq> 0x03)
      then validate_aces directory es (system, admins)
      else validate_aces directory es
             (system \<or> ace_sid a = LocalSystem, admins \<or> ace_sid a = BuiltinAdministrators))"

definition validateDescriptor :: "descriptor \<Rightarrow> bool \<Rightarrow> bool" where
  "validateDescriptor d directory =
     (case sd_owner d of
        None \<Rightarrow> False
      | Some owner \<Rightarrow>
          if \<not> trustedSID owner then False
          else case sd_dacl d of
                 None \<Rightarrow> False
               | Some dacl \<Rightarrow>
                   (case validate_aces directory dacl (False, False) of
                      None \<Rightarrow> False
                    | Some (system, admins) \<Rightarrow> system \<and> admins))"

section \<open>The canonical list\<close>

text \<open>
  \<^verbatim>\<open>canonicalDACL\<close> parses \<^verbatim>\<open>D:P(A;flags;FA;;;SY)(A;flags;FA;;;BA)\<close>; the two SIDs take 12 and 16 bytes.
\<close>

definition canonicalDACL :: "bool \<Rightarrow> ace option list" where
  "canonicalDACL directory =
     [Some \<lparr>ace_type = ACCESS_ALLOWED_ACE_TYPE, ace_size = 20, ace_flags = want_flags directory,
            ace_mask = fullControl, ace_sid = LocalSystem, ace_sid_valid = True, ace_sid_len = 12\<rparr>,
      Some \<lparr>ace_type = ACCESS_ALLOWED_ACE_TYPE, ace_size = 24, ace_flags = want_flags directory,
            ace_mask = fullControl, ace_sid = BuiltinAdministrators, ace_sid_valid = True, ace_sid_len = 16\<rparr>]"

text \<open>
  What \<^verbatim>\<open>SetSecurityInfo\<close> makes of a descriptor with \<^verbatim>\<open>DACL_SECURITY_INFORMATION\<close> and
  \<^verbatim>\<open>PROTECTED_DACL_SECURITY_INFORMATION\<close>: the list is replaced and protected, the owner stays.
\<close>

definition set_dacl :: "ace option list \<Rightarrow> descriptor \<Rightarrow> descriptor" where
  "set_dacl dacl d =
     d\<lparr>sd_control := map_option (\<lambda>c. c OR (SE_DACL_PRESENT OR SE_DACL_PROTECTED)) (sd_control d),
       sd_dacl := Some dacl\<rparr>"

section \<open>What the classes mean\<close>

text \<open>An entry that grants something to a trusted principal, and one that is exactly as wanted.\<close>

definition trusted_ace :: "ace \<Rightarrow> bool" where
  "trusted_ace a \<longleftrightarrow> ace_type a = ACCESS_ALLOWED_ACE_TYPE \<and> 16 \<le> ace_size a \<and> ace_sid_valid a
     \<and> ace_sid_len a + 8 \<le> ace_size a \<and> trustedSID (ace_sid a)"

definition flags_wanted :: "bool \<Rightarrow> ace \<Rightarrow> bool" where
  "flags_wanted directory a \<longleftrightarrow> ace_flags a AND NOT INHERITED_ACE = want_flags directory"

definition canonical_ace :: "bool \<Rightarrow> bool \<Rightarrow> ace \<Rightarrow> bool" where
  "canonical_ace directory root a \<longleftrightarrow> trusted_ace a \<and> flags_wanted directory a \<and> ace_mask a = fullControl
     \<and> (root \<longrightarrow> ace_flags a AND INHERITED_ACE = 0)"

definition grants :: "bool \<Rightarrow> sid \<Rightarrow> ace \<Rightarrow> bool" where
  "grants directory p a \<longleftrightarrow> flags_wanted directory a \<and> ace_mask a = fullControl \<and> ace_sid a = p"

definition flags_ok :: "bool \<Rightarrow> bool \<Rightarrow> ace \<Rightarrow> bool" where
  "flags_ok directory root a \<longleftrightarrow> flags_wanted directory a \<and> (root \<longrightarrow> ace_flags a AND INHERITED_ACE = 0)"

lemma scan_aces_Some:
  "scan_aces directory root (Some a # es) (s, m, f) =
     (if ace_type a \<noteq> ACCESS_ALLOWED_ACE_TYPE \<or> ace_size a < 16 \<or> \<not> ace_sid_valid a
         \<or> ace_sid_len a + 8 > ace_size a then Inl None
      else if \<not> trustedSID (ace_sid a) then Inl (Some a)
      else scan_aces directory root es
             (s \<or> grants directory LocalSystem a, m \<or> grants directory BuiltinAdministrators a,
              f \<and> flags_ok directory root a))"
  by (auto simp: Let_def grants_def flags_ok_def flags_wanted_def)

lemma ex_entry_Cons: "(\<exists>a. Some a \<in> set (Some b # es) \<and> P a) \<longleftrightarrow> P b \<or> (\<exists>a. Some a \<in> set es \<and> P a)"
  and all_entry_Cons: "(\<forall>a. Some a \<in> set (Some b # es) \<longrightarrow> P a) \<longleftrightarrow> P b \<and> (\<forall>a. Some a \<in> set es \<longrightarrow> P a)"
  by auto

lemma scan_aces_iff:
  "scan_aces directory root es (s, m, f) = Inr (s', m', f') \<longleftrightarrow>
     (\<forall>e \<in> set es. \<exists>a. e = Some a \<and> trusted_ace a)
     \<and> s' = (s \<or> (\<exists>a. Some a \<in> set es \<and> grants directory LocalSystem a))
     \<and> m' = (m \<or> (\<exists>a. Some a \<in> set es \<and> grants directory BuiltinAdministrators a))
     \<and> f' = (f \<and> (\<forall>a. Some a \<in> set es \<longrightarrow> flags_ok directory root a))"
proof (induction es arbitrary: s m f)
  case Nil
  then show ?case by auto
next
  case (Cons e es)
  show ?case
  proof (cases e)
    case None
    then show ?thesis by simp
  next
    case (Some a)
    show ?thesis
    proof (cases "trusted_ace a")
      case False
      then have "\<not> (\<forall>e \<in> set (Some a # es). \<exists>a. e = Some a \<and> trusted_ace a)" by simp
      moreover have "scan_aces directory root (Some a # es) (s, m, f) \<noteq> Inr (s', m', f')"
        using False by (auto simp: scan_aces_Some trusted_ace_def simp del: scan_aces.simps)
      ultimately show ?thesis unfolding Some by blast
    next
      case True
      then have eq: "scan_aces directory root (Some a # es) (s, m, f) =
          scan_aces directory root es (s \<or> grants directory LocalSystem a, m \<or> grants directory BuiltinAdministrators a,
              f \<and> flags_ok directory root a)"
        by (auto simp: scan_aces_Some trusted_ace_def simp del: scan_aces.simps)
      have "(\<forall>e \<in> set (Some a # es). \<exists>a. e = Some a \<and> trusted_ace a)
          = (\<forall>e \<in> set es. \<exists>a. e = Some a \<and> trusted_ace a)" using True by simp
      then show ?thesis
        unfolding Some eq Cons.IH ex_entry_Cons all_entry_Cons by (simp only: disj_assoc conj_assoc)
    qed
  qed
qed

lemma two_entries:
  assumes "length es = 2" and "\<forall>e \<in> set es. \<exists>a. e = Some a \<and> P a"
  obtains a b where "es = [Some a, Some b]" and "P a" and "P b"
proof -
  obtain x y where es: "es = [x, y]" using assms(1) by (auto simp: numeral_2_eq_2 length_Suc_conv)
  with assms(2) that show ?thesis by auto
qed

definition canonical_descriptor :: "bool \<Rightarrow> bool \<Rightarrow> descriptor \<Rightarrow> bool" where
  "canonical_descriptor directory root d \<longleftrightarrow>
     sd_valid d \<and> (\<exists>owner. sd_owner d = Some owner \<and> trustedSID owner)
     \<and> (\<exists>c. sd_control d = Some c \<and> c AND SE_DACL_PRESENT \<noteq> 0 \<and> (if root then c AND SE_DACL_PROTECTED \<noteq> 0 else True))
     \<and> (\<exists>a b. sd_dacl d = Some [Some a, Some b] \<and> canonical_ace directory root a
          \<and> canonical_ace directory root b \<and> {ace_sid a, ace_sid b} = {LocalSystem, BuiltinAdministrators})"

lemma not_unsafeD:
  assumes "as_class (classifyDescriptor sd directory root) \<noteq> Unsafe"
  obtains d owner c dacl s m f where "sd = Some d" "sd_valid d" "sd_owner d = Some owner" "trustedSID owner"
    "sd_control d = Some c" "c AND SE_DACL_PRESENT \<noteq> 0" "sd_dacl d = Some dacl"
    "scan_aces directory root dacl (False, False, True) = Inr (s, m, f)"
    "as_class (classifyDescriptor sd directory root) =
       (if f \<and> s \<and> m \<and> length dacl = 2 \<and> (root \<longrightarrow> c AND SE_DACL_PROTECTED \<noteq> 0) then Canonical else Repairable)"
  using assms
  by (auto simp: classifyDescriptor_def unsafeAssessment_def Let_def
      split: option.splits if_splits sum.splits prod.splits)

lemma canonical_imp:
  assumes "as_class (classifyDescriptor (Some d) directory root) = Canonical"
  shows "canonical_descriptor directory root d"
proof -
  have "as_class (classifyDescriptor (Some d) directory root) \<noteq> Unsafe" using assms by simp
  then obtain owner c dacl s m f where
    d: "sd_valid d" "sd_owner d = Some owner" "trustedSID owner" "sd_control d = Some c"
      "c AND SE_DACL_PRESENT \<noteq> 0" "sd_dacl d = Some dacl"
    and sc: "scan_aces directory root dacl (False, False, True) = Inr (s, m, f)"
    and cl: "as_class (classifyDescriptor (Some d) directory root) =
       (if f \<and> s \<and> m \<and> length dacl = 2 \<and> (root \<longrightarrow> c AND SE_DACL_PROTECTED \<noteq> 0) then Canonical else Repairable)"
    by (rule not_unsafeD) auto
  from cl assms have k: "f" "s" "m" "length dacl = 2" "root \<longrightarrow> c AND SE_DACL_PROTECTED \<noteq> 0"
    by (auto split: if_splits)
  note sc' = sc [unfolded scan_aces_iff]
  obtain a b where ab: "dacl = [Some a, Some b]" "trusted_ace a" "trusted_ace b"
    using k(4) sc' by (metis two_entries)
  have fl: "flags_wanted directory a" "flags_wanted directory b"
    "root \<longrightarrow> ace_flags a AND INHERITED_ACE = 0" "root \<longrightarrow> ace_flags b AND INHERITED_ACE = 0"
    using sc' k(1) ab(1) by (auto simp: flags_ok_def)
  have sids: "(ace_sid a = LocalSystem \<and> ace_mask a = fullControl) \<or> (ace_sid b = LocalSystem \<and> ace_mask b = fullControl)"
    "(ace_sid a = BuiltinAdministrators \<and> ace_mask a = fullControl)
      \<or> (ace_sid b = BuiltinAdministrators \<and> ace_mask b = fullControl)"
    using sc' k(2,3) ab(1) by (auto simp: grants_def)
  then have "{ace_sid a, ace_sid b} = {LocalSystem, BuiltinAdministrators}" "ace_mask a = fullControl" "ace_mask b = fullControl"
    by auto
  with d k(5) ab fl show ?thesis by (auto simp: canonical_descriptor_def canonical_ace_def)
qed

lemma imp_canonical:
  assumes "canonical_descriptor directory root d"
  shows "as_class (classifyDescriptor (Some d) directory root) = Canonical"
proof -
  obtain owner c a b where
    d: "sd_valid d" "sd_owner d = Some owner" "trustedSID owner" "sd_control d = Some c"
      "c AND SE_DACL_PRESENT \<noteq> 0" "root \<longrightarrow> c AND SE_DACL_PROTECTED \<noteq> 0" "sd_dacl d = Some [Some a, Some b]"
    and ab: "canonical_ace directory root a" "canonical_ace directory root b"
      "{ace_sid a, ace_sid b} = {LocalSystem, BuiltinAdministrators}"
    using assms by (auto simp: canonical_descriptor_def)
  have "scan_aces directory root [Some a, Some b] (False, False, True) = Inr (True, True, True)"
  proof -
    have "ace_sid a = LocalSystem \<and> ace_sid b = BuiltinAdministrators
        \<or> ace_sid a = BuiltinAdministrators \<and> ace_sid b = LocalSystem"
      using ab(3) by (auto simp: doubleton_eq_iff)
    then show ?thesis unfolding scan_aces_iff using ab(1,2) by (auto simp: canonical_ace_def grants_def flags_ok_def)
  qed
  with d show ?thesis by (simp add: classifyDescriptor_def Let_def)
qed

text \<open>
  C21. A descriptor is canonical exactly when it is owned by SYSTEM or the Administrators and its list
  is one full-control entry for each of the two, with the inheritance the object calls for, and,
  for the root, protected and not inherited.
\<close>

theorem canonical_iff:
  "as_class (classifyDescriptor (Some d) directory root) = Canonical \<longleftrightarrow>
     sd_valid d \<and> (\<exists>owner. sd_owner d = Some owner \<and> trustedSID owner)
     \<and> (\<exists>c. sd_control d = Some c \<and> c AND SE_DACL_PRESENT \<noteq> 0 \<and> (if root then c AND SE_DACL_PROTECTED \<noteq> 0 else True))
     \<and> (\<exists>a b. sd_dacl d = Some [Some a, Some b] \<and> canonical_ace directory root a
          \<and> canonical_ace directory root b \<and> {ace_sid a, ace_sid b} = {LocalSystem, BuiltinAdministrators})"
proof -
  have "as_class (classifyDescriptor (Some d) directory root) = Canonical \<longleftrightarrow> canonical_descriptor directory root d"
    using canonical_imp [of d directory root] imp_canonical [of directory root d] by blast
  then show ?thesis unfolding canonical_descriptor_def .
qed

section \<open>Only the two principals\<close>

text \<open>
  Whatever is canonical or may be repaired is owned by SYSTEM or the Administrators, and no entry
  of its list names anybody else: a descriptor that gives a foreign principal anything is never
  repaired and never passes.
\<close>

theorem foreign_access_is_unsafe:
  assumes "as_class (classifyDescriptor (Some d) directory root) \<noteq> Unsafe"
  shows "(\<exists>owner. sd_owner d = Some owner \<and> trustedSID owner)
    \<and> (\<exists>dacl. sd_dacl d = Some dacl \<and>
         list_all (\<lambda>e. \<exists>a. e = Some a \<and> trustedSID (ace_sid a) \<and> ace_type a = ACCESS_ALLOWED_ACE_TYPE) dacl)"
  using assms
proof (rule not_unsafeD)
  fix d' owner c dacl s m f
  assume "Some d = Some d'" "sd_owner d' = Some owner" "trustedSID owner" "sd_dacl d' = Some dacl"
    and "scan_aces directory root dacl (False, False, True) = Inr (s, m, f)"
  then show ?thesis unfolding scan_aces_iff by (fastforce simp: trusted_ace_def list_all_iff)
qed

section \<open>The two checks together\<close>

lemma want_flags_bits:
  assumes "flags AND NOT INHERITED_ACE = want_flags directory"
  shows "flags AND 0x08 = 0" and "directory \<Longrightarrow> flags AND 0x03 = 0x03"
proof -
  have "flags AND 0x08 = (flags AND NOT INHERITED_ACE) AND 0x08"
    by (simp add: INHERITED_ACE_def and.assoc)
  also have "\<dots> = 0" unfolding assms by (simp add: want_flags_def)
  finally show "flags AND 0x08 = 0" .
  have "flags AND 0x03 = (flags AND NOT INHERITED_ACE) AND 0x03"
    by (simp add: INHERITED_ACE_def and.assoc)
  then show "flags AND 0x03 = 0x03" if directory using that unfolding assms by (simp add: want_flags_def)
qed

lemma canonical_ace_validated:
  assumes "canonical_ace directory root a"
  shows "validate_aces directory (Some a # es) (s, m) =
    validate_aces directory es (s \<or> ace_sid a = LocalSystem, m \<or> ace_sid a = BuiltinAdministrators)"
  using assms want_flags_bits [of "ace_flags a" directory]
  by (auto simp: canonical_ace_def trusted_ace_def flags_wanted_def)

text \<open>
  C22. The startup gate implies the check made when the private key is loaded: a file or directory
  that the gate left canonical passes \<^verbatim>\<open>validateDescriptor\<close>.
\<close>

theorem gate_implies_key_check:
  assumes "as_class (classifyDescriptor (Some d) directory root) = Canonical"
  shows "validateDescriptor d directory"
proof -
  obtain owner a b where d: "sd_owner d = Some owner" "trustedSID owner" "sd_dacl d = Some [Some a, Some b]"
    and ab: "canonical_ace directory root a" "canonical_ace directory root b"
      "{ace_sid a, ace_sid b} = {LocalSystem, BuiltinAdministrators}"
    using canonical_imp [OF assms] by (auto simp: canonical_descriptor_def)
  have "validate_aces directory [Some a, Some b] (False, False) = Some (True, True)"
    using ab(3) by (auto simp: canonical_ace_validated [OF ab(1)] canonical_ace_validated [OF ab(2)] doubleton_eq_iff
        simp del: validate_aces.simps(3))
  with d show ?thesis by (simp add: validateDescriptor_def)
qed

section \<open>A repair reaches the canonical state\<close>

lemma canonicalDACL_entries:
  "\<exists>a b. canonicalDACL directory = [Some a, Some b] \<and> canonical_ace directory root a
     \<and> canonical_ace directory root b \<and> {ace_sid a, ace_sid b} = {LocalSystem, BuiltinAdministrators}"
  by (auto simp: canonicalDACL_def canonical_ace_def trusted_ace_def trustedSID_def flags_wanted_def
      want_flags_def INHERITED_ACE_def)

lemma or_and_absorb: "b AND m \<noteq> 0 \<Longrightarrow> (c OR b) AND m \<noteq> (0 :: 'a :: len word)"
  by (metis and.commute bit.conj_disj_distrib or_eq_0_iff)

text \<open>
  Installing the canonical list makes every descriptor canonical that is valid, readable and owned
  by one of the two principals, whatever its list was: a repair that the system carries out is
  complete, and repeating it changes nothing.
\<close>

theorem repair_reaches_canonical:
  assumes "sd_valid d" and "sd_owner d = Some owner" and "trustedSID owner" and "sd_control d = Some c"
  shows "as_class (classifyDescriptor (Some (set_dacl (canonicalDACL directory) d)) directory root) = Canonical
    \<and> set_dacl (canonicalDACL directory) (set_dacl (canonicalDACL directory) d) = set_dacl (canonicalDACL directory) d"
proof
  let ?d = "set_dacl (canonicalDACL directory) d"
  have "(c OR (SE_DACL_PRESENT OR SE_DACL_PROTECTED)) AND SE_DACL_PRESENT \<noteq> 0"
    "(c OR (SE_DACL_PRESENT OR SE_DACL_PROTECTED)) AND SE_DACL_PROTECTED \<noteq> 0"
    by (rule or_and_absorb; simp add: SE_DACL_PRESENT_def SE_DACL_PROTECTED_def)+
  then have "canonical_descriptor directory root ?d"
    using assms canonicalDACL_entries [of directory root] by (simp add: canonical_descriptor_def set_dacl_def)
  then show "as_class (classifyDescriptor (Some ?d) directory root) = Canonical" by (rule imp_canonical)
  show "set_dacl (canonicalDACL directory) ?d = ?d"
    by (simp add: set_dacl_def assms(4) or.assoc)
qed

section \<open>Witnesses\<close>

definition sample_descriptor :: "ace option list \<Rightarrow> descriptor" where
  "sample_descriptor dacl =
     \<lparr>sd_valid = True, sd_owner = Some BuiltinAdministrators, sd_control = Some SE_DACL_PRESENT, sd_dacl = Some dacl\<rparr>"

lemma sample_not_unsafe:
  "as_class (classifyDescriptor (Some (sample_descriptor [])) True True) = Repairable"
  by (simp add: classifyDescriptor_def sample_descriptor_def trustedSID_def SE_DACL_PRESENT_def Let_def)

theorem foreign_access_is_unsafe_witness:
  "\<exists>dacl. sd_dacl (sample_descriptor []) = Some dacl \<and>
     list_all (\<lambda>e. \<exists>a. e = Some a \<and> trustedSID (ace_sid a) \<and> ace_type a = ACCESS_ALLOWED_ACE_TYPE) dacl"
  using foreign_access_is_unsafe [of "sample_descriptor []" True True] sample_not_unsafe by simp

theorem repair_reaches_canonical_witness:
  "as_class (classifyDescriptor (Some (set_dacl (canonicalDACL True) (sample_descriptor []))) True True) = Canonical"
  using repair_reaches_canonical [of "sample_descriptor []" BuiltinAdministrators SE_DACL_PRESENT True True]
  by (simp add: sample_descriptor_def trustedSID_def)

theorem gate_implies_key_check_witness:
  "validateDescriptor (sample_descriptor (canonicalDACL False)) False"
proof (rule gate_implies_key_check)
  show "as_class (classifyDescriptor (Some (sample_descriptor (canonicalDACL False))) False False) = Canonical"
    using canonicalDACL_entries [of False False]
    by (intro imp_canonical)
      (simp add: canonical_descriptor_def sample_descriptor_def trustedSID_def SE_DACL_PRESENT_def)
qed

end
