(* ===== verification/RuntimeSecurity.thy ===== *)
theory RuntimeSecurity
  imports AppPaths RuntimeAcl "HOL-Library.Multiset"
begin

text \<open>
  The startup gate of the Service: \<^verbatim>\<open>internal/protectedpath/runtime.go\<close> and
  \<^verbatim>\<open>internal/protectedpath/runtime_windows.go\<close>.

  The operating system is a family of answers.  Each answer may depend on the whole history of what
  the program has done so far, so that every failure, at every moment, and every change made by
  another process between two calls is covered.  The state of the gate is that history: a list of
  the handles opened and closed, the inspections with their outcome, the repairs, the runtime lock and
  the diagnostics, oldest first.  (The directories made and the action of \<^verbatim>\<open>WithFiles\<close> belong to
  the dynamic boundary, which continues the same history.)
\<close>

section \<open>State\<close>

record diagnostic =
  dg_path :: string
  dg_class :: acl_class
  dg_reason :: string
  dg_action :: string
  dg_owner :: string
  dg_principal :: string
  dg_mask :: "32 word"
  dg_scope :: string

datatype event =
    PinnedAncestor string
  | OpenedObject string
  | ClosedHandle string
  | Inspected string assessment
  | Repaired string bool
  | LockAnswer bool
  | Unlocked
  | MadeDirectory string
  | Acted
  | Reported diagnostic

type_synonym history = "event list"

datatype open_answer = Opened | Missing | OpenFailed

record file_info =
  fi_reparse :: bool
  fi_directory :: bool
  fi_links :: nat

record os =
  os_open :: "history \<Rightarrow> string \<Rightarrow> open_answer"
  os_create_lock :: "history \<Rightarrow> string \<Rightarrow> bool"
  os_lock_descriptor :: bool
  os_info :: "history \<Rightarrow> string \<Rightarrow> file_info option"
  os_final :: "history \<Rightarrow> string \<Rightarrow> string option"
  os_security :: "history \<Rightarrow> string \<Rightarrow> descriptor option"
  os_set_dacl :: "history \<Rightarrow> string \<Rightarrow> bool"
  os_lock :: "history \<Rightarrow> bool"
  os_cancelled :: "history \<Rightarrow> bool"

datatype pinnedObject =
  Pinned (po_path: string) (po_directory: bool) (po_root: bool) (po_scope: string) (po_parent: "pinnedObject option")

datatype security_error = SecurityError string string | ContextDone | DescriptorFailed

section \<open>Reports\<close>

text \<open>\<^verbatim>\<open>report\<close>: one diagnostic for each reason, in the scope of the reporter.\<close>

definition report :: "string \<Rightarrow> string \<Rightarrow> assessment \<Rightarrow> string \<Rightarrow> history \<Rightarrow> history" where
  "report scope path a action h =
     h @ map (\<lambda>reason. Reported \<lparr>dg_path = path, dg_class = as_class a, dg_reason = reason, dg_action = action,
                dg_owner = as_owner a, dg_principal = as_principal a, dg_mask = as_mask a, dg_scope = scope\<rparr>)
           (as_reasons a)"

section \<open>Inspection and repair of one object\<close>

text \<open>\<^verbatim>\<open>inspectStructure\<close>; a canonical structure has no reasons.\<close>

definition inspectStructure :: "path_lib \<Rightarrow> os \<Rightarrow> pinnedObject \<Rightarrow> history \<Rightarrow> assessment" where
  "inspectStructure L s o' h =
     (case os_info s h (po_path o') of
        None \<Rightarrow> unsafeAssessment ''security_descriptor_unreadable''
      | Some info \<Rightarrow>
          if fi_reparse info then unsafeAssessment ''reparse_point_detected''
          else if fi_directory info \<noteq> po_directory o' then unsafeAssessment ''unexpected_object_type''
          else if \<not> po_directory o' \<and> fi_links info \<noteq> 1 then unsafeAssessment ''hard_link_detected''
          else (case os_final s h (po_path o') of
                  None \<Rightarrow> unsafeAssessment ''path_escape''
                | Some name \<Rightarrow>
                    if \<not> pl_fold L name (po_path o') then unsafeAssessment ''path_escape''
                    else \<lparr>as_class = Canonical, as_owner = '''', as_principal = '''', as_mask = 0, as_reasons = []\<rparr>))"

definition assess :: "path_lib \<Rightarrow> os \<Rightarrow> pinnedObject \<Rightarrow> history \<Rightarrow> assessment" where
  "assess L s o' h =
     (let a = inspectStructure L s o' h
      in if as_class a \<noteq> Canonical then a
         else case os_security s h (po_path o') of
                None \<Rightarrow> unsafeAssessment ''security_descriptor_unreadable''
              | Some d \<Rightarrow> classifyDescriptor (Some d) (po_directory o') (po_root o'))"

definition inspect :: "path_lib \<Rightarrow> os \<Rightarrow> pinnedObject \<Rightarrow> history \<Rightarrow> assessment \<times> history" where
  "inspect L s o' h = (let a = assess L s o' h in (a, h @ [Inspected (po_path o') a]))"

text \<open>\<^verbatim>\<open>repair\<close> sets the canonical list on the pinned handle; here only its success is observed.\<close>

definition repair :: "os \<Rightarrow> pinnedObject \<Rightarrow> history \<Rightarrow> bool \<times> history" where
  "repair s o' h = (let ok = os_set_dacl s h (po_path o') in (ok, h @ [Repaired (po_path o') ok]))"

definition first_reason :: "assessment \<Rightarrow> string" where
  "first_reason a = (case as_reasons a of [] \<Rightarrow> '''' | r # _ \<Rightarrow> r)"

definition plain_assessment :: "acl_class \<Rightarrow> string \<Rightarrow> string \<Rightarrow> assessment" where
  "plain_assessment c owner reason =
     \<lparr>as_class = c, as_owner = owner, as_principal = '''', as_mask = 0, as_reasons = [reason]\<rparr>"

definition ensureObject :: "path_lib \<Rightarrow> os \<Rightarrow> pinnedObject \<Rightarrow> history \<Rightarrow> security_error option \<times> history" where
  "ensureObject L s o' h =
     (let path = po_path o'; scope = po_scope o'
      in if os_cancelled s h then (Some ContextDone, h)
         else case inspect L s o' h of
           (a, h1) \<Rightarrow>
             if as_class a = Unsafe then (Some (SecurityError path (first_reason a)), report scope path a ''fail_closed'' h1)
             else if as_class a = Canonical then (None, h1)
             else
               let h2 = report scope path (plain_assessment Repairable '''' ''repair_started'') ''self_repair''
                          (report scope path a ''self_repair'' h1)
               in case repair s o' h2 of
                 (ok, h3) \<Rightarrow>
                   if \<not> ok
                   then (Some (SecurityError path ''repair_failed''),
                         report scope path (unsafeAssessment ''repair_failed'') ''fail_closed'' h3)
                   else case inspect L s o' h3 of
                     (a1, h4) \<Rightarrow>
                       if as_class a1 \<noteq> Canonical
                       then (Some (SecurityError path ''post_repair_validation_failed''),
                             report scope path (unsafeAssessment ''post_repair_validation_failed'') ''fail_closed''
                               (report scope path a1 ''fail_closed'' h4))
                       else (None, report scope path (plain_assessment Canonical (as_owner a1) ''repair_success'')
                                     ''verified'' h4))"

section \<open>All objects\<close>

text \<open>The three loops of \<^verbatim>\<open>ensureObjects\<close>: preflight, repair, final validation.\<close>

fun preflight :: "path_lib \<Rightarrow> os \<Rightarrow> pinnedObject list \<Rightarrow> history \<Rightarrow> security_error option \<times> history" where
  "preflight L s [] h = (None, h)"
| "preflight L s (x # xs) h =
     (case inspect L s x h of
        (a, h1) \<Rightarrow>
          if as_class a = Unsafe
          then (Some (SecurityError (po_path x) (first_reason a)), report (po_scope x) (po_path x) a ''fail_closed'' h1)
          else preflight L s xs h1)"

definition check_parent :: "path_lib \<Rightarrow> os \<Rightarrow> pinnedObject \<Rightarrow> history \<Rightarrow> security_error option \<times> history" where
  "check_parent L s x h =
     (case po_parent x of
        None \<Rightarrow> (None, h)
      | Some p \<Rightarrow>
          (case inspect L s p h of
             (a, h1) \<Rightarrow>
               if as_class a \<noteq> Canonical
               then (Some (SecurityError (po_path p) ''parent_validation_failed''),
                     report (po_scope p) (po_path p) (unsafeAssessment ''parent_validation_failed'') ''fail_closed''
                       (report (po_scope p) (po_path p) a ''fail_closed'' h1))
               else (None, h1)))"

fun repair_all :: "path_lib \<Rightarrow> os \<Rightarrow> pinnedObject list \<Rightarrow> history \<Rightarrow> security_error option \<times> history" where
  "repair_all L s [] h = (None, h)"
| "repair_all L s (x # xs) h =
     (case check_parent L s x h of
        (Some e, h1) \<Rightarrow> (Some e, h1)
      | (None, h1) \<Rightarrow>
          (case ensureObject L s x h1 of
             (Some e, h2) \<Rightarrow> (Some e, h2)
           | (None, h2) \<Rightarrow> repair_all L s xs h2))"

fun validate_all :: "path_lib \<Rightarrow> os \<Rightarrow> pinnedObject list \<Rightarrow> history \<Rightarrow> security_error option \<times> history" where
  "validate_all L s [] h = (None, h)"
| "validate_all L s (x # xs) h =
     (case inspect L s x h of
        (a, h1) \<Rightarrow>
          if as_class a \<noteq> Canonical
          then (Some (SecurityError (po_path x) ''post_repair_validation_failed''),
                report (po_scope x) (po_path x) (unsafeAssessment ''post_repair_validation_failed'') ''fail_closed''
                  (report (po_scope x) (po_path x) a ''fail_closed'' h1))
          else validate_all L s xs h1)"

definition ensureObjects :: "path_lib \<Rightarrow> os \<Rightarrow> pinnedObject list \<Rightarrow> history \<Rightarrow> security_error option \<times> history" where
  "ensureObjects L s xs h =
     (case preflight L s xs h of
        (Some e, h1) \<Rightarrow> (Some e, h1)
      | (None, h1) \<Rightarrow>
          (case repair_all L s xs h1 of
             (Some e, h2) \<Rightarrow> (Some e, h2)
           | (None, h2) \<Rightarrow> validate_all L s xs h2))"

section \<open>Ancestors\<close>

text \<open>
  The parents of a path, nearest first, up to the path that is its own parent.  The fuel is the
  length of the path: every step that changes the path shortens it.
\<close>

fun dir_chain :: "path_lib \<Rightarrow> nat \<Rightarrow> string \<Rightarrow> string list" where
  "dir_chain L 0 p = [p]"
| "dir_chain L (Suc n) p = (if pl_dir L p = p then [p] else p # dir_chain L n (pl_dir L p))"

lemma dir_chain_enough:
  assumes "\<And>q. pl_dir L q \<noteq> q \<Longrightarrow> length (pl_dir L q) < length q" and "length p \<le> n"
  shows "pl_dir L (last (dir_chain L n p)) = last (dir_chain L n p)"
  using assms(2)
proof (induction n arbitrary: p)
  case 0
  then show ?case using assms(1) [of p] by auto
next
  case (Suc n)
  then show ?case
  proof (cases "pl_dir L p = p")
    case False
    then have "length (pl_dir L p) \<le> n" using assms(1) [of p] Suc.prems by linarith
    moreover have "dir_chain L n (pl_dir L p) \<noteq> []" by (cases n) auto
    ultimately show ?thesis using False Suc.IH by simp
  qed simp
qed

text \<open>What is checked of an ancestor, its handle being open.\<close>

definition ancestor_fault :: "path_lib \<Rightarrow> os \<Rightarrow> string \<Rightarrow> history \<Rightarrow> string option" where
  "ancestor_fault L s p h =
     (case os_info s h p of
        None \<Rightarrow> Some ''security_descriptor_unreadable''
      | Some info \<Rightarrow>
          if fi_reparse info then Some ''reparse_point_detected''
          else if \<not> fi_directory info then Some ''unexpected_object_type''
          else (case os_final s h p of
                  None \<Rightarrow> Some ''path_escape''
                | Some name \<Rightarrow> if \<not> pl_fold L name p then Some ''path_escape'' else None))"

fun pin_from :: "path_lib \<Rightarrow> os \<Rightarrow> string list \<Rightarrow> string list \<Rightarrow> history \<Rightarrow> (security_error + string list) \<times> history" where
  "pin_from L s pins [] h = (Inr pins, h)"
| "pin_from L s pins (p # ps) h =
     (if os_open s h p \<noteq> Opened
      then (Inl (SecurityError p ''security_descriptor_unreadable''), h @ map ClosedHandle pins)
      else
        let h1 = h @ [PinnedAncestor p]; pins1 = pins @ [p]
        in case ancestor_fault L s p h1 of
             Some reason \<Rightarrow> (Inl (SecurityError p reason), h1 @ map ClosedHandle pins1)
           | None \<Rightarrow> pin_from L s pins1 ps h1)"

definition pinAncestors :: "path_lib \<Rightarrow> os \<Rightarrow> string \<Rightarrow> history \<Rightarrow> (security_error + string list) \<times> history" where
  "pinAncestors L s root h =
     (if \<not> pl_abs L root \<or> has_prefix root [CHR 0x5C, CHR 0x5C]
      then (Inl (SecurityError root ''path_escape''), h)
      else pin_from L s [] (rev (dir_chain L (length root) (pl_dir L root))) h)"

section \<open>The startup plan\<close>

record startupTarget =
  st_path :: string
  st_directory :: bool
  st_required :: bool
  st_scope :: string

definition startup_targets :: "path_lib \<Rightarrow> app_paths \<Rightarrow> startupTarget list" where
  "startup_targets L p =
     [\<lparr>st_path = ap_root p, st_directory = True, st_required = True, st_scope = ''critical''\<rparr>,
      \<lparr>st_path = ap_identity p, st_directory = False, st_required = False, st_scope = ''critical''\<rparr>,
      \<lparr>st_path = ap_enrollment p, st_directory = False, st_required = False, st_scope = ''critical''\<rparr>,
      \<lparr>st_path = ap_config p, st_directory = False, st_required = False, st_scope = ''critical''\<rparr>,
      \<lparr>st_path = RuntimeLock L p, st_directory = False, st_required = False, st_scope = ''critical''\<rparr>,
      \<lparr>st_path = IdentityBackup p, st_directory = False, st_required = False, st_scope = ''critical''\<rparr>,
      \<lparr>st_path = pl_dir L (ap_log p), st_directory = True, st_required = False, st_scope = ''container''\<rparr>,
      \<lparr>st_path = pl_dir L (ap_downloads p), st_directory = True, st_required = False, st_scope = ''container''\<rparr>,
      \<lparr>st_path = ap_downloads p, st_directory = True, st_required = False, st_scope = ''container''\<rparr>]"

text \<open>The callback on one target: the objects opened so far, the lock among them.\<close>

definition rel_escapes :: "path_lib \<Rightarrow> string \<Rightarrow> string \<Rightarrow> bool" where
  "rel_escapes L root path =
     (case pl_rel L root path of
        None \<Rightarrow> True
      | Some rel \<Rightarrow> rel = ''..'' \<or> has_prefix rel (''..'' @ [CHR 0x5C]) \<or> pl_abs L rel)"

definition find_parent :: "path_lib \<Rightarrow> pinnedObject list \<Rightarrow> string \<Rightarrow> pinnedObject option" where
  "find_parent L objects path =
     find (\<lambda>x. pl_lower L (po_path x) = pl_lower L (pl_dir L path)) (rev objects)"

type_synonym gate_objects = "pinnedObject list \<times> pinnedObject option"

definition visit :: "path_lib \<Rightarrow> os \<Rightarrow> app_paths \<Rightarrow> startupTarget \<Rightarrow> gate_objects \<Rightarrow> history
    \<Rightarrow> security_error option \<times> gate_objects \<times> history" where
  "visit L s paths t g h =
     (let path = st_path t; (objects, lock) = g;
          failTarget = (\<lambda>reason. (Some (SecurityError path reason), g,
                                  report (st_scope t) path (unsafeAssessment reason) ''fail_closed'' h))
      in if rel_escapes L (ap_root paths) path then failTarget ''path_escape''
         else case os_open s h path of
           Missing \<Rightarrow> if \<not> st_required t then (None, g, h) else failTarget ''security_descriptor_unreadable''
         | OpenFailed \<Rightarrow> failTarget ''security_descriptor_unreadable''
         | Opened \<Rightarrow>
             let x = Pinned path (st_directory t) (st_required t) (st_scope t)
                       (if st_required t then None else find_parent L objects path);
                 objects1 = objects @ [x]
             in case inspect L s x (h @ [OpenedObject path]) of
                  (a, h1) \<Rightarrow>
                    if as_class a = Unsafe
                    then (Some (SecurityError path (first_reason a)), (objects1, lock),
                          report (st_scope t) path a ''fail_closed'' h1)
                    else (None, (objects1, if pl_fold L path (RuntimeLock L paths) then Some x else lock),
                          report (st_scope t) path a ''inspect'' h1))"

fun inspectStartupScope :: "path_lib \<Rightarrow> os \<Rightarrow> app_paths \<Rightarrow> startupTarget list \<Rightarrow> gate_objects \<Rightarrow> history
    \<Rightarrow> security_error option \<times> gate_objects \<times> history" where
  "inspectStartupScope L s paths [] g h = (None, g, h)"
| "inspectStartupScope L s paths (t # ts) g h =
     (if os_cancelled s h then (Some ContextDone, g, h)
      else case visit L s paths t g h of
             (Some e, g1, h1) \<Rightarrow> (Some e, g1, h1)
           | (None, g1, h1) \<Rightarrow> inspectStartupScope L s paths ts g1 h1)"

section \<open>The gate\<close>

text \<open>\<^verbatim>\<open>cleanup\<close>, which is also the release function handed to the caller.\<close>

definition cleanup :: "bool \<Rightarrow> pinnedObject list \<Rightarrow> string list \<Rightarrow> history \<Rightarrow> history" where
  "cleanup locked objects ancestors h =
     h @ (if locked then [Unlocked] else []) @ map (\<lambda>x. ClosedHandle (po_path x)) (rev objects)
       @ map ClosedHandle (rev ancestors)"

text \<open>From the lock on; the lock object is created when the plan did not find it.\<close>

definition obtain_lock :: "path_lib \<Rightarrow> os \<Rightarrow> app_paths \<Rightarrow> gate_objects \<Rightarrow> history
    \<Rightarrow> security_error option \<times> gate_objects \<times> history" where
  "obtain_lock L s paths g h =
     (case g of
        (objects, Some lock) \<Rightarrow> (None, g, h)
      | (objects, None) \<Rightarrow>
          if \<not> os_lock_descriptor s then (Some DescriptorFailed, g, h)
          else if \<not> os_create_lock s h (RuntimeLock L paths)
          then (Some (SecurityError (ap_root paths) ''runtime_lock_failed''), g,
                report ''critical'' (ap_root paths) (unsafeAssessment ''runtime_lock_failed'') ''fail_closed'' h)
          else
            let x = Pinned (RuntimeLock L paths) False False ''critical'' (Some (hd objects))
            in (None, (objects @ [x], Some x), h @ [OpenedObject (RuntimeLock L paths)]))"

definition take_lock :: "path_lib \<Rightarrow> os \<Rightarrow> pinnedObject \<Rightarrow> history \<Rightarrow> security_error option \<times> history" where
  "take_lock L s lock h =
     (case inspect L s lock h of
        (a, h1) \<Rightarrow>
          if as_class a = Unsafe
          then (Some (SecurityError (po_path lock) (first_reason a)), report ''critical'' (po_path lock) a ''fail_closed'' h1)
          else if \<not> os_lock s h1
          then (Some (SecurityError (po_path lock) ''runtime_lock_failed''),
                report ''critical'' (po_path lock) (unsafeAssessment ''runtime_lock_failed'') ''fail_closed''
                  (h1 @ [LockAnswer False]))
          else (None, h1 @ [LockAnswer True]))"

definition failed_gate :: "app_paths \<Rightarrow> bool \<Rightarrow> pinnedObject list \<Rightarrow> string list \<Rightarrow> security_error \<Rightarrow> history
    \<Rightarrow> (security_error + pinnedObject \<times> string list) \<times> history" where
  "failed_gate paths locked objects ancestors e h =
     (Inl e, cleanup locked objects ancestors
               (report ''critical'' (ap_root paths) (unsafeAssessment ''unsafe_acl_fail_closed'') ''fail_closed'' h))"

definition gate_locked :: "path_lib \<Rightarrow> os \<Rightarrow> app_paths \<Rightarrow> string list \<Rightarrow> pinnedObject list \<Rightarrow> pinnedObject \<Rightarrow> history
    \<Rightarrow> (security_error + pinnedObject \<times> string list) \<times> history" where
  "gate_locked L s paths ancestors objects lock h =
     (case ensureObjects L s objects h of
        (Some e, h1) \<Rightarrow> failed_gate paths True objects ancestors e h1
      | (None, h1) \<Rightarrow>
          (case inspect L s (hd objects) h1 of
             (a, h2) \<Rightarrow>
               (Inr (lock, ancestors),
                report ''critical'' (ap_root paths) a ''verified'' h2
                  @ map (\<lambda>x. ClosedHandle (po_path x)) (remove1 lock objects))))"

definition ensureStartup :: "path_lib \<Rightarrow> os \<Rightarrow> app_paths \<Rightarrow> (security_error + pinnedObject \<times> string list) \<times> history" where
  "ensureStartup L s paths =
     (case pinAncestors L s (ap_root paths) [] of
        (Inl e, h) \<Rightarrow>
          (Inl e, report ''critical'' (ap_root paths) (unsafeAssessment ''unsafe_acl_fail_closed'') ''fail_closed''
                    (case e of SecurityError p r \<Rightarrow> report ''critical'' p (unsafeAssessment r) ''fail_closed'' h | _ \<Rightarrow> h))
      | (Inr ancestors, h) \<Rightarrow>
          (case inspectStartupScope L s paths (startup_targets L paths) ([], None) h of
             (Some e, (objects, lock), h1) \<Rightarrow> failed_gate paths False objects ancestors e h1
           | (None, g, h1) \<Rightarrow>
               (case obtain_lock L s paths g h1 of
                  (Some e, (objects, lock), h2) \<Rightarrow> failed_gate paths False objects ancestors e h2
                | (None, (objects, lock), h2) \<Rightarrow>
                    (case take_lock L s (the lock) h2 of
                       (Some e, h3) \<Rightarrow> failed_gate paths False objects ancestors e h3
                     | (None, h3) \<Rightarrow> gate_locked L s paths ancestors objects (the lock) h3))))"

definition samePaths :: "path_lib \<Rightarrow> app_paths \<Rightarrow> app_paths \<Rightarrow> bool" where
  "samePaths L a b \<longleftrightarrow>
     list_all2 (pl_fold L)
       [ap_install a, ap_root a, ap_identity a, ap_enrollment a, ap_config a, ap_log a, ap_downloads a]
       [ap_install b, ap_root b, ap_identity b, ap_enrollment b, ap_config b, ap_log b, ap_downloads b]"

text \<open>\<^verbatim>\<open>EnsureRuntimeSecurity\<close>; \<open>expected\<close> is the answer of \<^verbatim>\<open>apppaths.Machine\<close>.\<close>

definition EnsureRuntimeSecurity ::
    "path_lib \<Rightarrow> os \<Rightarrow> app_paths option \<Rightarrow> app_paths \<Rightarrow> (security_error + pinnedObject \<times> string list) \<times> history" where
  "EnsureRuntimeSecurity L s expected paths =
     (case expected of
        None \<Rightarrow> (Inl (SecurityError (ap_root paths) ''path_resolution_failed''),
                 report '''' (ap_root paths) (unsafeAssessment ''path_resolution_failed'') ''fail_closed'' [])
      | Some p \<Rightarrow>
          if \<not> samePaths L paths p
          then (Inl (SecurityError (ap_root paths) ''path_escape''),
                report '''' (ap_root paths) (unsafeAssessment ''path_escape'') ''fail_closed'' [])
          else ensureStartup L s paths)"

section \<open>Reading a history\<close>

fun handle_event :: "event \<Rightarrow> string multiset \<Rightarrow> string multiset" where
  "handle_event (PinnedAncestor p) m = add_mset p m"
| "handle_event (OpenedObject p) m = add_mset p m"
| "handle_event (ClosedHandle p) m = m - {#p#}"
| "handle_event _ m = m"

text \<open>The handles that are open, and whether the runtime lock is held.\<close>

definition handles :: "history \<Rightarrow> string multiset" where
  "handles h = fold handle_event h {#}"

fun lock_event :: "event \<Rightarrow> bool \<Rightarrow> bool" where
  "lock_event (LockAnswer ok) b = (b \<or> ok)"
| "lock_event Unlocked b = False"
| "lock_event _ b = b"

definition lock_held :: "history \<Rightarrow> bool" where
  "lock_held h = fold lock_event h False"

fun is_report :: "event \<Rightarrow> bool" where
  "is_report (Reported d) = True"
| "is_report _ = False"

fun is_repair :: "event \<Rightarrow> bool" where
  "is_repair (Repaired p ok) = True"
| "is_repair _ = False"

text \<open>Events that only observe, and those that leave handles and lock alone.\<close>

fun observing :: "event \<Rightarrow> bool" where
  "observing (Inspected p a) = True"
| "observing (Reported d) = True"
| "observing _ = False"

definition extends :: "(event \<Rightarrow> bool) \<Rightarrow> history \<Rightarrow> history \<Rightarrow> bool" where
  "extends P h h' \<longleftrightarrow> (\<exists>es. h' = h @ es \<and> list_all P es)"

abbreviation calm :: "event \<Rightarrow> bool" where
  "calm e \<equiv> observing e \<or> is_repair e"

lemma extends_refl [simp]: "extends P h h"
  by (simp add: extends_def)

lemma extends_trans [trans]: "extends P h h1 \<Longrightarrow> extends P h1 h2 \<Longrightarrow> extends P h h2"
  by (fastforce simp: extends_def)

lemma extends_mono: "extends P h h' \<Longrightarrow> (\<And>e. P e \<Longrightarrow> Q e) \<Longrightarrow> extends Q h h'"
  by (auto simp: extends_def list_all_iff)

lemma extends_append [simp]: "extends P h (h @ es) \<longleftrightarrow> list_all P es"
  by (auto simp: extends_def)

lemma fold_calm:
  "list_all calm es \<Longrightarrow> fold handle_event es m = m \<and> fold lock_event es b = b"
proof (induction es arbitrary: m b)
  case (Cons e es)
  then show ?case by (cases e) auto
qed simp

lemma extends_calm:
  assumes "extends calm h h'"
  shows "handles h' = handles h" and "lock_held h' = lock_held h"
    and "OpenedObject p \<in> set h' \<longleftrightarrow> OpenedObject p \<in> set h"
  using assms fold_calm by (fastforce simp: extends_def handles_def lock_held_def list_all_iff)+

lemma extends_two [simp]: "extends P (h @ [e]) (h @ [e, f]) \<longleftrightarrow> P f"
  by (auto simp: extends_def)

lemma extends_passive_calm: "extends observing h h' \<Longrightarrow> extends calm h h'"
  by (erule extends_mono) simp

lemma extends_passive_repair:
  "extends observing h h' \<Longrightarrow> Repaired p ok \<in> set h' \<longleftrightarrow> Repaired p ok \<in> set h"
  by (fastforce simp: extends_def list_all_iff)

lemma report_extends [simp]: "extends observing h (report scope path a action h)"
  by (simp add: report_def list_all_iff)

lemma report_reports: "extends is_report h (report scope path a action h)"
  by (simp add: report_def list_all_iff)

lemma inspect_eq: "inspect L s x h = (a, h') \<longleftrightarrow> a = assess L s x h \<and> h' = h @ [Inspected (po_path x) a]"
  by (auto simp: inspect_def Let_def)

lemma handles_append: "handles (h @ es) = fold handle_event es (handles h)"
  by (simp add: handles_def)

lemma lock_append: "lock_held (h @ es) = fold lock_event es (lock_held h)"
  by (simp add: lock_held_def)

lemma fold_close: "fold handle_event (map ClosedHandle ps) m = m - mset ps"
  by (induction ps arbitrary: m) simp_all

lemma fold_lock_close: "fold lock_event (map ClosedHandle ps) b = b"
  by (induction ps arbitrary: b) simp_all

lemma map_close_path: "map (\<lambda>x. ClosedHandle (po_path x)) xs = map ClosedHandle (map po_path xs)"
  by simp

text \<open>What has been seen of an object.\<close>

definition seen :: "(history \<Rightarrow> assessment \<Rightarrow> history \<Rightarrow> bool) \<Rightarrow> history \<Rightarrow> string \<Rightarrow> bool" where
  "seen P h p \<longleftrightarrow> (\<exists>h0 a h1. h = h0 @ Inspected p a # h1 \<and> P h0 a h1)"

lemma seen_extend:
  "seen P h p \<Longrightarrow> (\<And>h0 a h1. P h0 a h1 \<Longrightarrow> Q h0 a (h1 @ es)) \<Longrightarrow> seen Q (h @ es) p"
  unfolding seen_def by (metis append.assoc append_Cons)

lemma seen_now: "P h a [] \<Longrightarrow> seen P (h @ [Inspected p a]) p"
  by (auto simp: seen_def)

text \<open>
  \<open>repairable_seen\<close>: the last thing that happened, reports apart, was an inspection that found the
  object repairable.  \<open>preflighted\<close>: every object that was opened has been inspected under the
  lock and was not unsafe.  \<open>validated\<close>: the object was found canonical and nothing was repaired since.
\<close>

definition repairable_seen :: "history \<Rightarrow> string \<Rightarrow> bool" where
  "repairable_seen = seen (\<lambda>_ a h1. as_class a = Repairable \<and> list_all is_report h1)"

definition preflighted :: "history \<Rightarrow> bool" where
  "preflighted h \<longleftrightarrow> (\<forall>p. OpenedObject p \<in> set h \<longrightarrow> seen (\<lambda>h0 a _. lock_held h0 \<and> as_class a \<noteq> Unsafe) h p)"

definition validated :: "history \<Rightarrow> string \<Rightarrow> bool" where
  "validated = seen (\<lambda>_ a h1. as_class a = Canonical \<and> \<not> list_ex is_repair h1)"

definition repair_due :: "history \<Rightarrow> string \<Rightarrow> bool" where
  "repair_due h p \<longleftrightarrow> lock_held h \<and> repairable_seen h p \<and> preflighted h \<and> OpenedObject p \<in> set h"

definition guarded :: "history \<Rightarrow> bool" where
  "guarded h \<longleftrightarrow> (\<forall>h1 p ok h2. h = h1 @ Repaired p ok # h2 \<longrightarrow> repair_due h1 p)"

lemma preflighted_calm: "preflighted h \<Longrightarrow> extends calm h h' \<Longrightarrow> preflighted h'"
  unfolding preflighted_def
proof (intro allI impI)
  fix p
  assume pre: "\<forall>p. OpenedObject p \<in> set h \<longrightarrow> seen (\<lambda>h0 a _. lock_held h0 \<and> as_class a \<noteq> Unsafe) h p"
    and ext: "extends calm h h'" and o: "OpenedObject p \<in> set h'"
  then have "seen (\<lambda>h0 a _. lock_held h0 \<and> as_class a \<noteq> Unsafe) h p" using extends_calm(3) by blast
  moreover obtain es where "h' = h @ es" using ext by (auto simp: extends_def)
  ultimately show "seen (\<lambda>h0 a _. lock_held h0 \<and> as_class a \<noteq> Unsafe) h' p" by (simp add: seen_extend)
qed

lemma snoc_split:
  "h @ [e] = h1 @ x # h2 \<longleftrightarrow> (h2 = [] \<and> h = h1 \<and> e = x) \<or> (\<exists>h3. h2 = h3 @ [e] \<and> h = h1 @ x # h3)"
  by (cases h2 rule: rev_cases) auto

lemma guarded_snoc:
  "guarded (h @ [e]) \<longleftrightarrow> guarded h \<and> (\<forall>p ok. e = Repaired p ok \<longrightarrow> repair_due h p)"
  unfolding guarded_def snoc_split by blast

lemma guarded_extends: "guarded h \<Longrightarrow> extends (\<lambda>e. \<not> is_repair e) h h' \<Longrightarrow> guarded h'"
  unfolding extends_def
proof (elim exE conjE)
  fix es assume g: "guarded h" and e: "h' = h @ es" and l: "list_all (\<lambda>e. \<not> is_repair e) es"
  have "guarded (h @ es)" using g l
  proof (induction es rule: rev_induct)
    case (snoc e es)
    then have "guarded (h @ es)" "\<not> is_repair e" by simp_all
    then show ?case unfolding append.assoc [symmetric] guarded_snoc by auto
  qed simp
  with e show "guarded h'" by simp
qed

lemma passive_not_repair: "extends observing h h' \<Longrightarrow> extends (\<lambda>e. \<not> is_repair e) h h'"
  by (erule extends_mono) (auto elim: observing.elims)

lemma guarded_passive: "guarded h \<Longrightarrow> extends observing h h' \<Longrightarrow> guarded h'"
  by (rule guarded_extends [OF _ passive_not_repair])

section \<open>The operations extend the history\<close>

lemma inspect_extends: "inspect L s x h = (a, h') \<Longrightarrow> extends observing h h'"
  by (simp add: inspect_eq)

lemma repairable_now:
  assumes "as_class a = Repairable" and "extends is_report (h @ [Inspected p a]) h'"
  shows "repairable_seen h' p"
  using assms unfolding repairable_seen_def seen_def extends_def by auto

lemma report_trans: "extends is_report h h1 \<Longrightarrow> extends is_report h (report scope path a action h1)"
  using extends_trans report_reports by blast

lemma observing_trans: "extends observing h h1 \<Longrightarrow> extends observing h (report scope path a action h1)"
  using extends_trans report_extends by blast

lemma report_is_observing: "extends is_report h h' \<Longrightarrow> extends observing h h'"
  by (erule extends_mono) (auto elim: is_report.elims)

lemma ensureObject_guarded:
  assumes e: "ensureObject L s x h = (r, h')" and g: "guarded h" and l: "lock_held h"
    and pre: "preflighted h" and o: "OpenedObject (po_path x) \<in> set h"
  shows "guarded h' \<and> extends calm h h'"
proof -
  let ?p = "po_path x"
  obtain a h1 where i: "inspect L s x h = (a, h1)" by fastforce
  note h1 = inspect_extends [OF i]
  consider "extends observing h h'" | "as_class a = Repairable"
    using e i h1 observing_trans
    by (cases "as_class a") (auto simp: ensureObject_def Let_def split: if_splits)
  then show ?thesis
  proof cases
    case 1
    with g show ?thesis using guarded_passive extends_passive_calm by blast
  next
    case 2
    let ?h2 = "report (po_scope x) ?p (plain_assessment Repairable '''' ''repair_started'') ''self_repair''
        (report (po_scope x) ?p a ''self_repair'' h1)"
    have r2: "extends is_report h1 ?h2" by (intro report_trans extends_refl)
    have o2: "extends observing h ?h2" by (intro observing_trans h1)
    have "repairable_seen ?h2 ?p" using r2 i 2 by (auto simp: inspect_eq intro: repairable_now)
    then have "repair_due ?h2 ?p"
      using l pre o extends_calm [OF extends_passive_calm [OF o2]] preflighted_calm [OF pre extends_passive_calm [OF o2]]
      by (simp add: repair_due_def)
    then have g3: "guarded (?h2 @ [Repaired ?p ok])" for ok
      using guarded_passive [OF g o2] by (simp add: guarded_snoc)
    have c3: "extends calm h (?h2 @ [Repaired ?p ok])" for ok
      using extends_passive_calm [OF o2] by (rule extends_trans) simp
    have "os_cancelled s h \<and> h' = h \<or> (\<exists>ok. extends observing (?h2 @ [Repaired ?p ok]) h')"
      using e i 2 by (auto simp: ensureObject_def Let_def repair_def inspect_eq split: if_splits prod.splits
          intro!: observing_trans exI [of _ "os_set_dacl s ?h2 ?p"])
    then show ?thesis
    proof (elim disjE exE)
      fix ok assume "extends observing (?h2 @ [Repaired ?p ok]) h'"
      then show ?thesis using guarded_passive [OF g3] c3 extends_trans extends_passive_calm by blast
    qed (use g in simp)
  qed
qed

lemma check_parent_extends: "check_parent L s x h = (r, h') \<Longrightarrow> extends observing h h'"
  by (auto simp: check_parent_def inspect_eq split: option.splits prod.splits if_splits intro!: observing_trans)

lemma repair_all_guarded:
  assumes "repair_all L s xs h = (r, h')" and "guarded h" and "lock_held h" and "preflighted h"
    and "\<forall>x \<in> set xs. OpenedObject (po_path x) \<in> set h"
  shows "guarded h' \<and> extends calm h h'"
  using assms
proof (induction xs arbitrary: h)
  case (Cons x xs)
  obtain r1 h1 where c: "check_parent L s x h = (r1, h1)" by fastforce
  have e1: "extends observing h h1" using check_parent_extends [OF c] .
  note k1 = extends_calm [OF extends_passive_calm [OF e1]]
  show ?case
  proof (cases r1)
    case (Some e)
    with Cons.prems(1) c have "h' = h1" by simp
    with e1 Cons.prems(2) show ?thesis using guarded_passive extends_passive_calm by blast
  next
    case None
    obtain r2 h2 where d: "ensureObject L s x h1 = (r2, h2)" by fastforce
    have s2: "guarded h2 \<and> extends calm h1 h2"
      using Cons.prems k1
      by (intro ensureObject_guarded [OF d])
        (auto intro: guarded_passive [OF _ e1] preflighted_calm [OF _ extends_passive_calm [OF e1]])
    have c2: "extends calm h h2" using s2 extends_trans [OF extends_passive_calm [OF e1]] by blast
    show ?thesis
    proof (cases r2)
      case (Some e)
      with Cons.prems(1) c None d s2 c2 show ?thesis by simp
    next
      case None2: None
      with Cons.prems(1) c None d have "repair_all L s xs h2 = (r, h')" by simp
      from Cons.IH [OF this] s2 Cons.prems extends_calm [OF c2] preflighted_calm [OF _ c2] extends_trans [OF c2]
      show ?thesis by auto
    qed
  qed
qed simp

lemma preflight_extends: "preflight L s xs h = (r, h') \<Longrightarrow> extends observing h h'"
proof (induction xs arbitrary: h)
  case (Cons x xs)
  obtain a h1 where i: "inspect L s x h = (a, h1)" by fastforce
  with Cons.prems Cons.IH [of h1] inspect_extends [OF i] show ?case
    by (auto split: if_splits intro: observing_trans extends_trans)
qed simp

lemma preflight_seen:
  assumes "preflight L s xs h = (None, h')" and "lock_held h" and "x \<in> set xs"
  shows "seen (\<lambda>h0 a _. lock_held h0 \<and> as_class a \<noteq> Unsafe) h' (po_path x)"
  using assms
proof (induction xs arbitrary: h)
  case (Cons y xs)
  obtain a h1 where i: "inspect L s y h = (a, h1)" by fastforce
  with Cons.prems have p: "preflight L s xs h1 = (None, h')" "as_class a \<noteq> Unsafe" by (auto split: if_splits)
  have l1: "lock_held h1" using extends_calm(2) [OF extends_passive_calm [OF inspect_extends [OF i]]] Cons.prems by simp
  show ?case
  proof (cases "x \<in> set xs")
    case True
    with Cons.IH p(1) l1 show ?thesis by blast
  next
    case False
    then have "x = y" using Cons.prems by simp
    then have "seen (\<lambda>h0 a _. lock_held h0 \<and> as_class a \<noteq> Unsafe) h1 (po_path x)"
      using i p(2) Cons.prems(2) by (auto simp: inspect_eq intro!: seen_now)
    with preflight_extends [OF p(1)] show ?thesis by (auto simp: extends_def intro: seen_extend)
  qed
qed simp

lemma validate_all_extends: "validate_all L s xs h = (r, h') \<Longrightarrow> extends observing h h'"
proof (induction xs arbitrary: h)
  case (Cons x xs)
  obtain a h1 where i: "inspect L s x h = (a, h1)" by fastforce
  with Cons.prems Cons.IH [of h1] inspect_extends [OF i] show ?case
    by (auto split: if_splits intro: observing_trans extends_trans)
qed simp

lemma validated_extends: "validated h p \<Longrightarrow> extends (\<lambda>e. \<not> is_repair e) h h' \<Longrightarrow> validated h' p"
  unfolding validated_def extends_def
  by (auto simp: list_all_iff list_ex_iff intro!: seen_extend)

lemma validate_all_validated:
  assumes "validate_all L s xs h = (None, h')" and "x \<in> set xs"
  shows "validated h' (po_path x)"
  using assms
proof (induction xs arbitrary: h)
  case (Cons y xs)
  obtain a h1 where i: "inspect L s y h = (a, h1)" by fastforce
  with Cons.prems have p: "validate_all L s xs h1 = (None, h')" "as_class a = Canonical" by (auto split: if_splits)
  show ?case
  proof (cases "x \<in> set xs")
    case True
    with Cons.IH p(1) show ?thesis by blast
  next
    case False
    then have "x = y" using Cons.prems by simp
    then have "validated h1 (po_path x)"
      using i p(2) by (auto simp: inspect_eq validated_def intro!: seen_now)
    with validate_all_extends [OF p(1)] show ?thesis by (blast intro: validated_extends passive_not_repair)
  qed
qed simp

lemma ensureObjects_ok:
  assumes e: "ensureObjects L s xs h = (r, h')" and g: "guarded h" and l: "lock_held h"
    and o: "\<And>p. OpenedObject p \<in> set h \<longleftrightarrow> p \<in> po_path ` set xs"
  shows "guarded h' \<and> extends calm h h' \<and> (r = None \<longrightarrow> (\<forall>x \<in> set xs. validated h' (po_path x)))"
proof -
  obtain r1 h1 where p: "preflight L s xs h = (r1, h1)" by fastforce
  note e1 = preflight_extends [OF p]
  note c1 = extends_passive_calm [OF e1]
  have g1: "guarded h1" using g e1 by (rule guarded_passive)
  show ?thesis
  proof (cases r1)
    case (Some err)
    with e p g1 c1 show ?thesis by (auto simp: ensureObjects_def)
  next
    case None
    have pre: "preflighted h1"
      unfolding preflighted_def using preflight_seen [of L s xs h h1] p None l extends_calm(3) [OF c1] o by auto
    obtain r2 h2 where q: "repair_all L s xs h1 = (r2, h2)" by fastforce
    have s2: "guarded h2 \<and> extends calm h1 h2"
      using g1 pre l extends_calm [OF c1] o by (intro repair_all_guarded [OF q]) auto
    have c2: "extends calm h h2" using c1 s2 extends_trans by blast
    show ?thesis
    proof (cases r2)
      case (Some err)
      with e p None q s2 c2 show ?thesis by (auto simp: ensureObjects_def)
    next
      case None2: None
      with e p None q have v: "validate_all L s xs h2 = (r, h')" by (simp add: ensureObjects_def)
      note e3 = validate_all_extends [OF v]
      have "guarded h'" using s2 e3 by (blast intro: guarded_passive)
      moreover have "extends calm h h'" using c2 extends_passive_calm [OF e3] by (rule extends_trans)
      moreover have "\<forall>x \<in> set xs. validated h' (po_path x)" if "r = None"
        using validate_all_validated [of L s xs h2 h'] v that by simp
      ultimately show ?thesis by blast
    qed
  qed
qed

section \<open>The phases of the gate\<close>

text \<open>Before the lock is taken: exactly the ancestors and the objects are open, nothing was repaired.\<close>

definition gate_inv :: "string list \<Rightarrow> pinnedObject list \<Rightarrow> history \<Rightarrow> bool" where
  "gate_inv ancestors objects h \<longleftrightarrow>
     handles h = mset ancestors + mset (map po_path objects) \<and> \<not> lock_held h
     \<and> (\<forall>p. OpenedObject p \<in> set h \<longleftrightarrow> p \<in> po_path ` set objects) \<and> (\<forall>e \<in> set h. \<not> is_repair e)"

lemma gate_inv_observing: "gate_inv anc objs h \<Longrightarrow> extends observing h h' \<Longrightarrow> gate_inv anc objs h'"
  using extends_calm [of h h'] extends_passive_calm [of h h'] passive_not_repair [of h h']
  by (auto simp: gate_inv_def extends_def list_all_iff)

lemma gate_inv_open:
  "gate_inv anc objs h \<Longrightarrow> gate_inv anc (objs @ [x]) (h @ [OpenedObject (po_path x)])"
  by (auto simp: gate_inv_def handles_append lock_append)

lemma gate_inv_guarded: "gate_inv anc objs h \<Longrightarrow> guarded h"
  by (fastforce simp: gate_inv_def guarded_def)

lemma pin_from_ok:
  assumes "pin_from L s pins ps h = (r, h')" and "gate_inv pins [] h"
  shows "(\<forall>pins'. r = Inr pins' \<longrightarrow> gate_inv pins' [] h')
    \<and> (\<forall>e. r = Inl e \<longrightarrow> handles h' = {#} \<and> \<not> lock_held h' \<and> (\<forall>e \<in> set h'. \<not> is_repair e)
          \<and> (\<forall>p. OpenedObject p \<notin> set h'))"
  using assms
proof (induction ps arbitrary: pins h)
  case Nil
  then show ?case by auto
next
  case (Cons p ps)
  let ?h1 = "h @ [PinnedAncestor p]"
  have close: "handles (h1 @ map ClosedHandle qs) = {#} \<and> \<not> lock_held (h1 @ map ClosedHandle qs)
      \<and> (\<forall>e \<in> set (h1 @ map ClosedHandle qs). \<not> is_repair e)
      \<and> (\<forall>p. OpenedObject p \<notin> set (h1 @ map ClosedHandle qs))" if "gate_inv qs [] h1" for qs h1
    using that by (auto simp: gate_inv_def handles_append lock_append fold_close fold_lock_close)
  show ?case
  proof (cases "os_open s h p = Opened")
    case False
    with Cons.prems close [OF Cons.prems(2)] show ?thesis by auto
  next
    case True
    have g1: "gate_inv (pins @ [p]) [] ?h1"
      using Cons.prems(2) by (auto simp: gate_inv_def handles_append lock_append)
    show ?thesis
    proof (cases "ancestor_fault L s p ?h1")
      case None
      with True Cons.prems(1) have "pin_from L s (pins @ [p]) ps ?h1 = (r, h')" by (simp add: Let_def)
      from Cons.IH [OF this g1] show ?thesis .
    next
      case (Some reason)
      with True Cons.prems(1) close [OF g1] show ?thesis by (auto simp: Let_def)
    qed
  qed
qed

lemma gate_inv_start: "gate_inv [] [] []"
  by (simp add: gate_inv_def handles_def lock_held_def)

lemma visit_ok:
  assumes "visit L s paths t (objs, lock) h = (r, (objs1, lock1), h1)" and "gate_inv anc objs h"
    and "\<forall>x. lock = Some x \<longrightarrow> x \<in> set objs"
  shows "gate_inv anc objs1 h1 \<and> (\<forall>x. lock1 = Some x \<longrightarrow> x \<in> set objs1)
    \<and> po_path ` set objs1 \<subseteq> insert (st_path t) (po_path ` set objs)
    \<and> (r = None \<and> st_required t \<longrightarrow> objs1 \<noteq> []) \<and> (objs \<noteq> [] \<longrightarrow> objs1 \<noteq> [])"
proof -
  let ?x = "Pinned (st_path t) (st_directory t) (st_required t) (st_scope t)
      (if st_required t then None else find_parent L objs (st_path t))"
  obtain a h2 where i: "inspect L s ?x (h @ [OpenedObject (st_path t)]) = (a, h2)" by fastforce
  have g2: "gate_inv anc (objs @ [?x]) h2"
    using gate_inv_open [OF assms(2), of ?x] inspect_extends [OF i] by (auto intro: gate_inv_observing)
  have g3: "gate_inv anc (objs @ [?x]) (report scope path b action h2)" for scope path b action
    using g2 report_extends by (rule gate_inv_observing)
  have g0: "gate_inv anc objs (report scope path b action h)" for scope path b action
    using assms(2) report_extends by (rule gate_inv_observing)
  show ?thesis
    using assms i g3 g0 unfolding visit_def
    by (auto simp: Let_def split: if_splits open_answer.splits)
qed

lemma scope_ok:
  assumes "inspectStartupScope L s paths ts (objs, lock) h = (r, (objs1, lock1), h1)" and "gate_inv anc objs h"
    and "\<forall>x. lock = Some x \<longrightarrow> x \<in> set objs"
  shows "gate_inv anc objs1 h1 \<and> (\<forall>x. lock1 = Some x \<longrightarrow> x \<in> set objs1)
    \<and> po_path ` set objs1 \<subseteq> st_path ` set ts \<union> po_path ` set objs
    \<and> (r = None \<and> list_ex st_required ts \<longrightarrow> objs1 \<noteq> []) \<and> (objs \<noteq> [] \<longrightarrow> objs1 \<noteq> [])"
  using assms
proof (induction ts arbitrary: objs lock h)
  case Nil
  then show ?case by auto
next
  case (Cons t ts)
  show ?case
  proof (cases "os_cancelled s h")
    case True
    with Cons.prems show ?thesis by auto
  next
    case False
    obtain r2 objs2 lock2 h2 where v: "visit L s paths t (objs, lock) h = (r2, (objs2, lock2), h2)"
      by (metis prod.collapse)
    note v' = visit_ok [OF v Cons.prems(2,3)]
    show ?thesis
    proof (cases r2)
      case (Some e)
      with v v' Cons.prems(1) False show ?thesis by auto
    next
      case None
      with v Cons.prems(1) False
      have "inspectStartupScope L s paths ts (objs2, lock2) h2 = (r, (objs1, lock1), h1)" by simp
      note ih = Cons.IH [OF this conjunct1 [OF v'] conjunct1 [OF conjunct2 [OF v']]]
      have "po_path ` set objs1 \<subseteq> st_path ` set ts \<union> po_path ` set objs2" using ih by blast
      moreover have "po_path ` set objs2 \<subseteq> insert (st_path t) (po_path ` set objs)" using v' by blast
      ultimately have "po_path ` set objs1 \<subseteq> insert (st_path t) (st_path ` set ts) \<union> po_path ` set objs" by blast
      then show ?thesis using ih v' None by (cases "st_required t") simp_all
    qed
  qed
qed

text \<open>After the lock was taken.\<close>

definition locked_inv :: "string list \<Rightarrow> pinnedObject list \<Rightarrow> history \<Rightarrow> bool" where
  "locked_inv ancestors objects h \<longleftrightarrow>
     handles h = mset ancestors + mset (map po_path objects) \<and> lock_held h
     \<and> (\<forall>p. OpenedObject p \<in> set h \<longleftrightarrow> p \<in> po_path ` set objects) \<and> guarded h"

lemma obtain_lock_ok:
  assumes "obtain_lock L s paths (objs, lock) h = (r, (objs1, lock1), h1)" and "gate_inv anc objs h"
    and "\<forall>x. lock = Some x \<longrightarrow> x \<in> set objs"
  shows "gate_inv anc objs1 h1 \<and> (r = None \<longrightarrow> (\<exists>x. lock1 = Some x \<and> x \<in> set objs1))
    \<and> po_path ` set objs1 \<subseteq> insert (RuntimeLock L paths) (po_path ` set objs)"
proof (cases lock)
  case (Some x)
  with assms show ?thesis by (auto simp: obtain_lock_def)
next
  case None
  let ?x = "Pinned (RuntimeLock L paths) False False ''critical'' (Some (hd objs))"
  have "gate_inv anc (objs @ [?x]) (h @ [OpenedObject (RuntimeLock L paths)])"
    using gate_inv_open [OF assms(2), of ?x] by simp
  with None assms gate_inv_observing [OF assms(2) report_extends] show ?thesis
    by (auto simp: obtain_lock_def Let_def split: if_splits)
qed

lemma take_lock_ok:
  assumes "take_lock L s lock h = (r, h1)" and "gate_inv anc objs h"
  shows "(r = None \<longrightarrow> locked_inv anc objs h1) \<and> (r \<noteq> None \<longrightarrow> gate_inv anc objs h1)"
proof -
  obtain a h2 where i: "inspect L s lock h = (a, h2)" by fastforce
  have g2: "gate_inv anc objs h2" using assms(2) inspect_extends [OF i] by (rule gate_inv_observing)
  then have g3: "gate_inv anc objs (h2 @ [LockAnswer False])" "locked_inv anc objs (h2 @ [LockAnswer True])"
    using gate_inv_guarded [OF g2]
    by (auto simp: gate_inv_def locked_inv_def handles_append lock_append guarded_snoc)
  then show ?thesis
    using assms(1) i g2 gate_inv_observing [OF _ report_extends]
    by (auto simp: take_lock_def split: if_splits)
qed

lemma locked_inv_calm: "locked_inv anc objs h \<Longrightarrow> extends calm h h' \<Longrightarrow> guarded h' \<Longrightarrow> locked_inv anc objs h'"
  using extends_calm [of h h'] by (simp add: locked_inv_def)

text \<open>The way out of a gate that failed, and of a runtime that stops.\<close>

lemma cleanup_closes:
  assumes "handles h = mset anc + mset (map po_path objs)" and "locked \<or> \<not> lock_held h"
  shows "handles (cleanup locked objs anc h) = {#} \<and> \<not> lock_held (cleanup locked objs anc h)"
proof -
  have "handles (cleanup locked objs anc h)
      = handles h - mset (map po_path objs) - mset anc"
    by (simp add: cleanup_def handles_append map_close_path fold_close del: map_map)
  moreover have "lock_held (cleanup locked objs anc h) = (if locked then False else lock_held h)"
    by (simp add: cleanup_def lock_append map_close_path fold_lock_close del: map_map)
  ultimately show ?thesis using assms by (auto simp: diff_union_cancelR)
qed

section \<open>Every run of the gate\<close>

text \<open>The plan: what may be opened, and therefore repaired.\<close>

definition planned :: "path_lib \<Rightarrow> app_paths \<Rightarrow> string \<Rightarrow> bool" where
  "planned L paths p \<longleftrightarrow> p \<in> st_path ` set (startup_targets L paths)"

definition refusal_reported :: "app_paths \<Rightarrow> history \<Rightarrow> bool" where
  "refusal_reported paths h \<longleftrightarrow>
     list_ex (\<lambda>e. case e of Reported d \<Rightarrow> dg_path d = ap_root paths \<and> dg_reason d = ''unsafe_acl_fail_closed''
                               \<and> dg_action d = ''fail_closed'' | _ \<Rightarrow> False) h"

definition refused :: "app_paths \<Rightarrow> history \<Rightarrow> bool" where
  "refused paths h \<longleftrightarrow> handles h = {#} \<and> \<not> lock_held h \<and> refusal_reported paths h"

definition granted :: "pinnedObject \<Rightarrow> string list \<Rightarrow> history \<Rightarrow> bool" where
  "granted lock anc h \<longleftrightarrow> lock_held h \<and> handles h = add_mset (po_path lock) (mset anc)
     \<and> (\<forall>p. OpenedObject p \<in> set h \<longrightarrow> validated h p)"

lemma report_refusal:
  "refusal_reported paths (report scope (ap_root paths) (unsafeAssessment ''unsafe_acl_fail_closed'') ''fail_closed'' h)"
  by (simp add: refusal_reported_def report_def unsafeAssessment_def)

lemma cleanup_extends: "extends (\<lambda>e. \<not> is_repair e) h (cleanup locked objs anc h)"
  by (auto simp: cleanup_def list_all_iff)

lemma cleanup_opened: "OpenedObject p \<in> set (cleanup locked objs anc h) \<longleftrightarrow> OpenedObject p \<in> set h"
  by (auto simp: cleanup_def)

lemma failed_gate_ok:
  assumes "failed_gate paths locked objs anc e h = (r, h')" and "guarded h"
    and "handles h = mset anc + mset (map po_path objs)" and "locked \<or> \<not> lock_held h"
  shows "r = Inl e \<and> guarded h' \<and> refused paths h' \<and> (OpenedObject p \<in> set h' \<longleftrightarrow> OpenedObject p \<in> set h)"
proof -
  let ?h1 = "report ''critical'' (ap_root paths) (unsafeAssessment ''unsafe_acl_fail_closed'') ''fail_closed'' h"
  have o: "extends observing h ?h1" by (rule report_extends)
  note k = extends_calm [OF extends_passive_calm [OF o]]
  have h': "h' = cleanup locked objs anc ?h1" "r = Inl e" using assms(1) by (simp_all add: failed_gate_def)
  have "guarded h'" unfolding h' by (rule guarded_extends [OF guarded_passive [OF assms(2) o] cleanup_extends])
  moreover have "handles h' = {#} \<and> \<not> lock_held h'" unfolding h' by (rule cleanup_closes) (use assms k in simp_all)
  moreover have "refusal_reported paths h'"
    using report_refusal [of paths "''critical''" h] by (auto simp: h' refusal_reported_def cleanup_def)
  ultimately show ?thesis by (simp add: h' refused_def cleanup_opened k(3))
qed

lemma gate_locked_ok:
  assumes g: "gate_locked L s paths anc objs lock h = (r, h')" and inv: "locked_inv anc objs h" and lk: "lock \<in> set objs"
  shows "guarded h' \<and> (OpenedObject p \<in> set h' \<longleftrightarrow> OpenedObject p \<in> set h)
    \<and> (case r of Inl _ \<Rightarrow> refused paths h' | Inr (l, a) \<Rightarrow> l = lock \<and> a = anc \<and> granted l a h')"
proof -
  obtain r1 h1 where e: "ensureObjects L s objs h = (r1, h1)" by fastforce
  have inv': "guarded h" "lock_held h" "\<And>p. OpenedObject p \<in> set h \<longleftrightarrow> p \<in> po_path ` set objs"
    "handles h = mset anc + mset (map po_path objs)"
    using inv by (auto simp: locked_inv_def)
  note ok = ensureObjects_ok [OF e inv'(1,2,3)]
  note k = extends_calm [OF conjunct1 [OF conjunct2 [OF ok]]]
  show ?thesis
  proof (cases r1)
    case (Some err)
    with g e have "failed_gate paths True objs anc err h1 = (r, h')" by (simp add: gate_locked_def)
    from failed_gate_ok [OF this, of p] ok k inv' show ?thesis by simp
  next
    case None
    obtain a h2 where i: "inspect L s (hd objs) h1 = (a, h2)" by fastforce
    let ?h3 = "report ''critical'' (ap_root paths) a ''verified'' h2"
    let ?cl = "map ClosedHandle (map po_path (remove1 lock objs))"
    have r: "r = Inr (lock, anc)" and h': "h' = ?h3 @ ?cl"
      using g e None i by (simp_all add: gate_locked_def comp_def)
    have o: "extends observing h1 ?h3" using inspect_extends [OF i] by (rule observing_trans)
    note k3 = extends_calm [OF extends_passive_calm [OF o]]
    have nr: "extends (\<lambda>e. \<not> is_repair e) ?h3 h'" unfolding h' by (simp add: list_all_iff)
    have "guarded h'" using ok o nr by (blast intro: guarded_passive guarded_extends)
    moreover have op: "OpenedObject q \<in> set h' \<longleftrightarrow> OpenedObject q \<in> set h" for q
      unfolding h' using k3(3) k(3) by auto
    moreover have "lock_held h'" unfolding h' lock_append fold_lock_close using k3(2) k(2) inv'(2) by simp
    moreover have "handles h' = add_mset (po_path lock) (mset anc)"
    proof -
      have "mset objs = add_mset lock (mset (remove1 lock objs))" using lk by simp
      then have "mset (map po_path objs) = add_mset (po_path lock) (mset (map po_path (remove1 lock objs)))"
        by (metis image_mset_add_mset mset_map)
      then show ?thesis unfolding h' handles_append fold_close k3(1) k(1) inv'(4) by simp
    qed
    moreover have "validated h' q" if "OpenedObject q \<in> set h'" for q
    proof -
      have "q \<in> po_path ` set objs" using that op inv'(3) by blast
      then have "validated h1 q" using ok None by auto
      then show ?thesis by (meson nr o passive_not_repair validated_extends)
    qed
    ultimately show ?thesis by (simp add: r granted_def)
  qed
qed

lemma plan_facts:
  "planned L paths (RuntimeLock L paths)" "list_ex st_required (startup_targets L paths)"
  by (simp_all add: planned_def startup_targets_def)

lemma ensureStartup_ok:
  assumes "ensureStartup L s paths = (r, h)"
  shows "guarded h \<and> (OpenedObject p \<in> set h \<longrightarrow> planned L paths p)
    \<and> (case r of Inl _ \<Rightarrow> refused paths h | Inr (lock, anc) \<Rightarrow> granted lock anc h)"
proof -
  obtain r1 h1 where pin: "pinAncestors L s (ap_root paths) [] = (r1, h1)" by fastforce
  have pin_ok: "(\<forall>anc. r1 = Inr anc \<longrightarrow> gate_inv anc [] h1)
    \<and> (\<forall>e. r1 = Inl e \<longrightarrow> handles h1 = {#} \<and> \<not> lock_held h1 \<and> (\<forall>e \<in> set h1. \<not> is_repair e)
         \<and> (\<forall>p. OpenedObject p \<notin> set h1))"
    using pin gate_inv_start pin_from_ok [of L s "[]" _ "[]" r1 h1]
    by (auto simp: pinAncestors_def handles_def lock_held_def split: if_splits)
  show ?thesis
  proof (cases r1)
    case (Inl e)
    let ?h2 = "case e of SecurityError p r \<Rightarrow> report ''critical'' p (unsafeAssessment r) ''fail_closed'' h1 | _ \<Rightarrow> h1"
    have h: "r = Inl e" "h = report ''critical'' (ap_root paths) (unsafeAssessment ''unsafe_acl_fail_closed'') ''fail_closed'' ?h2"
      using assms pin Inl by (simp_all add: ensureStartup_def)
    have o: "extends observing h1 h"
      unfolding h by (intro observing_trans) (simp split: security_error.split)
    have "guarded h1" using pin_ok Inl by (fastforce simp: guarded_def)
    then have "guarded h" using o by (rule guarded_passive)
    with extends_calm [OF extends_passive_calm [OF o]] pin_ok Inl h report_refusal
    show ?thesis by (simp add: refused_def)
  next
    case (Inr anc)
    have g1: "gate_inv anc [] h1" using pin_ok Inr by blast
    obtain r2 objs lock h2 where sc: "inspectStartupScope L s paths (startup_targets L paths) ([], None) h1 = (r2, (objs, lock), h2)"
      by (metis prod.collapse)
    note sc_ok = scope_ok [OF sc g1]
    have in_plan: "OpenedObject q \<in> set h' \<longrightarrow> planned L paths q"
      if "gate_inv anc objs' h'" "po_path ` set objs' \<subseteq> st_path ` set (startup_targets L paths)" for q objs' h'
      using that by (auto simp: gate_inv_def planned_def)
    have plan1: "po_path ` set objs \<subseteq> st_path ` set (startup_targets L paths)" using sc_ok by simp
    have fail: "guarded h \<and> (OpenedObject p \<in> set h \<longrightarrow> planned L paths p) \<and> (\<exists>e. r = Inl e) \<and> refused paths h"
      if "failed_gate paths False objs' anc e h' = (r, h)" "gate_inv anc objs' h'"
        "po_path ` set objs' \<subseteq> st_path ` set (startup_targets L paths)" for objs' e h'
      using failed_gate_ok [OF that(1) gate_inv_guarded [OF that(2)], of p] in_plan [OF that(2,3)] that(2)
      by (simp add: gate_inv_def)
    show ?thesis
    proof (cases r2)
      case (Some e)
      with assms pin Inr sc have "failed_gate paths False objs anc e h2 = (r, h)" by (simp add: ensureStartup_def)
      from fail [OF this _ plan1] sc_ok show ?thesis by auto
    next
      case None
      obtain r3 objs3 lock3 h3 where ol: "obtain_lock L s paths (objs, lock) h2 = (r3, (objs3, lock3), h3)"
        by (metis prod.collapse)
      have ol_ok: "gate_inv anc objs3 h3" "r3 = None \<longrightarrow> (\<exists>x. lock3 = Some x \<and> x \<in> set objs3)"
        "po_path ` set objs3 \<subseteq> insert (RuntimeLock L paths) (po_path ` set objs)"
        using obtain_lock_ok [OF ol, of anc] sc_ok by simp_all
      have plan3: "po_path ` set objs3 \<subseteq> st_path ` set (startup_targets L paths)"
        using ol_ok(3) by (rule subset_trans) (use plan1 plan_facts(1) [of L paths] in \<open>simp add: planned_def\<close>)
      show ?thesis
      proof (cases r3)
        case (Some e)
        with assms pin Inr sc None ol have "failed_gate paths False objs3 anc e h3 = (r, h)"
          by (simp add: ensureStartup_def)
        from fail [OF this ol_ok(1) plan3] show ?thesis by auto
      next
        case None3: None
        then obtain x where x: "lock3 = Some x" "x \<in> set objs3" using ol_ok(2) by blast
        obtain r4 h4 where tl: "take_lock L s x h3 = (r4, h4)" by fastforce
        note tl_ok = take_lock_ok [OF tl ol_ok(1)]
        show ?thesis
        proof (cases r4)
          case (Some e)
          with assms pin Inr sc None ol None3 x tl have "failed_gate paths False objs3 anc e h4 = (r, h)"
            by (simp add: ensureStartup_def)
          from fail [OF this _ plan3] tl_ok Some show ?thesis by auto
        next
          case None4: None
          with assms pin Inr sc None ol None3 x tl have gl: "gate_locked L s paths anc objs3 x h4 = (r, h)"
            by (simp add: ensureStartup_def)
          have li: "locked_inv anc objs3 h4" using tl_ok None4 by blast
          then have "OpenedObject p \<in> set h4 \<longrightarrow> planned L paths p"
            using plan3 by (auto simp: locked_inv_def planned_def)
          with gate_locked_ok [OF gl li x(2), of p] show ?thesis by (auto split: sum.splits)
        qed
      qed
    qed
  qed
qed

section \<open>The guarantees\<close>

lemma EnsureRuntimeSecurity_ok:
  assumes "EnsureRuntimeSecurity L s expected paths = (r, h)"
  shows "guarded h \<and> (OpenedObject p \<in> set h \<longrightarrow> planned L paths p)
    \<and> (case r of Inl _ \<Rightarrow> handles h = {#} \<and> \<not> lock_held h | Inr (lock, anc) \<Rightarrow> granted lock anc h)"
proof (cases "\<exists>p. expected = Some p \<and> samePaths L paths p")
  case True
  then have "ensureStartup L s paths = (r, h)" using assms by (auto simp: EnsureRuntimeSecurity_def)
  from ensureStartup_ok [OF this, of p] show ?thesis by (auto simp: refused_def split: sum.splits)
next
  case False
  then obtain reason e where h: "h = report '''' (ap_root paths) (unsafeAssessment reason) ''fail_closed'' []" "r = Inl e"
    using assms by (cases expected) (auto simp: EnsureRuntimeSecurity_def)
  have o: "extends observing [] h" unfolding h by (rule report_extends)
  have "guarded []" by (simp add: guarded_def)
  from guarded_passive [OF this o] extends_calm [OF extends_passive_calm [OF o]] h(2) show ?thesis
    by (simp add: handles_def lock_held_def)
qed

text \<open>
  C5. No permission is changed unless the runtime lock is held, every object the gate opened has
  been inspected under that lock without finding anything unsafe, and the object itself is one of the
  fixed plan whose last inspection, with nothing but reports since, asked for the repair.
\<close>

theorem repairs_are_guarded:
  assumes "EnsureRuntimeSecurity L s expected paths = (r, h)" and "h = h1 @ Repaired p ok # h2"
  shows "planned L paths p \<and> lock_held h1 \<and> repairable_seen h1 p \<and> preflighted h1"
proof -
  have "repair_due h1 p"
    using EnsureRuntimeSecurity_ok [OF assms(1)] assms(2) unfolding guarded_def by blast
  moreover from this have "OpenedObject p \<in> set h" using assms(2) by (simp add: repair_due_def)
  then have "planned L paths p" using EnsureRuntimeSecurity_ok [OF assms(1), of p] by blast
  ultimately show ?thesis by (simp add: repair_due_def)
qed

text \<open>
  C29. A gate that refuses leaves nothing behind: every handle it opened is closed and the lock is
  not held.
\<close>

theorem refusal_leaves_nothing:
  assumes "EnsureRuntimeSecurity L s expected paths = (Inl e, h)"
  shows "handles h = {#} \<and> \<not> lock_held h"
  using EnsureRuntimeSecurity_ok [OF assms] by simp

text \<open>
  C6. A gate that grants the runtime was asked for the machine paths, holds the lock, keeps open the
  lock file and the ancestors only, and every object it opened was found canonical after the last
  repair; the release function then closes the rest and gives the lock back.
\<close>

theorem grant_is_validated:
  assumes "EnsureRuntimeSecurity L s expected paths = (Inr (lock, ancestors), h)"
  shows "lock_held h \<and> handles h = add_mset (po_path lock) (mset ancestors)
    \<and> (\<forall>p. OpenedObject p \<in> set h \<longrightarrow> validated h p)
    \<and> (\<exists>m. expected = Some m \<and> samePaths L paths m)
    \<and> handles (cleanup True [lock] ancestors h) = {#} \<and> \<not> lock_held (cleanup True [lock] ancestors h)"
proof -
  have g: "granted lock ancestors h" using EnsureRuntimeSecurity_ok [OF assms] by simp
  moreover have "\<exists>m. expected = Some m \<and> samePaths L paths m"
    using assms by (auto simp: EnsureRuntimeSecurity_def split: option.splits if_splits)
  moreover have "handles (cleanup True [lock] ancestors h) = {#} \<and> \<not> lock_held (cleanup True [lock] ancestors h)"
    by (rule cleanup_closes) (use g in \<open>simp_all add: granted_def\<close>)
  ultimately show ?thesis by (simp add: granted_def)
qed

section \<open>Witnesses\<close>

text \<open>
  A machine on which only the root directory exists, its list having drifted; the lock file is created
  and a repair is carried out.
\<close>

definition sample_paths :: app_paths where
  "sample_paths = fromRoot unix_paths ''/r'' ''/p''"

definition drifted_os :: os where
  "drifted_os =
     \<lparr>os_open = (\<lambda>h p. if p = ''/'' \<or> p = ''/r'' then Opened else Missing),
      os_create_lock = (\<lambda>_ _. True), os_lock_descriptor = True,
      os_info = (\<lambda>h p. Some \<lparr>fi_reparse = False, fi_directory = (p = ''/'' \<or> p = ''/r''), fi_links = 1\<rparr>),
      os_final = (\<lambda>h p. Some p),
      os_security = (\<lambda>h p.
        let d = sample_descriptor []; canonical = set_dacl (canonicalDACL (p = ''/r'')) d
        in Some (if p \<noteq> ''/r'' \<or> list_ex is_repair h then canonical else d)),
      os_set_dacl = (\<lambda>_ _. True), os_lock = (\<lambda>_. True), os_cancelled = (\<lambda>_. False)\<rparr>"

definition drifted_run :: "(security_error + pinnedObject \<times> string list) \<times> history" where
  "drifted_run = EnsureRuntimeSecurity unix_paths drifted_os (Some sample_paths) sample_paths"

lemma drifted_run_result:
  "case fst drifted_run of Inl _ \<Rightarrow> False | Inr (lock, anc) \<Rightarrow> po_path lock = ''/r/.runtime.lock'' \<and> anc = [''/'']"
  "list_ex is_repair (snd drifted_run)"
  by code_simp+

text \<open>The same machine with the lock held by another process.\<close>

definition busy_os :: os where
  "busy_os = drifted_os\<lparr>os_lock := (\<lambda>_. False)\<rparr>"

theorem repairs_are_guarded_witness:
  "\<exists>h1 p ok h2. snd drifted_run = h1 @ Repaired p ok # h2 \<and> lock_held h1 \<and> repairable_seen h1 p"
proof -
  obtain e where e: "e \<in> set (snd drifted_run)" "is_repair e"
    using drifted_run_result(2) unfolding list_ex_iff by blast
  from e(2) obtain p ok where "e = Repaired p ok" by (cases e) simp_all
  with e(1) have "Repaired p ok \<in> set (snd drifted_run)" by blast
  then obtain h1 h2 where h: "snd drifted_run = h1 @ Repaired p ok # h2" by (meson split_list)
  have "EnsureRuntimeSecurity unix_paths drifted_os (Some sample_paths) sample_paths = (fst drifted_run, snd drifted_run)"
    by (simp add: drifted_run_def)
  from repairs_are_guarded [OF this h] h show ?thesis by blast
qed

theorem refusal_leaves_nothing_witness:
  "handles (snd (EnsureRuntimeSecurity unix_paths busy_os (Some sample_paths) sample_paths)) = {#}"
proof -
  let ?r = "EnsureRuntimeSecurity unix_paths busy_os (Some sample_paths) sample_paths"
  have "case fst ?r of Inl _ \<Rightarrow> True | Inr _ \<Rightarrow> False" by code_simp
  then obtain e where "?r = (Inl e, snd ?r)" by (cases "fst ?r") (auto simp: prod_eq_iff)
  from refusal_leaves_nothing [OF this] show ?thesis by blast
qed

theorem grant_is_validated_witness:
  "lock_held (snd drifted_run) \<and> handles (snd drifted_run) = {#''/r/.runtime.lock'', ''/''#}"
proof -
  obtain lock anc where r: "fst drifted_run = Inr (lock, anc)" "po_path lock = ''/r/.runtime.lock''" "anc = [''/'']"
    using drifted_run_result(1) by (auto split: sum.splits)
  have "EnsureRuntimeSecurity unix_paths drifted_os (Some sample_paths) sample_paths = (Inr (lock, anc), snd drifted_run)"
    using r(1) by (simp add: drifted_run_def prod_eq_iff)
  from grant_is_validated [OF this] r(2,3) show ?thesis by simp
qed

end
