(* ===== verification/AccessBoundary.thy ===== *)
theory AccessBoundary
  imports RuntimeSecurity
begin

text \<open>
  The boundary of dynamic file access, \<^verbatim>\<open>internal/protectedpath/access.go\<close> and
  \<^verbatim>\<open>internal/protectedpath/access_windows.go\<close>: directories are pinned from the top, every object is
  checked through its own handle, and nothing is ever repaired.  The history of \<open>RuntimeSecurity\<close> goes
  on here; what the system answers to the calls made only here is the extension of its record.
\<close>

section \<open>State\<close>

record access_os = os +
  ao_mkdir :: "history \<Rightarrow> string \<Rightarrow> bool"
  ao_open_file :: "history \<Rightarrow> string \<Rightarrow> bool"
  ao_open_shared :: "history \<Rightarrow> string \<Rightarrow> open_answer"
  ao_create_temp :: "history \<Rightarrow> string option"
  ao_action :: "history \<Rightarrow> bool"

record boundary =
  b_root :: string
  b_shared :: bool

definition NewDownloadBoundary :: "string \<Rightarrow> boundary" where
  "NewDownloadBoundary root = \<lparr>b_root = root, b_shared = True\<rparr>"

datatype access_error = Rejected string string | SystemError | ActionFailed

section \<open>Checks\<close>

definition reject :: "string \<Rightarrow> string \<Rightarrow> history \<Rightarrow> access_error \<times> history" where
  "reject path reason h =
     (Rejected path reason, report ''on_access'' path (unsafeAssessment reason) ''fail_closed'' h)"

definition backslash :: char where "backslash = CHR 0x5C"

text \<open>\<^verbatim>\<open>inside\<close>: whether the path is refused.\<close>

definition outside :: "path_lib \<Rightarrow> boundary \<Rightarrow> string \<Rightarrow> bool" where
  "outside L b path \<longleftrightarrow>
     \<not> pl_abs L (b_root b) \<or> \<not> pl_abs L path
     \<or> (case pl_rel L (b_root b) path of
          None \<Rightarrow> True
        | Some rel \<Rightarrow>
            rel = ''..'' \<or> has_prefix rel (''..'' @ [backslash]) \<or> pl_abs L rel \<or> CHR '':'' \<in> set rel
            \<or> list_ex (\<lambda>part. part \<noteq> ''.'' \<and> (has_suffix part ''.'' \<or> has_suffix part '' '')) (split_on backslash rel))"

text \<open>\<^verbatim>\<open>validate\<close>: shared download folders keep their permissions, only their structure is checked.\<close>

definition validate_object ::
    "path_lib \<Rightarrow> access_os \<Rightarrow> boundary \<Rightarrow> pinnedObject \<Rightarrow> history \<Rightarrow> access_error option \<times> history" where
  "validate_object L s b x h =
     (let a = (if b_shared b then inspectStructure L (os.truncate s) x h else assess L (os.truncate s) x h);
          h1 = h @ [Inspected (po_path x) a]
      in if as_class a \<noteq> Canonical
         then (Some (Rejected (po_path x) (first_reason a)), report ''on_access'' (po_path x) a ''fail_closed'' h1)
         else (None, h1))"

section \<open>Pinning directories\<close>

text \<open>\<^verbatim>\<open>closePins\<close>.\<close>

definition closePins :: "string list \<Rightarrow> history \<Rightarrow> history" where
  "closePins pins h = h @ map ClosedHandle (rev pins)"

text \<open>
  The loop over the directories from the top.  A missing one is made when the caller asks for it;
  inside the protected root the root itself is never made.  The failures of the shared variant are
  the system's own errors.
\<close>

fun pin_each :: "path_lib \<Rightarrow> access_os \<Rightarrow> boundary \<Rightarrow> bool \<Rightarrow> bool \<Rightarrow> string list \<Rightarrow> string list \<Rightarrow> history
    \<Rightarrow> (access_error + string list) \<times> history" where
  "pin_each L s b create first pins [] h = (Inr pins, h)"
| "pin_each L s b create first pins (p # ps) h =
     (let unreadable = (\<lambda>h. if b_shared b then (SystemError, h) else reject p ''security_descriptor_unreadable'' h);
          stop = (\<lambda>(e, h). (Inl e, closePins pins h));
          make = (os_open s h p = Missing \<and> create \<and> (b_shared b \<or> \<not> first))
      in if make \<and> \<not> ao_mkdir s h p then stop (unreadable h)
         else
           let h1 = (if make then h @ [MadeDirectory p] else h)
           in if os_open s h1 p \<noteq> Opened then stop (unreadable h1)
              else case validate_object L s b (Pinned p True (first \<and> \<not> b_shared b) '''' None) (h1 @ [PinnedAncestor p]) of
                     (Some e, h2) \<Rightarrow> (Inl e, closePins (pins @ [p]) h2)
                   | (None, h2) \<Rightarrow> pin_each L s b create False (pins @ [p]) ps h2)"

text \<open>The directories between the root and the one asked for, both included.\<close>

definition runtime_chain :: "path_lib \<Rightarrow> string \<Rightarrow> string \<Rightarrow> string list" where
  "runtime_chain L root directory =
     (case pl_rel L root directory of
        None \<Rightarrow> [root]
      | Some rel \<Rightarrow>
          if rel = ''.'' then [root]
          else foldl (\<lambda>ps part. ps @ [pl_join L [last ps, part]]) [root] (split_on (pl_separator L) rel))"

definition pinDownloadDirectories ::
    "path_lib \<Rightarrow> access_os \<Rightarrow> boundary \<Rightarrow> string \<Rightarrow> bool \<Rightarrow> history \<Rightarrow> (access_error + string list) \<times> history" where
  "pinDownloadDirectories L s b directory create h =
     pin_each L s b create True [] (rev (dir_chain L (length directory) directory)) h"

definition pinDirectories ::
    "path_lib \<Rightarrow> access_os \<Rightarrow> boundary \<Rightarrow> string \<Rightarrow> bool \<Rightarrow> history \<Rightarrow> (access_error + string list) \<times> history" where
  "pinDirectories L s b directory create h =
     (if outside L b directory then apfst Inl (reject directory ''path_escape'' h)
      else if b_shared b then pinDownloadDirectories L s b directory create h
      else case pinAncestors L (os.truncate s) (b_root b) h of
             (Inl (SecurityError p reason), h1) \<Rightarrow> apfst Inl (reject p reason h1)
           | (Inl _, h1) \<Rightarrow> (Inl SystemError, h1)
           | (Inr ancestors, h1) \<Rightarrow>
               pin_each L s b create True ancestors (runtime_chain L (b_root b) directory) h1)"

section \<open>Operations\<close>

definition HoldDirectory ::
    "path_lib \<Rightarrow> access_os \<Rightarrow> boundary \<Rightarrow> string \<Rightarrow> history \<Rightarrow> (access_error + string list) \<times> history" where
  "HoldDirectory L s b path h = pinDirectories L s b path False h"

definition EnsureDirectory ::
    "path_lib \<Rightarrow> access_os \<Rightarrow> boundary \<Rightarrow> string \<Rightarrow> history \<Rightarrow> access_error option \<times> history" where
  "EnsureDirectory L s b path h =
     (case pinDirectories L s b path True h of
        (Inl e, h1) \<Rightarrow> (Some e, h1)
      | (Inr pins, h1) \<Rightarrow> (None, closePins pins h1))"

text \<open>The flags of \<^verbatim>\<open>os.OpenFile\<close> on Windows, and what is asked of \<^verbatim>\<open>CreateFile\<close>.\<close>

definition O_WRONLY :: "64 word" where "O_WRONLY = 1"
definition O_RDWR :: "64 word" where "O_RDWR = 2"
definition O_CREATE :: "64 word" where "O_CREATE = 0x40"
definition O_EXCL :: "64 word" where "O_EXCL = 0x80"
definition O_APPEND :: "64 word" where "O_APPEND = 0x400"
definition O_TRUNC :: "64 word" where "O_TRUNC = 0x200"

definition flag_set :: "64 word \<Rightarrow> 64 word \<Rightarrow> bool" where
  "flag_set flag m \<longleftrightarrow> flag AND m \<noteq> 0"

definition supported_flags :: "64 word \<Rightarrow> bool" where
  "supported_flags flag \<longleftrightarrow> flag AND NOT (O_WRONLY OR O_RDWR OR O_APPEND OR O_CREATE OR O_EXCL) = 0"

datatype disposition = OPEN_EXISTING | OPEN_ALWAYS | CREATE_NEW

definition READ_CONTROL :: "32 word" where "READ_CONTROL = 0x20000"
definition FILE_READ_ATTRIBUTES :: "32 word" where "FILE_READ_ATTRIBUTES = 0x80"
definition FILE_APPEND_DATA :: "32 word" where "FILE_APPEND_DATA = 0x4"
definition GENERIC_READ :: "32 word" where "GENERIC_READ = 0x80000000"
definition GENERIC_WRITE :: "32 word" where "GENERIC_WRITE = 0x40000000"

definition open_access :: "64 word \<Rightarrow> 32 word" where
  "open_access flag =
     ((READ_CONTROL OR FILE_READ_ATTRIBUTES) OR (if flag_set flag O_WRONLY then 0 else GENERIC_READ))
     OR (if flag_set flag O_APPEND then FILE_APPEND_DATA
         else if flag_set flag (O_WRONLY OR O_RDWR) then GENERIC_WRITE else 0)"

definition open_disposition :: "64 word \<Rightarrow> disposition" where
  "open_disposition flag =
     (if flag_set flag O_CREATE then if flag_set flag O_EXCL then CREATE_NEW else OPEN_ALWAYS else OPEN_EXISTING)"

text \<open>\<^verbatim>\<open>OpenFile\<close>; the result is the path whose handle is open, with the access and the disposition asked for.\<close>

definition OpenFile ::
    "path_lib \<Rightarrow> access_os \<Rightarrow> boundary \<Rightarrow> string \<Rightarrow> 64 word \<Rightarrow> history
      \<Rightarrow> (access_error + string \<times> 32 word \<times> disposition) \<times> history" where
  "OpenFile L s b path flag h =
     (if outside L b path then apfst Inl (reject path ''path_escape'' h)
      else if \<not> supported_flags flag then apfst Inl (reject path ''unsupported_open_mode'' h)
      else case pinDirectories L s b (pl_dir L path) False h of
        (Inl e, h1) \<Rightarrow> (Inl e, h1)
      | (Inr pins, h1) \<Rightarrow>
          if \<not> ao_open_file s h1 path
          then (case reject path ''security_descriptor_unreadable'' h1 of (e, h2) \<Rightarrow> (Inl e, closePins pins h2))
          else case validate_object L s b (Pinned path False False '''' None) (h1 @ [OpenedObject path]) of
                 (Some e, h2) \<Rightarrow> (Inl e, closePins pins (h2 @ [ClosedHandle path]))
               | (None, h2) \<Rightarrow> (Inr (path, open_access flag, open_disposition flag), closePins pins h2))"

definition CreateTemp ::
    "path_lib \<Rightarrow> access_os \<Rightarrow> boundary \<Rightarrow> string \<Rightarrow> history \<Rightarrow> (access_error + string) \<times> history" where
  "CreateTemp L s b directory h =
     (case pinDirectories L s b directory False h of
        (Inl e, h1) \<Rightarrow> (Inl e, h1)
      | (Inr pins, h1) \<Rightarrow>
          (case ao_create_temp s h1 of
             None \<Rightarrow> (Inl SystemError, closePins pins h1)
           | Some name \<Rightarrow>
               (case validate_object L s b (Pinned name False False '''' None) (h1 @ [OpenedObject name]) of
                  (Some e, h2) \<Rightarrow> (Inl e, closePins pins (h2 @ [ClosedHandle name]))
                | (None, h2) \<Rightarrow> (Inr name, closePins pins h2))))"

text \<open>\<^verbatim>\<open>WithFiles\<close>: the pins of all files so far are held until the action has run.\<close>

fun with_files :: "path_lib \<Rightarrow> access_os \<Rightarrow> boundary \<Rightarrow> string list \<Rightarrow> string list \<Rightarrow> history
    \<Rightarrow> access_error option \<times> string list \<times> history" where
  "with_files L s b pins [] h =
     (let ok = ao_action s h in (if ok then None else Some ActionFailed, pins, h @ [Acted]))"
| "with_files L s b pins (path # paths) h =
     (if outside L b path then (case reject path ''path_escape'' h of (e, h1) \<Rightarrow> (Some e, pins, h1))
      else case pinDirectories L s b (pl_dir L path) False h of
        (Inl e, h1) \<Rightarrow> (Some e, pins, h1)
      | (Inr parents, h1) \<Rightarrow>
          if CHR 0x00 \<in> set path then (case reject path ''path_escape'' h1 of (e, h2) \<Rightarrow> (Some e, pins @ parents, h2))
          else (case ao_open_shared s h1 path of
             Missing \<Rightarrow> with_files L s b (pins @ parents) paths h1
           | OpenFailed \<Rightarrow>
               (case reject path ''security_descriptor_unreadable'' h1 of (e, h2) \<Rightarrow> (Some e, pins @ parents, h2))
           | Opened \<Rightarrow>
               (case validate_object L s b (Pinned path False False '''' None) (h1 @ [OpenedObject path]) of
                  (Some e, h2) \<Rightarrow> (Some e, pins @ parents @ [path], h2)
                | (None, h2) \<Rightarrow> with_files L s b (pins @ parents @ [path]) paths h2)))"

definition WithFiles ::
    "path_lib \<Rightarrow> access_os \<Rightarrow> boundary \<Rightarrow> string list \<Rightarrow> history \<Rightarrow> access_error option \<times> history" where
  "WithFiles L s b paths h =
     (case with_files L s b [] paths h of (r, pins, h1) \<Rightarrow> (r, closePins pins h1))"

section \<open>Handles and checks\<close>

text \<open>Nothing done here repairs anything or touches the runtime lock.\<close>

fun harmless :: "event \<Rightarrow> bool" where
  "harmless (Repaired p ok) = False"
| "harmless (LockAnswer ok) = False"
| "harmless Unlocked = False"
| "harmless _ = True"

abbreviation canonical_seen :: "history \<Rightarrow> string \<Rightarrow> bool" where
  "canonical_seen \<equiv> seen (\<lambda>_ a _. as_class a = Canonical)"

lemma report_harmless [simp]: "extends harmless h (report scope path a action h)"
  by (rule extends_mono [OF report_extends]) (auto elim: observing.elims)

lemma report_handles [simp]: "handles (report scope path a action h) = handles h"
  by (rule extends_calm(1) [OF extends_passive_calm [OF report_extends]])

lemma canonical_seen_extends: "canonical_seen h p \<Longrightarrow> extends P h h' \<Longrightarrow> canonical_seen h' p"
  unfolding extends_def by (auto intro: seen_extend)

lemma handles_close: "handles (h @ map ClosedHandle ps) = handles h - mset ps"
  by (simp add: handles_append fold_close)

lemma closePins_ok:
  "extends harmless h (closePins pins h) \<and> handles (closePins pins h) = handles h - mset pins"
  by (simp_all add: closePins_def list_all_iff handles_close)

lemma reject_ok:
  assumes "reject path reason h = (e, h')"
  shows "extends harmless h h'" and "handles h' = handles h"
  using assms by (auto simp: reject_def)

lemma validate_object_ok:
  assumes "validate_object L s b x h = (r, h')"
  shows "extends harmless h h'" and "handles h' = handles h" and "r = None \<Longrightarrow> canonical_seen h' (po_path x)"
proof -
  obtain a where a: "h' = h @ [Inspected (po_path x) a] \<and> as_class a = Canonical
      \<or> r \<noteq> None \<and> h' = report ''on_access'' (po_path x) a ''fail_closed'' (h @ [Inspected (po_path x) a])"
    using assms by (auto simp: validate_object_def Let_def split: if_splits)
  have i: "extends harmless h (h @ [Inspected (po_path x) a])" "handles (h @ [Inspected (po_path x) a]) = handles h"
    by (simp_all add: handles_append)
  show "extends harmless h h'" using a i(1) extends_trans [OF i(1) report_harmless] by blast
  show "handles h' = handles h" using a i(2) by auto
  show "canonical_seen h' (po_path x)" if "r = None" using a that by (auto intro: seen_now)
qed

lemma harmless_pinned [simp]: "extends harmless h (h @ [PinnedAncestor p])"
  "extends harmless h (h @ [MadeDirectory p])" "extends harmless h (h @ [OpenedObject p])"
  "extends harmless h (h @ [ClosedHandle p])" "extends harmless h (h @ [Acted])"
  by simp_all

lemma handles_events [simp]:
  "handles (h @ [PinnedAncestor p]) = add_mset p (handles h)"
  "handles (h @ [OpenedObject p]) = add_mset p (handles h)"
  "handles (h @ [ClosedHandle p]) = handles h - {#p#}"
  "handles (h @ [MadeDirectory p]) = handles h"
  "handles (h @ [Acted]) = handles h"
  by (simp_all add: handles_append)

lemma pin_each_ok:
  assumes "pin_each L s b create first pins ps h = (r, h')" and "handles h = m + mset pins"
  shows "extends harmless h h' \<and> (case r of Inl _ \<Rightarrow> handles h' = m
    | Inr pins' \<Rightarrow> pins' = pins @ ps \<and> handles h' = m + mset pins' \<and> list_all (canonical_seen h') ps)"
  using assms
proof (induction ps arbitrary: first pins h)
  case Nil
  then show ?case by auto
next
  case (Cons p ps)
  define make where "make \<longleftrightarrow> os_open s h p = Missing \<and> create \<and> (b_shared b \<or> \<not> first)"
  define h1 where "h1 = (if make then h @ [MadeDirectory p] else h)"
  let ?unreadable = "\<lambda>h. if b_shared b then (SystemError, h) else reject p ''security_descriptor_unreadable'' h"
  let ?check = "validate_object L s b (Pinned p True (first \<and> \<not> b_shared b) '''' None) (h1 @ [PinnedAncestor p])"
  have eq: "pin_each L s b create first pins (p # ps) h =
     (if make \<and> \<not> ao_mkdir s h p then (case ?unreadable h of (e, h) \<Rightarrow> (Inl e, closePins pins h))
      else if os_open s h1 p \<noteq> Opened then (case ?unreadable h1 of (e, h) \<Rightarrow> (Inl e, closePins pins h))
      else case ?check of (Some e, h2) \<Rightarrow> (Inl e, closePins (pins @ [p]) h2)
             | (None, h2) \<Rightarrow> pin_each L s b create False (pins @ [p]) ps h2)"
    by (simp add: Let_def make_def h1_def)
  note prem = Cons.prems(1) [unfolded eq]
  have e1: "extends harmless h h1" "handles h1 = m + mset pins" using Cons.prems(2) by (simp_all add: h1_def)
  have stop: "extends harmless h (closePins pins h3) \<and> handles (closePins pins h3) = m"
    if "h3 = h2 \<or> h3 = snd (reject q reason h2)" "extends harmless h h2" "handles h2 = m + mset pins" for h2 h3 q reason
  proof -
    have "extends harmless h h3 \<and> handles h3 = m + mset pins"
      using that reject_ok [of q reason h2] by (metis extends_trans prod.collapse)
    then show ?thesis using closePins_ok [of h3 pins] extends_trans by fastforce
  qed
  consider "make \<and> \<not> ao_mkdir s h p" | "\<not> (make \<and> \<not> ao_mkdir s h p)" "os_open s h1 p \<noteq> Opened"
    | "\<not> (make \<and> \<not> ao_mkdir s h p)" "os_open s h1 p = Opened" by blast
  then show ?case
  proof cases
    case 1
    with prem have "\<exists>e h3. r = Inl e \<and> h' = closePins pins h3
        \<and> (h3 = h \<or> h3 = snd (reject p ''security_descriptor_unreadable'' h))"
      by (auto split: if_splits prod.splits)
    with stop Cons.prems(2) show ?thesis by fastforce
  next
    case 2
    with prem have "\<exists>e h3. r = Inl e \<and> h' = closePins pins h3
        \<and> (h3 = h1 \<or> h3 = snd (reject p ''security_descriptor_unreadable'' h1))"
      by (auto split: if_splits prod.splits)
    with stop e1 show ?thesis by fastforce
  next
    case 3
    obtain r2 h2 where v: "validate_object L s b (Pinned p True (first \<and> \<not> b_shared b) '''' None)
        (h1 @ [PinnedAncestor p]) = (r2, h2)" by fastforce
    have e2: "extends harmless h h2" "handles h2 = m + mset (pins @ [p])"
      using extends_trans [OF e1(1) extends_trans [OF harmless_pinned(1) validate_object_ok(1) [OF v]]]
        validate_object_ok(2) [OF v] e1(2) by simp_all
    show ?thesis
    proof (cases r2)
      case (Some e)
      with 3 prem v have "r = Inl e" "h' = closePins (pins @ [p]) h2" by auto
      with e2 closePins_ok [of h2 "pins @ [p]"] extends_trans show ?thesis by fastforce
    next
      case None
      with 3 prem v have n: "pin_each L s b create False (pins @ [p]) ps h2 = (r, h')" by auto
      note ih = Cons.IH [OF n e2(2)]
      have "canonical_seen h' p"
        using validate_object_ok(3) [OF v] None conjunct1 [OF ih] by (simp add: canonical_seen_extends)
      with ih extends_trans [OF e2(1)] show ?thesis by (auto split: sum.splits)
    qed
  qed
qed

lemma pin_from_handles:
  assumes "pin_from L s pins ps h = (r, h')" and "handles h = m + mset pins"
  shows "extends harmless h h' \<and> (case r of Inl _ \<Rightarrow> handles h' = m | Inr pins' \<Rightarrow> handles h' = m + mset pins')"
  using assms
proof (induction ps arbitrary: pins h)
  case Nil
  then show ?case by auto
next
  case (Cons p ps)
  show ?case
  proof (cases "os_open s h p = Opened \<and> ancestor_fault L s p (h @ [PinnedAncestor p]) = None")
    case True
    with Cons.prems(1) have "pin_from L s (pins @ [p]) ps (h @ [PinnedAncestor p]) = (r, h')" by (simp add: Let_def)
    from Cons.IH [OF this] Cons.prems(2) extends_trans [OF harmless_pinned(1) [of h p]] show ?thesis by simp
  next
    case False
    have c: "extends harmless h (h @ PinnedAncestor p # map ClosedHandle pins @ [ClosedHandle p])"
      by (simp add: list_all_iff)
    from False Cons.prems c show ?thesis
      by (auto simp: Let_def list_all_iff handles_append fold_close split: if_splits option.splits)
  qed
qed

definition directory_chain :: "path_lib \<Rightarrow> boundary \<Rightarrow> string \<Rightarrow> string list" where
  "directory_chain L b directory =
     (if b_shared b then rev (dir_chain L (length directory) directory) else runtime_chain L (b_root b) directory)"

lemma pinDirectories_ok:
  assumes "pinDirectories L s b directory create h = (r, h')"
  shows "extends harmless h h' \<and> (case r of Inl _ \<Rightarrow> handles h' = handles h
    | Inr pins \<Rightarrow> \<not> outside L b directory \<and> handles h' = handles h + mset pins
        \<and> set (directory_chain L b directory) \<subseteq> set pins
        \<and> list_all (canonical_seen h') (directory_chain L b directory))"
proof (cases "outside L b directory")
  case True
  with assms show ?thesis by (cases "reject directory ''path_escape'' h") (auto simp: pinDirectories_def reject_ok)
next
  case inn: False
  show ?thesis
  proof (cases "b_shared b")
    case True
    with inn assms have "pin_each L s b create True [] (directory_chain L b directory) h = (r, h')"
      by (simp add: pinDirectories_def pinDownloadDirectories_def directory_chain_def)
    from pin_each_ok [OF this, of "handles h"] inn show ?thesis by (auto split: sum.splits)
  next
    case False
    obtain r1 h1 where a: "pinAncestors L (os.truncate s) (b_root b) h = (r1, h1)" by fastforce
    have a_ok: "extends harmless h h1 \<and> (case r1 of Inl _ \<Rightarrow> handles h1 = handles h | Inr pins \<Rightarrow> handles h1 = handles h + mset pins)"
      using a pin_from_handles [of L "os.truncate s" "[]" _ h r1 h1 "handles h"]
      by (auto simp: pinAncestors_def split: if_splits)
    show ?thesis
    proof (cases r1)
      case (Inl e)
      with inn False assms a a_ok reject_ok extends_trans show ?thesis
        by (cases e) (fastforce simp: pinDirectories_def reject_def)+
    next
      case (Inr anc)
      with inn False assms a have "pin_each L s b create True anc (directory_chain L b directory) h1 = (r, h')"
        by (simp add: pinDirectories_def directory_chain_def)
      from pin_each_ok [OF this, of "handles h"] a_ok Inr inn extends_trans show ?thesis
        by (fastforce split: sum.splits)
    qed
  qed
qed

text \<open>The single-object operations: pin, then use, then unpin.\<close>

lemma use_object_ok:
  assumes v: "validate_object L s b (Pinned path False False '''' None) (h @ [OpenedObject path]) = (r, h1)"
    and h: "handles h = m + mset pins"
  shows "extends harmless h (closePins pins (if r = None then h1 else h1 @ [ClosedHandle path]))
    \<and> handles (closePins pins (if r = None then h1 else h1 @ [ClosedHandle path]))
        = (if r = None then add_mset path m else m)
    \<and> (r = None \<longrightarrow> canonical_seen (closePins pins h1) path)"
proof -
  note v1 = validate_object_ok [OF v]
  have e: "extends harmless h (if r = None then h1 else h1 @ [ClosedHandle path])"
    using extends_trans [OF harmless_pinned(3) v1(1)] extends_trans [OF _ harmless_pinned(4)] by auto
  have "canonical_seen (closePins pins h1) path" if "r = None"
    using v1(3) [OF that] closePins_ok by (auto intro: canonical_seen_extends)
  with e closePins_ok extends_trans v1(2) h show ?thesis by (auto intro: extends_trans)
qed

lemma open_file_ok:
  "case OpenFile L s b path flag h of
     (Inl e, h') \<Rightarrow> handles h' = handles h \<and> extends harmless h h'
   | (Inr (p, access, disp), h') \<Rightarrow>
       p = path \<and> \<not> outside L b path \<and> handles h' = add_mset path (handles h) \<and> extends harmless h h'
       \<and> canonical_seen h' path \<and> \<not> flag_set flag O_TRUNC"
proof -
  have tr: "\<not> flag_set flag O_TRUNC" if "supported_flags flag"
  proof -
    have "flag AND O_TRUNC = (flag AND NOT (O_WRONLY OR O_RDWR OR O_APPEND OR O_CREATE OR O_EXCL)) AND O_TRUNC"
      by (simp add: and.assoc O_WRONLY_def O_RDWR_def O_APPEND_def O_CREATE_def O_EXCL_def O_TRUNC_def)
    with that show ?thesis by (simp add: supported_flags_def flag_set_def)
  qed
  obtain r1 h1 where d: "pinDirectories L s b (pl_dir L path) False h = (r1, h1)" by fastforce
  note d_ok = pinDirectories_ok [OF d]
  obtain r2 h2 where v: "validate_object L s b (Pinned path False False '''' None) (h1 @ [OpenedObject path]) = (r2, h2)"
    by fastforce
  obtain e0 h0 where rj: "reject path ''security_descriptor_unreadable'' h1 = (e0, h0)" by fastforce
  have rej: "extends harmless h (closePins pins h0) \<and> handles (closePins pins h0) = handles h" if "r1 = Inr pins" for pins
  proof -
    have "handles h1 = handles h + mset pins" "extends harmless h h1" using d_ok that by auto
    with reject_ok [OF rj] closePins_ok [of h0 pins] show ?thesis by (metis add_diff_cancel_right' extends_trans)
  qed
  show ?thesis
  proof (cases "outside L b path \<or> \<not> supported_flags flag")
    case True
    then show ?thesis by (auto simp: OpenFile_def reject_def)
  next
    case False
    show ?thesis
    proof (cases r1)
      case (Inl e)
      with False d d_ok show ?thesis by (simp add: OpenFile_def)
    next
      case (Inr pins)
      have "handles h1 = handles h + mset pins" using d_ok Inr by simp
      note u = use_object_ok [OF v this]
      have ex: "extends harmless h h1" using d_ok by simp
      show ?thesis
        using False d Inr rej [OF Inr] rj u v tr extends_trans [OF ex]
        by (cases r2) (auto simp: OpenFile_def)
    qed
  qed
qed

text \<open>
  C19. Opening a file under the boundary either fails and leaves no handle behind, or gives exactly one
  handle, on the path asked for, which is inside the boundary and was found sound through that very
  handle before anything could be read or written; nothing is truncated, repaired or unlocked.
\<close>

theorem open_file_checked:
  "case OpenFile L s b path flag h of
     (Inl e, h') \<Rightarrow> handles h' = handles h \<and> extends harmless h h'
   | (Inr (p, access, disp), h') \<Rightarrow>
       p = path \<and> \<not> outside L b path \<and> handles h' = add_mset path (handles h) \<and> extends harmless h h'
       \<and> canonical_seen h' path \<and> \<not> flag_set flag O_TRUNC"
  by (rule open_file_ok)

lemma create_temp_checked:
  "case CreateTemp L s b directory h of
     (Inl e, h') \<Rightarrow> handles h' = handles h \<and> extends harmless h h'
   | (Inr name, h') \<Rightarrow>
       \<not> outside L b directory \<and> handles h' = add_mset name (handles h) \<and> extends harmless h h'
       \<and> canonical_seen h' name"
proof -
  obtain r1 h1 where d: "pinDirectories L s b directory False h = (r1, h1)" by fastforce
  note d_ok = pinDirectories_ok [OF d]
  show ?thesis
  proof (cases r1)
    case (Inl e)
    with d d_ok show ?thesis by (simp add: CreateTemp_def)
  next
    case (Inr pins)
    have hd: "handles h1 = handles h + mset pins" "extends harmless h h1" using d_ok Inr by simp_all
    show ?thesis
    proof (cases "ao_create_temp s h1")
      case None
      with d Inr hd closePins_ok [of h1 pins] extends_trans [OF hd(2)] show ?thesis by (simp add: CreateTemp_def)
    next
      case (Some name)
      obtain r2 h2 where v: "validate_object L s b (Pinned name False False '''' None) (h1 @ [OpenedObject name]) = (r2, h2)"
        by fastforce
      from use_object_ok [OF v hd(1)] d Inr Some v d_ok extends_trans [OF hd(2)] show ?thesis
        by (cases r2) (auto simp: CreateTemp_def)
    qed
  qed
qed

text \<open>A directory made ready or held: every directory on the way was found sound, and only a hold keeps pins.\<close>

lemma directories_checked:
  "case EnsureDirectory L s b path h of
     (r, h') \<Rightarrow> handles h' = handles h \<and> extends harmless h h'
       \<and> (r = None \<longrightarrow> \<not> outside L b path \<and> list_all (canonical_seen h') (directory_chain L b path))"
  "case HoldDirectory L s b path h of
     (Inl e, h') \<Rightarrow> handles h' = handles h
   | (Inr pins, h') \<Rightarrow> \<not> outside L b path \<and> handles (closePins pins h') = handles h
       \<and> set (directory_chain L b path) \<subseteq> set pins \<and> list_all (canonical_seen h') (directory_chain L b path)"
proof -
  obtain r1 h1 where d: "pinDirectories L s b path True h = (r1, h1)" by fastforce
  have c: "canonical_seen h1 p \<Longrightarrow> canonical_seen (closePins pins h1) p" for p pins
    using closePins_ok canonical_seen_extends by blast
  from pinDirectories_ok [OF d] d closePins_ok [of h1] c extends_trans [of harmless h h1]
  show "case EnsureDirectory L s b path h of
     (r, h') \<Rightarrow> handles h' = handles h \<and> extends harmless h h'
       \<and> (r = None \<longrightarrow> \<not> outside L b path \<and> list_all (canonical_seen h') (directory_chain L b path))"
    by (cases r1) (auto simp: EnsureDirectory_def list_all_iff)
  obtain r2 h2 where d2: "pinDirectories L s b path False h = (r2, h2)" by fastforce
  from pinDirectories_ok [OF d2] d2 closePins_ok [of h2]
  show "case HoldDirectory L s b path h of
     (Inl e, h') \<Rightarrow> handles h' = handles h
   | (Inr pins, h') \<Rightarrow> \<not> outside L b path \<and> handles (closePins pins h') = handles h
       \<and> set (directory_chain L b path) \<subseteq> set pins \<and> list_all (canonical_seen h') (directory_chain L b path)"
    by (cases r2) (auto simp: HoldDirectory_def)
qed

section \<open>Acting on files\<close>

text \<open>
  What must hold of a file when the action runs: it is inside, its directories are pinned and sound, and
  it is itself sound or was found missing.
\<close>

definition checked_file :: "path_lib \<Rightarrow> access_os \<Rightarrow> boundary \<Rightarrow> string list \<Rightarrow> history \<Rightarrow> string \<Rightarrow> bool" where
  "checked_file L s b pins h path \<longleftrightarrow>
     \<not> outside L b path \<and> set (directory_chain L b (pl_dir L path)) \<subseteq> set pins
     \<and> list_all (canonical_seen h) (directory_chain L b (pl_dir L path))
     \<and> (canonical_seen h path \<and> path \<in> set pins \<or> (\<exists>h0. extends harmless h0 h \<and> ao_open_shared s h0 path = Missing))"

lemma checked_file_extends:
  "checked_file L s b pins h path \<Longrightarrow> extends harmless h h' \<Longrightarrow> set pins \<subseteq> set pins' \<Longrightarrow>
     checked_file L s b pins' h' path"
  unfolding checked_file_def list_all_iff by (blast intro: canonical_seen_extends extends_trans)

lemma refusals:
  "reject path reason h = (e, h') \<Longrightarrow> e \<noteq> ActionFailed"
  "validate_object L s b x h = (Some e, h') \<Longrightarrow> e \<noteq> ActionFailed"
  by (auto simp: reject_def validate_object_def Let_def split: if_splits)

lemma pin_each_refusal: "pin_each L s b create first pins ps h = (Inl e, h') \<Longrightarrow> e \<noteq> ActionFailed"
proof (induction ps arbitrary: first pins h)
  case (Cons p ps)
  then show ?case
    by (auto simp: Let_def reject_def dest: refusals split: if_splits prod.splits option.splits)
qed simp

lemma pinDirectories_refusal: "pinDirectories L s b d create h = (Inl e, h') \<Longrightarrow> e \<noteq> ActionFailed"
  by (auto simp: pinDirectories_def pinDownloadDirectories_def reject_def dest: pin_each_refusal
      split: if_splits sum.splits prod.splits security_error.splits)

lemma with_files_ok:
  assumes "with_files L s b pins paths h = (r, pins', h')" and "handles h = m + mset pins"
    and "\<forall>path \<in> set done_paths. checked_file L s b pins h path"
  shows "extends harmless h h' \<and> handles h' = m + mset pins'
    \<and> (r = None \<or> r = Some ActionFailed \<longrightarrow>
        (\<exists>h1. h' = h1 @ [Acted] \<and> extends harmless h h1 \<and> handles h1 = m + mset pins'
           \<and> (\<forall>path \<in> set (done_paths @ paths). checked_file L s b pins' h1 path)))"
  using assms
proof (induction paths arbitrary: pins h done_paths)
  case Nil
  then show ?case by (auto simp: Let_def)
next
  case (Cons path paths)
  obtain r1 h1 where d: "pinDirectories L s b (pl_dir L path) False h = (r1, h1)" by fastforce
  note d_ok = pinDirectories_ok [OF d]
  have stop: "extends harmless h h3 \<and> handles h3 = m + mset pins3 \<and> e3 \<noteq> ActionFailed \<Longrightarrow> (r, pins', h') = (Some e3, pins3, h3) \<Longrightarrow> ?case"
    for e3 pins3 h3 by simp
  show ?case
  proof (cases "outside L b path")
    case True
    obtain e3 h3 where "reject path ''path_escape'' h = (e3, h3)" by fastforce
    with True Cons.prems reject_ok [OF this] refusals(1) [OF this] show ?thesis by (intro stop) auto
  next
    case inn: False
    show ?thesis
    proof (cases r1)
      case (Inl e)
      have "e \<noteq> ActionFailed" using pinDirectories_refusal [OF d [unfolded Inl]] .
      with Cons.prems inn d d_ok Inl show ?thesis by (intro stop [of h1 pins e]) auto
    next
      case (Inr parents)
      have h1: "extends harmless h h1" "handles h1 = m + mset (pins @ parents)"
        "set (directory_chain L b (pl_dir L path)) \<subseteq> set (pins @ parents)"
        "list_all (canonical_seen h1) (directory_chain L b (pl_dir L path))"
        using d_ok Inr Cons.prems(2) by auto
      have rj: "reject path reason h1 = (e3, h3) \<Longrightarrow> extends harmless h h3 \<and> handles h3 = m + mset (pins @ parents) \<and> e3 \<noteq> ActionFailed"
        for reason e3 h3
        using reject_ok [of path reason h1 e3 h3] refusals(1) [of path reason h1 e3 h3] h1 extends_trans by metis
      obtain e3 h3 where r3: "reject path ''path_escape'' h1 = (e3, h3)" by fastforce
      obtain e4 h4 where r4: "reject path ''security_descriptor_unreadable'' h1 = (e4, h4)" by fastforce
      obtain r2 h2 where v: "validate_object L s b (Pinned path False False '''' None) (h1 @ [OpenedObject path]) = (r2, h2)"
        by fastforce
      note v_ok = validate_object_ok [OF v]
      have h2: "extends harmless h1 h2" "handles h2 = m + mset (pins @ parents @ [path])"
        using extends_trans [OF harmless_pinned(3) v_ok(1)] v_ok(2) h1(2) by simp_all
      have old: "\<forall>p \<in> set done_paths. checked_file L s b (pins @ parents) h1 p"
        using Cons.prems(3) h1(1) by (auto intro: checked_file_extends)
      consider "CHR 0x00 \<in> set path" | "CHR 0x00 \<notin> set path" "ao_open_shared s h1 path = Missing"
        | "CHR 0x00 \<notin> set path" "ao_open_shared s h1 path = OpenFailed"
        | "CHR 0x00 \<notin> set path" "ao_open_shared s h1 path = Opened"
        by (cases "ao_open_shared s h1 path") auto
      then show ?thesis
      proof cases
        case 1
        with Cons.prems inn d Inr r3 rj [OF r3] show ?thesis by (intro stop [of h3 "pins @ parents" e3]) auto
      next
        case 2
        with Cons.prems inn d Inr have n: "with_files L s b (pins @ parents) paths h1 = (r, pins', h')" by simp
        have "checked_file L s b (pins @ parents) h1 path"
          unfolding checked_file_def using inn h1(3,4) 2(2) extends_refl by blast
        with old have "\<forall>p \<in> set (done_paths @ [path]). checked_file L s b (pins @ parents) h1 p" by simp
        from Cons.IH [OF n h1(2) this] extends_trans [OF h1(1)] show ?thesis by fastforce
      next
        case 3
        with Cons.prems inn d Inr r4 rj [OF r4] show ?thesis by (intro stop [of h4 "pins @ parents" e4]) auto
      next
        case 4
        show ?thesis
        proof (cases r2)
          case (Some e)
          with 4 Cons.prems inn d Inr v h2 extends_trans [OF h1(1) h2(1)] refusals(2) [of L s b _ _ e h2]
          show ?thesis by (intro stop [of h2 "pins @ parents @ [path]" e]) auto
        next
          case None
          with 4 Cons.prems inn d Inr v have n: "with_files L s b (pins @ parents @ [path]) paths h2 = (r, pins', h')"
            by simp
          have "canonical_seen h2 path" using v_ok(3) None by simp
          moreover have "list_all (canonical_seen h2) (directory_chain L b (pl_dir L path))"
            using h1(4) h2(1) by (auto simp: list_all_iff intro: canonical_seen_extends)
          ultimately have "checked_file L s b (pins @ parents @ [path]) h2 path"
            using inn h1(3) by (auto simp: checked_file_def)
          moreover have "\<forall>p \<in> set done_paths. checked_file L s b (pins @ parents @ [path]) h2 p"
            using old h2(1) by (auto intro: checked_file_extends)
          ultimately have "\<forall>p \<in> set (done_paths @ [path]). checked_file L s b (pins @ parents @ [path]) h2 p" by simp
          from Cons.IH [OF n h2(2) this] extends_trans [OF extends_trans [OF h1(1) h2(1)]] show ?thesis by fastforce
        qed
      qed
    qed
  qed
qed

text \<open>
  A rotation or deletion under the boundary runs only when every file it names is inside, every
  directory above the file is pinned and was found sound, and the file itself is either sound and
  pinned or missing; afterwards no handle is left.
\<close>

theorem action_only_on_checked_files:
  assumes "WithFiles L s b paths [] = (r, h)"
  shows "handles h = {#} \<and> extends harmless [] h
    \<and> (r = None \<longrightarrow> (\<exists>h1 h2 pins. h = h1 @ Acted # h2 \<and> handles h1 = mset pins
         \<and> list_all (checked_file L s b pins h1) paths))"
proof -
  obtain pins h' where w: "with_files L s b [] paths [] = (r, pins, h')" and h: "h = closePins pins h'"
    using assms by (auto simp: WithFiles_def split: prod.splits)
  have w_ok: "extends harmless [] h' \<and> handles h' = mset pins
    \<and> (r = None \<or> r = Some ActionFailed \<longrightarrow>
        (\<exists>h1. h' = h1 @ [Acted] \<and> handles h1 = mset pins \<and> (\<forall>path \<in> set ([] @ paths). checked_file L s b pins h1 path)))"
    using with_files_ok [OF w, of "{#}" "[]"] by (auto simp: handles_def)
  have "handles h = {#}" "extends harmless [] h"
    using w_ok closePins_ok [of h' pins] extends_trans by (auto simp: h)
  moreover have "\<exists>h1 h2 pins. h = h1 @ Acted # h2 \<and> handles h1 = mset pins \<and> list_all (checked_file L s b pins h1) paths"
    if "r = None"
  proof -
    obtain h1 where h1: "h' = h1 @ [Acted]" "handles h1 = mset pins" "\<forall>path \<in> set paths. checked_file L s b pins h1 path"
      using w_ok \<open>r = None\<close> by auto
    then have "h = h1 @ Acted # map ClosedHandle (rev pins)" by (simp add: h closePins_def)
    with h1 show ?thesis by (auto simp: list_all_iff)
  qed
  ultimately show ?thesis by blast
qed

section \<open>Witness\<close>

definition sound_os :: access_os where
  "sound_os =
     \<lparr>os_open = (\<lambda>_ _. Opened), os_create_lock = (\<lambda>_ _. True), os_lock_descriptor = True,
      os_info = (\<lambda>_ p. Some \<lparr>fi_reparse = False, fi_directory = (p = ''/'' \<or> p = ''/r''), fi_links = 1\<rparr>),
      os_final = (\<lambda>_ p. Some p),
      os_security = (\<lambda>_ p. Some (set_dacl (canonicalDACL (p = ''/r'')) (sample_descriptor []))),
      os_set_dacl = (\<lambda>_ _. True), os_lock = (\<lambda>_. True), os_cancelled = (\<lambda>_. False),
      ao_mkdir = (\<lambda>_ _. True), ao_open_file = (\<lambda>_ _. True), ao_open_shared = (\<lambda>_ _. Opened),
      ao_create_temp = (\<lambda>_. Some ''/r/t''), ao_action = (\<lambda>_. True)\<rparr>"

theorem action_only_on_checked_files_witness:
  "\<exists>h1 h2 pins. snd (WithFiles unix_paths sound_os \<lparr>b_root = ''/r'', b_shared = False\<rparr> [''/r/a''] []) = h1 @ Acted # h2
     \<and> checked_file unix_paths sound_os \<lparr>b_root = ''/r'', b_shared = False\<rparr> pins h1 ''/r/a''"
proof -
  let ?w = "WithFiles unix_paths sound_os \<lparr>b_root = ''/r'', b_shared = False\<rparr> [''/r/a''] []"
  have "fst ?w = None" by code_simp
  then have "?w = (None, snd ?w)" by (simp add: prod_eq_iff)
  from action_only_on_checked_files [OF this] show ?thesis by (auto simp: list_all_iff)
qed

end
