(* ===== verification/DesktopCapture.thy ===== *)
theory DesktopCapture
  imports Prelude
begin

text \<open>
  Screen capture through the Desktop Helper, \<^verbatim>\<open>internal/desktopcapture\<close>: the frames on the pipe, the
  helper that answers one request byte with one frame, and the Service's client with its reconnection
  and its restrained waking of the helper.  Times are in nanoseconds.
\<close>

section \<open>Frames\<close>

definition captureRequest :: char where "captureRequest = CHR 0x01"
definition maxFrameSize :: nat where "maxFrameSize = 8 * 2 ^ 20"
definition frameHeaderSize :: nat where "frameHeaderSize = 4"

text \<open>\<^verbatim>\<open>binary.LittleEndian\<close> on 32 bits.\<close>

definition PutUint32 :: "nat \<Rightarrow> string" where
  "PutUint32 n = map char_of [n mod 256, n div 256 mod 256, n div 65536 mod 256, n div 16777216 mod 256]"

fun getLength :: "string \<Rightarrow> nat" where
  "getLength [] = 0"
| "getLength (c # cs) = of_char c + 256 * getLength cs"

lemma length_PutUint32 [simp]: "length (PutUint32 n) = 4"
  by (simp add: PutUint32_def)

lemma getLength_PutUint32:
  assumes "n < 2 ^ 32"
  shows "getLength (PutUint32 n) = n"
proof -
  have d: "n div 16777216 mod 256 = n div 16777216" using assms by (intro mod_less) (simp add: div_less_dividend less_mult_imp_div_less)
  have "n = n mod 256 + 256 * (n div 256 mod 256 + 256 * (n div 65536 mod 256 + 256 * (n div 16777216)))"
  proof -
    have "n = n mod 256 + 256 * (n div 256)" by simp
    moreover have "n div 256 = n div 256 mod 256 + 256 * (n div 65536)"
      using mod_mult_div_eq [of "n div 256" 256] by (simp add: div_mult2_eq [symmetric])
    moreover have "n div 65536 = n div 65536 mod 256 + 256 * (n div 16777216)"
      using mod_mult_div_eq [of "n div 65536" 256] by (simp add: div_mult2_eq [symmetric])
    ultimately show ?thesis by presburger
  qed
  with d show ?thesis by (simp add: PutUint32_def)
qed

section \<open>The helper\<close>

text \<open>The answer to one request; \<open>None\<close> is a capture that failed.\<close>

definition frame_ok :: "string \<Rightarrow> bool" where
  "frame_ok frame \<longleftrightarrow> frame \<noteq> [] \<and> length frame \<le> maxFrameSize"

definition helper_answer :: "string option \<Rightarrow> string" where
  "helper_answer capture =
     (case capture of
        None \<Rightarrow> PutUint32 0
      | Some frame \<Rightarrow> if frame = [] \<or> length frame > maxFrameSize then PutUint32 0 else PutUint32 (length frame) @ frame)"

datatype helper_end = RequestUnread | UnsupportedRequest char

text \<open>
  The loop of \<^verbatim>\<open>serveConnection\<close> on the bytes that arrive, one capture for each request; what was written
  and how the connection ended.  A write that fails cuts the output short.
\<close>

fun serveConnection :: "string \<Rightarrow> string option list \<Rightarrow> string \<times> helper_end" where
  "serveConnection [] captures = ([], RequestUnread)"
| "serveConnection (r # rs) captures =
     (if r \<noteq> captureRequest then ([], UnsupportedRequest r)
      else case captures of
             [] \<Rightarrow> ([], RequestUnread)
           | c # cs \<Rightarrow> (case serveConnection rs cs of (out, e) \<Rightarrow> (helper_answer c @ out, e)))"

section \<open>The client\<close>

datatype open_pipe = PipeOpened | PipeNotFound | PipeRefused

record capture_client =
  cc_pipe :: bool
  cc_next_wake :: int

definition NewCapture :: capture_client where
  "NewCapture = \<lparr>cc_pipe = False, cc_next_wake = 0\<rparr>"

text \<open>
  What one call meets: the answer of the pipe, the two readings of the clock, the answer of the task
  scheduler, whether the request could be written and the bytes that can be read after it.
\<close>

record capture_env =
  ce_open :: open_pipe
  ce_now1 :: int
  ce_now2 :: int
  ce_wake_ok :: bool
  ce_write_ok :: bool
  ce_input :: string

datatype capture_error = HelperUnavailable | HelperNotStarted | RequestUnwritten | ResponseUnread | InvalidLength nat | FrameUnread

definition wake_pause :: int where "wake_pause = 15 * 10 ^ 9"

text \<open>\<^verbatim>\<open>ensurePipe\<close>; the list holds the time of the wake call, if there was one.\<close>

definition ensurePipe :: "capture_env \<Rightarrow> capture_client \<Rightarrow> capture_error option \<times> capture_client \<times> int list" where
  "ensurePipe env c =
     (if cc_pipe c then (None, c, [])
      else case ce_open env of
        PipeOpened \<Rightarrow> (None, c\<lparr>cc_pipe := True\<rparr>, [])
      | answer \<Rightarrow>
          if answer = PipeNotFound \<and> \<not> ce_now1 env < cc_next_wake c
          then let c1 = c\<lparr>cc_next_wake := ce_now2 env + wake_pause\<rparr>
               in (Some (if ce_wake_ok env then HelperUnavailable else HelperNotStarted), c1, [ce_now2 env])
          else (Some HelperUnavailable, c, []))"

text \<open>\<^verbatim>\<open>CaptureScreenJPEG\<close>; with the result come the bytes left unread in the pipe.\<close>

definition CaptureScreenJPEG ::
    "capture_env \<Rightarrow> capture_client \<Rightarrow> (capture_error + string) \<times> string \<times> capture_client \<times> int list" where
  "CaptureScreenJPEG env c =
     (case ensurePipe env c of
        (Some e, c1, wakes) \<Rightarrow> (Inl e, [], c1, wakes)
      | (None, c1, wakes) \<Rightarrow>
          let closed = c1\<lparr>cc_pipe := False\<rparr>; inp = ce_input env
          in if \<not> ce_write_ok env then (Inl RequestUnwritten, [], closed, wakes)
             else if length inp < frameHeaderSize then (Inl ResponseUnread, [], closed, wakes)
             else
               let n = getLength (take frameHeaderSize inp); body = drop frameHeaderSize inp
               in if n = 0 \<or> n > maxFrameSize then (Inl (InvalidLength n), [], closed, wakes)
                  else if length body < n then (Inl FrameUnread, [], closed, wakes)
                  else (Inr (take n body), drop n body, c1, wakes))"

definition CloseCapture :: "capture_client \<Rightarrow> capture_client" where
  "CloseCapture c = c\<lparr>cc_pipe := False\<rparr>"

section \<open>The task that starts the helper\<close>

datatype task_outcome = TaskRan | TaskFailed | TaskTimedOut
datatype task_error = NoSystemDirectory | LaunchTimedOut | LaunchFailed

text \<open>The command, and the error of the call.\<close>

definition task_command :: "string \<Rightarrow> string list" where
  "task_command directory =
     [directory @ [CHR 0x5C] @ ''schtasks.exe'', ''/Run'', ''/TN'', [CHR 0x5C] @ ''ThesisAgentDesktop'']"

definition startHelperTask :: "string option \<Rightarrow> task_outcome \<Rightarrow> string list option \<times> task_error option" where
  "startHelperTask directory out =
     (case directory of
        None \<Rightarrow> (None, Some NoSystemDirectory)
      | Some d \<Rightarrow>
          (Some (task_command d),
           case out of TaskRan \<Rightarrow> None | TaskTimedOut \<Rightarrow> Some LaunchTimedOut | TaskFailed \<Rightarrow> Some LaunchFailed))"

section \<open>The streams stay in step\<close>

lemma helper_answer_ok: "frame_ok frame \<Longrightarrow> helper_answer (Some frame) = PutUint32 (length frame) @ frame"
  by (simp add: frame_ok_def helper_answer_def)

lemma small_frame: "length frame \<le> maxFrameSize \<Longrightarrow> length frame < 2 ^ 32"
  by (simp add: maxFrameSize_def)

text \<open>A frame that the helper could send is read back exactly and nothing after it is touched.\<close>

lemma capture_reads_answer:
  assumes "frame_ok frame" and "cc_pipe c" and "ce_write_ok env" and "ce_input env = helper_answer (Some frame) @ rest"
  shows "CaptureScreenJPEG env c = (Inr frame, rest, c, [])"
proof -
  have n: "getLength (PutUint32 (length frame)) = length frame"
    using assms(1) by (intro getLength_PutUint32 small_frame) (simp add: frame_ok_def)
  show ?thesis using assms
    by (simp add: CaptureScreenJPEG_def ensurePipe_def helper_answer_ok frameHeaderSize_def n frame_ok_def Let_def)
qed

lemma capture_reads_refusal:
  assumes "\<not> frame_ok (case capture of None \<Rightarrow> [] | Some f \<Rightarrow> f)" and "cc_pipe c" and "ce_write_ok env"
    and "ce_input env = helper_answer capture @ rest"
  shows "CaptureScreenJPEG env c = (Inl (InvalidLength 0), [], c\<lparr>cc_pipe := False\<rparr>, [])"
proof -
  have a: "helper_answer capture = PutUint32 0"
    using assms(1) by (auto simp: helper_answer_def frame_ok_def split: option.splits)
  show ?thesis
    using assms(2,3,4) getLength_PutUint32 [of 0]
    by (simp add: CaptureScreenJPEG_def ensurePipe_def a frameHeaderSize_def Let_def)
qed

text \<open>
  A whole session: the client asks as long as it gets frames, the helper answers every request; the
  bytes that the helper has written and the client has not read are the input of the next call.
\<close>

fun session :: "nat \<Rightarrow> capture_client \<Rightarrow> string \<Rightarrow> string list \<times> capture_client \<times> string" where
  "session 0 c inp = ([], c, inp)"
| "session (Suc n) c inp =
     (case CaptureScreenJPEG \<lparr>ce_open = PipeRefused, ce_now1 = 0, ce_now2 = 0, ce_wake_ok = True, ce_write_ok = True,
              ce_input = inp\<rparr> c of
        (Inr frame, rest, c1, _) \<Rightarrow> (case session n c1 rest of (fs, c2, r) \<Rightarrow> (frame # fs, c2, r))
      | (Inl _, rest, c1, _) \<Rightarrow> ([], c1, rest))"

text \<open>
  C32. Against the helper of the repository the client receives exactly the captured frames, in order, up to
  the first capture that failed or does not fit into a frame; a session without such a capture ends with
  the pipe still open and no byte left over, one with such a capture ends with the pipe closed.
\<close>

theorem session_in_step:
  "session (length captures) \<lparr>cc_pipe = True, cc_next_wake = w\<rparr>
       (fst (serveConnection (replicate (length captures) captureRequest) captures))
     = (let frames = takeWhile frame_ok (map (\<lambda>c. case c of None \<Rightarrow> [] | Some f \<Rightarrow> f) captures)
        in (frames, \<lparr>cc_pipe = (length frames = length captures), cc_next_wake = w\<rparr>, []))"
proof (induction captures)
  case Nil
  then show ?case by simp
next
  case (Cons c cs)
  let ?c = "\<lparr>cc_pipe = True, cc_next_wake = w\<rparr>"
  let ?out = "fst (serveConnection (replicate (length cs) captureRequest) cs)"
  have out: "fst (serveConnection (replicate (length (c # cs)) captureRequest) (c # cs)) = helper_answer c @ ?out"
    by (simp split: prod.split)
  show ?case
  proof (cases "frame_ok (case c of None \<Rightarrow> [] | Some f \<Rightarrow> f)")
    case True
    then obtain f where f: "c = Some f" "frame_ok f" by (cases c) (auto simp: frame_ok_def)
    let ?env = "\<lparr>ce_open = PipeRefused, ce_now1 = 0, ce_now2 = 0, ce_wake_ok = True, ce_write_ok = True,
              ce_input = helper_answer c @ ?out\<rparr>"
    have "CaptureScreenJPEG ?env ?c = (Inr f, ?out, ?c, [])"
      by (rule capture_reads_answer) (simp_all add: f)
    with Cons.IH f show ?thesis unfolding out by (simp add: Let_def)
  next
    case False
    let ?env = "\<lparr>ce_open = PipeRefused, ce_now1 = 0, ce_now2 = 0, ce_wake_ok = True, ce_write_ok = True,
              ce_input = helper_answer c @ ?out\<rparr>"
    have "CaptureScreenJPEG ?env ?c = (Inl (InvalidLength 0), [], ?c\<lparr>cc_pipe := False\<rparr>, [])"
      by (rule capture_reads_refusal [of c _ _ ?out]) (simp_all add: False)
    with False show ?thesis unfolding out by (simp add: Let_def)
  qed
qed

section \<open>Waking the helper\<close>

text \<open>A history of calls and closings; the times of the wake calls, oldest first.\<close>

datatype capture_event = CaptureCall capture_env | CaptureClose

fun capture_run :: "capture_client \<Rightarrow> capture_event list \<Rightarrow> int list" where
  "capture_run c [] = []"
| "capture_run c (CaptureClose # es) = capture_run (CloseCapture c) es"
| "capture_run c (CaptureCall env # es) =
     (case CaptureScreenJPEG env c of (_, _, c1, wakes) \<Rightarrow> wakes @ capture_run c1 es)"

text \<open>The clock never runs backwards.\<close>

definition clock_ok :: "capture_event list \<Rightarrow> bool" where
  "clock_ok es \<longleftrightarrow> sorted (concat (map (\<lambda>e. case e of CaptureCall env \<Rightarrow> [ce_now1 env, ce_now2 env] | CaptureClose \<Rightarrow> []) es))"

fun apart :: "int \<Rightarrow> int list \<Rightarrow> bool" where
  "apart d (x # y # ys) \<longleftrightarrow> x + d \<le> y \<and> apart d (y # ys)"
| "apart d _ \<longleftrightarrow> True"

lemma apart_Cons: "apart d (x # ys) \<longleftrightarrow> (case ys of [] \<Rightarrow> True | y # _ \<Rightarrow> x + d \<le> y) \<and> apart d ys"
  by (cases ys) auto

lemma capture_wakes:
  assumes "CaptureScreenJPEG env c = (r, rest, c1, wakes)" and "ce_now1 env \<le> ce_now2 env"
  shows "(wakes = [] \<and> cc_next_wake c1 = cc_next_wake c)
    \<or> (wakes = [ce_now2 env] \<and> cc_next_wake c \<le> ce_now2 env \<and> cc_next_wake c1 = ce_now2 env + wake_pause
       \<and> ce_open env = PipeNotFound \<and> \<not> cc_pipe c)"
  using assms
  by (auto simp: CaptureScreenJPEG_def ensurePipe_def Let_def split: if_splits open_pipe.splits prod.splits option.splits)

lemma capture_run_wakes:
  assumes "clock_ok es"
  shows "apart wake_pause (capture_run c es) \<and> (\<forall>t \<in> set (take 1 (capture_run c es)). cc_next_wake c \<le> t)"
  using assms
proof (induction es arbitrary: c)
  case Nil
  then show ?case by simp
next
  case (Cons e es)
  have ck: "clock_ok es" using Cons.prems by (auto simp: clock_ok_def sorted_append)
  show ?case
  proof (cases e)
    case CaptureClose
    with Cons.IH [OF ck, of "CloseCapture c"] show ?thesis by (simp add: CloseCapture_def)
  next
    case (CaptureCall env)
    obtain r rest c1 wakes where s: "CaptureScreenJPEG env c = (r, rest, c1, wakes)" by (metis prod_cases4)
    have "ce_now1 env \<le> ce_now2 env" using Cons.prems CaptureCall by (simp add: clock_ok_def)
    from capture_wakes [OF s this] Cons.IH [OF ck, of c1] CaptureCall s show ?thesis
      by (auto simp: apart_Cons split: list.splits)
  qed
qed

text \<open>
  Whatever happens to the pipe, the helper is woken at most once in fifteen seconds.
\<close>

theorem wakes_apart:
  assumes "clock_ok es"
  shows "apart (15 * 10 ^ 9) (capture_run NewCapture es)"
  using capture_run_wakes [OF assms, of NewCapture] by (simp add: wake_pause_def)

definition missing_pipe :: "int \<Rightarrow> capture_event" where
  "missing_pipe t = CaptureCall \<lparr>ce_open = PipeNotFound, ce_now1 = t, ce_now2 = t, ce_wake_ok = True,
     ce_write_ok = True, ce_input = []\<rparr>"

theorem wakes_apart_witness:
  "capture_run NewCapture (map missing_pipe [1, 2, 20000000000]) = [1, 20000000000]
   \<and> apart (15 * 10 ^ 9) [1, 20000000000]"
proof -
  have r: "capture_run NewCapture (map missing_pipe [1, 2, 20000000000]) = [1, 20000000000]"
    by (simp add: missing_pipe_def CaptureScreenJPEG_def ensurePipe_def NewCapture_def wake_pause_def Let_def)
  have "clock_ok (map missing_pipe [1, 2, 20000000000])" by (simp add: clock_ok_def missing_pipe_def)
  from wakes_apart [OF this] r show ?thesis by simp
qed

end
