(* ===== verification/HostServices.thy ===== *)
theory HostServices
  imports Prelude
begin

text \<open>
  Services of the host behind the commands: the shutdown controller of \<^verbatim>\<open>service/power_windows.go\<close> with
  its mock \<^verbatim>\<open>service/power.go\<close>, processes (\<^verbatim>\<open>service/process.go\<close>), the primary network address
  (\<^verbatim>\<open>service/network.go\<close>) and the DPAPI calls (\<^verbatim>\<open>service/dpapi_windows.go\<close>).
\<close>

section \<open>The shutdown controller\<close>

text \<open>
  The goroutine of an accepted request waits for its timer, then runs the command; \<open>pc_cancelled\<close> is its
  context.  \<open>pc_started\<close> counts the shutdown commands that really started.
\<close>

datatype power_job = NoJob | Waiting | Commanding

record power_controller =
  pc_delay :: int
  pc_scheduled :: bool
  pc_closed :: bool
  pc_cancelled :: bool
  pc_job :: power_job
  pc_started :: nat
  pc_joined :: bool

datatype power_error = ContextDone | ShutdownUnavailable | ControllerStopping | AlreadyScheduled

definition NewPower :: "int \<Rightarrow> power_controller" where
  "NewPower delay =
     \<lparr>pc_delay = delay, pc_scheduled = False, pc_closed = False, pc_cancelled = False, pc_job = NoJob,
      pc_started = 0, pc_joined = False\<rparr>"

definition effective_delay :: "power_controller \<Rightarrow> int" where
  "effective_delay c = (if pc_delay c \<le> 0 then 3 * 10 ^ 9 else pc_delay c)"

text \<open>\<^verbatim>\<open>Shutdown\<close> with a context that is done or not and a system directory that is known or not.\<close>

definition PowerShutdown :: "bool \<Rightarrow> bool \<Rightarrow> power_controller \<Rightarrow> power_error option \<times> power_controller" where
  "PowerShutdown done_ctx directory c =
     (if done_ctx then (Some ContextDone, c)
      else if \<not> directory then (Some ShutdownUnavailable, c)
      else if pc_closed c then (Some ControllerStopping, c)
      else if pc_scheduled c then (Some AlreadyScheduled, c)
      else (None, c\<lparr>pc_scheduled := True, pc_cancelled := False, pc_job := Waiting\<rparr>))"

text \<open>\<^verbatim>\<open>Close\<close> up to its wait; the wait returns when the goroutine is gone.\<close>

definition PowerClose :: "power_controller \<Rightarrow> power_controller" where
  "PowerClose c = c\<lparr>pc_closed := True, pc_cancelled := True\<rparr>"

datatype power_event = ShutdownCall bool bool | TimerFired | CancelSeen | CommandEnded bool | CloseCall | CloseReturned

text \<open>
  A command under a cancelled context never starts and counts as failed; a running one is killed by the
  cancellation and fails.
\<close>

definition power_step :: "power_controller \<Rightarrow> power_event \<Rightarrow> power_controller" where
  "power_step c e =
     (case e of
        ShutdownCall done_ctx directory \<Rightarrow> snd (PowerShutdown done_ctx directory c)
      | TimerFired \<Rightarrow>
          if pc_job c \<noteq> Waiting then c
          else if pc_cancelled c then c\<lparr>pc_job := NoJob, pc_scheduled := False\<rparr>
          else c\<lparr>pc_job := Commanding, pc_started := pc_started c + 1\<rparr>
      | CancelSeen \<Rightarrow> if pc_job c = Waiting \<and> pc_cancelled c then c\<lparr>pc_job := NoJob\<rparr> else c
      | CommandEnded ok \<Rightarrow>
          if pc_job c \<noteq> Commanding then c
          else if ok then c\<lparr>pc_job := NoJob\<rparr> else c\<lparr>pc_job := NoJob, pc_scheduled := False\<rparr>
      | CloseCall \<Rightarrow> PowerClose c
      | CloseReturned \<Rightarrow> if pc_closed c \<and> pc_job c = NoJob then c\<lparr>pc_joined := True\<rparr> else c)"

definition power_inv :: "power_controller \<Rightarrow> bool" where
  "power_inv c \<longleftrightarrow>
     (pc_job c \<noteq> NoJob \<longrightarrow> pc_scheduled c) \<and> (pc_closed c \<and> pc_job c \<noteq> NoJob \<longrightarrow> pc_cancelled c)
     \<and> (pc_joined c \<longrightarrow> pc_closed c \<and> pc_job c = NoJob)"

lemma power_step_inv: "power_inv c \<Longrightarrow> power_inv (power_step c e)"
  by (cases e) (auto simp: power_inv_def power_step_def PowerShutdown_def PowerClose_def)

interpretation pw: event_machine "\<lambda>c. c = NewPower d" power_step power_inv
  by unfold_locales (auto simp: power_step_inv, simp add: power_inv_def NewPower_def)

lemma closed_starts_nothing:
  "power_inv c \<Longrightarrow> pc_closed c \<Longrightarrow>
     pc_started (power_step c e) = pc_started c \<and> pc_closed (power_step c e)"
  by (cases e) (auto simp: power_inv_def power_step_def PowerShutdown_def PowerClose_def)

lemma closed_run:
  "power_inv c \<Longrightarrow> pc_closed c \<Longrightarrow>
     pc_started (foldl power_step c es) = pc_started c \<and> pc_closed (foldl power_step c es)"
proof (induction es arbitrary: c)
  case (Cons e es)
  from closed_starts_nothing [OF Cons.prems] Cons.IH [of "power_step c e"] power_step_inv [OF Cons.prems(1)]
  show ?case by simp
qed simp

text \<open>
  A request is accepted only while none is scheduled and the controller is open, so at most one
  shutdown is ever under way; and once the controller was closed no shutdown command starts any
  more, whatever was scheduled before and whatever comes later.
\<close>

theorem no_shutdown_after_close:
  "pc_started (foldl power_step (NewPower d) (es @ CloseCall # fs)) = pc_started (foldl power_step (NewPower d) es)
   \<and> (let c = foldl power_step (NewPower d) es
      in (fst (PowerShutdown False True c) = None) = (\<not> pc_closed c \<and> \<not> pc_scheduled c)
         \<and> (if pc_job c = NoJob then True else pc_scheduled c))"
proof -
  let ?c = "foldl power_step (NewPower d) es"
  have i: "power_inv ?c" by (rule pw.run_inv) (rule refl)
  have "power_inv (power_step ?c CloseCall)" using i by (rule power_step_inv)
  moreover have "pc_closed (power_step ?c CloseCall)" "pc_started (power_step ?c CloseCall) = pc_started ?c"
    by (simp_all add: power_step_def PowerClose_def)
  ultimately show ?thesis
    using closed_run [of "power_step ?c CloseCall" fs] i
    by (simp add: PowerShutdown_def Let_def power_inv_def)
qed

definition MockShutdown :: "bool \<Rightarrow> power_error option" where
  "MockShutdown done_ctx = (if done_ctx then Some ContextDone else None)"

section \<open>Processes\<close>

record process_info =
  pi_pid :: int
  pi_name :: string

text \<open>\<^verbatim>\<open>GetProcessList\<close>: the processes of the system, each with its name if it can be read.\<close>

definition GetProcessList :: "(int \<times> string option) list option \<Rightarrow> process_info list option" where
  "GetProcessList processes =
     (case processes of
        None \<Rightarrow> None
      | Some ps \<Rightarrow> Some (List.map_filter (\<lambda>(pid, name). map_option (\<lambda>n. \<lparr>pi_pid = pid, pi_name = n\<rparr>) name) ps))"

datatype kill_error = BadPid | NoSuchProcess int | KillFailed int

definition KillProcess :: "(int \<Rightarrow> bool) \<Rightarrow> (int \<Rightarrow> bool) \<Rightarrow> int \<Rightarrow> kill_error option \<times> int list" where
  "KillProcess exists kill pid =
     (if pid \<le> 0 then (Some BadPid, [])
      else if \<not> exists pid then (Some (NoSuchProcess pid), [])
      else if \<not> kill pid then (Some (KillFailed pid), [pid])
      else (None, [pid]))"

section \<open>The primary network address\<close>

record interface =
  if_up :: bool
  if_loopback :: bool
  if_hardware :: string
  if_addrs :: "(string \<times> bool) option list option"

text \<open>
  An address is \<open>None\<close> when it is no IP network, otherwise its text and whether it is IPv4.
\<close>

definition first_ipv4 :: "(string \<times> bool) option list \<Rightarrow> string option" where
  "first_ipv4 addrs =
     (case find (\<lambda>a. case a of None \<Rightarrow> False | Some (t, v4) \<Rightarrow> v4) addrs of
        Some (Some (t, v4)) \<Rightarrow> Some t
      | _ \<Rightarrow> None)"

fun primary_from :: "interface list \<Rightarrow> string \<times> string" where
  "primary_from [] = ('''', '''')"
| "primary_from (i # is) =
     (if \<not> if_up i \<or> if_loopback i then primary_from is
      else case if_addrs i of
             None \<Rightarrow> primary_from is
           | Some addrs \<Rightarrow>
               (case first_ipv4 addrs of Some t \<Rightarrow> (t, if_hardware i) | None \<Rightarrow> primary_from is))"

definition getPrimaryNetwork :: "interface list option \<Rightarrow> string \<times> string" where
  "getPrimaryNetwork interfaces = (case interfaces of None \<Rightarrow> ('''', '''') | Some is \<Rightarrow> primary_from is)"

lemma first_ipv4_Some: "first_ipv4 addrs = Some t \<Longrightarrow> Some (t, True) \<in> set addrs"
  by (auto simp: first_ipv4_def find_Some_iff in_set_conv_nth split: option.splits prod.splits)

lemma primary_from_spec:
  "primary_from is = ('''', '''') \<or>
     (\<exists>i \<in> set is. \<exists>addrs t. if_up i \<and> \<not> if_loopback i \<and> if_addrs i = Some addrs \<and> Some (t, True) \<in> set addrs
        \<and> primary_from is = (t, if_hardware i))"
proof (induction "is")
  case (Cons i "is")
  then show ?case by (auto split: option.splits dest: first_ipv4_Some)
qed simp

section \<open>DPAPI\<close>

definition cryptProtectUIForbidden :: nat where "cryptProtectUIForbidden = 1"
definition cryptProtectLocalMachine :: nat where "cryptProtectLocalMachine = 4"

text \<open>\<^verbatim>\<open>dpapiTransform\<close>; the procedure gets the flags and the data and may fail.\<close>

definition dpapiTransform :: "(nat \<Rightarrow> string \<Rightarrow> string option) \<Rightarrow> nat \<Rightarrow> string \<Rightarrow> string option" where
  "dpapiTransform call flags data = (if data = [] then None else call flags data)"

definition protectPrivateKey :: "(nat \<Rightarrow> string \<Rightarrow> string option) \<Rightarrow> bool \<Rightarrow> string \<Rightarrow> string option" where
  "protectPrivateKey call machine data =
     dpapiTransform call (if machine then cryptProtectUIForbidden + cryptProtectLocalMachine else cryptProtectUIForbidden) data"

definition unprotectPrivateKey :: "(nat \<Rightarrow> string \<Rightarrow> string option) \<Rightarrow> string \<Rightarrow> string option" where
  "unprotectPrivateKey call data = dpapiTransform call cryptProtectUIForbidden data"

end
