(* ===== verification/HostInfo.thy ===== *)
theory HostInfo
  imports Complex_Main Doubles HostServices "HOL-Library.Word"
begin

text \<open>
  What the agent tells about its host: \<^verbatim>\<open>service/performance.go\<close>, \<^verbatim>\<open>system_info.go\<close>, \<^verbatim>\<open>os_version_windows.go\<close>
  and the size of a screen frame in \<^verbatim>\<open>screen.go\<close>.  The readings of the system and the pixels are arguments;
  a double is a pair of an integer and an exponent as in \<open>Doubles\<close>.
\<close>

type_synonym double = "nat \<times> nat"

section \<open>Performance\<close>

record PerformanceInfo =
  pf_cpu_usage :: double
  pf_ram_total :: double
  pf_ram_used :: double
  pf_ram_usage :: double
  pf_disk_total :: double
  pf_disk_used :: double
  pf_disk_free :: double
  pf_disk_usage :: double

text \<open>\<^verbatim>\<open>float64(bytes) / 1024 / 1024 / 1024\<close>: one rounding, then three exact divisions.\<close>

definition bytesToGB :: "64 word \<Rightarrow> double" where
  "bytesToGB bytes = (round53 (unat bytes), 30)"

definition no_performance :: PerformanceInfo where
  "no_performance =
     \<lparr>pf_cpu_usage = (0, 0), pf_ram_total = (0, 0), pf_ram_used = (0, 0), pf_ram_usage = (0, 0),
      pf_disk_total = (0, 0), pf_disk_used = (0, 0), pf_disk_free = (0, 0), pf_disk_usage = (0, 0)\<rparr>"

record memory_stat =
  vm_total :: "64 word"
  vm_used :: "64 word"
  vm_percent :: double

record disk_stat =
  du_total :: "64 word"
  du_used :: "64 word"
  du_free :: "64 word"
  du_percent :: double

text \<open>The information gathered so far and whether there was an error.\<close>

definition GetPerformanceInfo ::
    "double list option \<Rightarrow> memory_stat option \<Rightarrow> (string \<Rightarrow> disk_stat option) \<Rightarrow> bool \<Rightarrow> PerformanceInfo \<times> bool" where
  "GetPerformanceInfo cpu ram disk windows =
     (case cpu of
        None \<Rightarrow> (no_performance, True)
      | Some percent \<Rightarrow>
          let i1 = (case percent of [] \<Rightarrow> no_performance | p # _ \<Rightarrow> no_performance\<lparr>pf_cpu_usage := p\<rparr>)
          in case ram of
               None \<Rightarrow> (i1, True)
             | Some m \<Rightarrow>
                 let i2 = i1\<lparr>pf_ram_total := bytesToGB (vm_total m), pf_ram_used := bytesToGB (vm_used m),
                             pf_ram_usage := vm_percent m\<rparr>
                 in case disk (if windows then ''C:'' @ [CHR 0x5C] else ''/'') of
                      None \<Rightarrow> (i2, True)
                    | Some d \<Rightarrow>
                        (i2\<lparr>pf_disk_total := bytesToGB (du_total d), pf_disk_used := bytesToGB (du_used d),
                            pf_disk_free := bytesToGB (du_free d), pf_disk_usage := du_percent d\<rparr>, False))"

section \<open>The host\<close>

record os_info =
  oi_name :: string
  oi_edition :: string
  oi_version :: string

record system_info =
  si_id :: string
  si_hostname :: string
  si_ip :: string
  si_mac :: string
  si_os :: os_info

text \<open>\<^verbatim>\<open>RtlGetVersion\<close> gives a status and three numbers.\<close>

definition getOSVersion :: "32 word \<Rightarrow> 32 word \<Rightarrow> 32 word \<Rightarrow> 32 word \<Rightarrow> string" where
  "getOSVersion status major minor build =
     (if status \<noteq> 0 then ''unknown''
      else if major = 10 \<and> build \<ge> 22000 then ''11''
      else decimal (uint major) @ ''.'' @ decimal (uint minor))"

definition getOSInfo :: "string \<Rightarrow> string \<Rightarrow> string \<Rightarrow> os_info" where
  "getOSInfo goos goarch version = \<lparr>oi_name = goos, oi_edition = goarch, oi_version = version\<rparr>"

definition or_empty :: "string option \<Rightarrow> string" where
  "or_empty v = (case v of None \<Rightarrow> '''' | Some s \<Rightarrow> s)"

definition getSystemInfoForAgent :: "os_info \<Rightarrow> string option \<Rightarrow> interface list option \<Rightarrow> string \<Rightarrow> system_info" where
  "getSystemInfoForAgent os hostname interfaces agentID =
     (case getPrimaryNetwork interfaces of
        (ip, mac) \<Rightarrow> \<lparr>si_id = agentID, si_hostname = or_empty hostname, si_ip = ip, si_mac = mac, si_os = os\<rparr>)"

text \<open>\<^verbatim>\<open>GetSystemInfo\<close>: an identifier that cannot be had stays empty.\<close>

definition GetSystemInfo :: "os_info \<Rightarrow> string option \<Rightarrow> interface list option \<Rightarrow> string option \<Rightarrow> system_info" where
  "GetSystemInfo os hostname interfaces agent_id = getSystemInfoForAgent os hostname interfaces (or_empty agent_id)"

section \<open>The screen\<close>

record 'p image =
  im_width :: nat
  im_height :: nat
  im_pixels :: 'p

definition ScreenMaxWidth :: nat where "ScreenMaxWidth = 1280"
definition ScreenMaxHeight :: nat where "ScreenMaxHeight = 720"
definition ScreenQuality :: nat where "ScreenQuality = 60"

text \<open>\<^verbatim>\<open>float64(max) / float64(d)\<close>; \<open>None\<close> is infinity, the quotient by zero.\<close>

definition ratio :: "nat \<Rightarrow> nat \<Rightarrow> double option" where
  "ratio maxd d = (if d = 0 then None else Some (quotient maxd d))"

definition min_ratio :: "double option \<Rightarrow> double option \<Rightarrow> double option" where
  "min_ratio a b =
     (case a of None \<Rightarrow> b
      | Some x \<Rightarrow> (case b of None \<Rightarrow> Some x | Some y \<Rightarrow> Some (if double_le x y then x else y)))"

text \<open>The size that an image is scaled to, \<open>None\<close> when it fits; both ratios cannot be infinite then.\<close>

definition target_size :: "nat \<Rightarrow> nat \<Rightarrow> nat \<Rightarrow> nat \<Rightarrow> (nat \<times> nat) option" where
  "target_size width height maxWidth maxHeight =
     (if width \<le> maxWidth \<and> height \<le> maxHeight then None
      else map_option (\<lambda>scale. (max 1 (scaled width scale), max 1 (scaled height scale)))
             (min_ratio (ratio maxWidth width) (ratio maxHeight height)))"

definition fitImage :: "('p image \<Rightarrow> nat \<times> nat \<Rightarrow> 'p) \<Rightarrow> 'p image \<Rightarrow> nat \<Rightarrow> nat \<Rightarrow> 'p image" where
  "fitImage resample source maxWidth maxHeight =
     (case target_size (im_width source) (im_height source) maxWidth maxHeight of
        None \<Rightarrow> source
      | Some (w, h) \<Rightarrow> \<lparr>im_width = w, im_height = h, im_pixels = resample source (w, h)\<rparr>)"

datatype screen_error = NoActiveDisplay | CaptureFailed | EncodeFailed

definition CaptureScreenJPEG ::
    "nat \<Rightarrow> 'p image option \<Rightarrow> ('p image \<Rightarrow> nat \<times> nat \<Rightarrow> 'p) \<Rightarrow> ('p image \<Rightarrow> nat \<Rightarrow> string option) \<Rightarrow> screen_error + string" where
  "CaptureScreenJPEG displays capture resample encode =
     (if displays = 0 then Inl NoActiveDisplay
      else case capture of
        None \<Rightarrow> Inl CaptureFailed
      | Some source \<Rightarrow>
          (case encode (fitImage resample source ScreenMaxWidth ScreenMaxHeight) ScreenQuality of
             None \<Rightarrow> Inl EncodeFailed
           | Some bytes \<Rightarrow> Inr bytes))"

section \<open>The size of a frame\<close>

lemma quotient_near:
  assumes "0 < d"
  shows "2 * (d * fst (quotient D d)) \<le> 2 * (D * 2 ^ snd (quotient D d)) + d"
    "2 * (D * 2 ^ snd (quotient D d)) \<le> 2 * (d * fst (quotient D d)) + d"
  using round_half_even_bounds [OF assms, of "D * 2 ^ quotient_shift D d"]
  by (simp_all add: quotient_def Let_def mult.commute)

lemma quotient_large:
  assumes "0 < D" and "D \<le> 2 ^ 20" and "0 < d"
  shows "d * 2 ^ 52 \<le> D * 2 ^ snd (quotient D d)"
proof -
  have "bit_length D \<le> 52" using assms(2) by (intro bit_length_le) simp
  from quotient_shift_bounds [OF assms(1,3) this] show ?thesis by (simp add: quotient_def Let_def)
qed

text \<open>
  Scaling by a ratio that is not above the one of a side keeps that side within its maximum: two roundings
  cannot add a whole pixel.
\<close>

lemma scaled_le:
  assumes "0 < D" and "D \<le> 2 ^ 20" and "0 < d" and "d < 2 ^ 53" and "double_le x (quotient D d)"
  shows "scaled d x \<le> D"
proof -
  define m s where x: "m = fst x" "s = snd x"
  define md sd where q: "md = fst (quotient D d)" "sd = snd (quotient D d)"
  define X where "X = round53 (d * m)"
  define P Q :: real where "P = 2 ^ s" and "Q = 2 ^ sd"
  have pos: "0 < P" "0 < Q" by (simp_all add: P_def Q_def)
  have "real (2 ^ 53 * X) \<le> real (2 ^ 53 * (d * m) + d * m)"
    using round53_bounds(1) [of "d * m"] unfolding X_def of_nat_le_iff .
  then have h1: "real X * 2 ^ 53 \<le> real (d * m) * (2 ^ 53 + 1)" by (simp add: algebra_simps)
  have "real (m * 2 ^ sd) \<le> real (md * 2 ^ s)" using assms(5) unfolding double_le_def x q of_nat_le_iff .
  then have "real d * (real m * Q) \<le> real d * (real md * P)" by (intro mult_left_mono) (simp_all add: P_def Q_def)
  then have h2: "real (d * m) * Q \<le> real (d * md) * P" by (simp add: mult.assoc)
  have "real (2 * (d * md)) \<le> real (2 * (D * 2 ^ sd) + d)"
    using quotient_near(1) [OF assms(3), of D] unfolding q of_nat_le_iff .
  then have h3: "2 * real (d * md) \<le> 2 * (real D * Q) + real d" by (simp add: Q_def)
  have "real (d * 2 ^ 52) \<le> real (D * 2 ^ sd)"
    using quotient_large [OF assms(1-3)] unfolding q of_nat_le_iff .
  then have h4: "real d * 2 ^ 52 \<le> real D * Q" by (simp add: Q_def)
  from h3 h4 have h5: "real (d * md) * 2 ^ 53 \<le> real D * Q * (2 ^ 53 + 1)" by (simp add: algebra_simps)
  have "real X * 2 ^ 53 * Q \<le> real (d * m) * (2 ^ 53 + 1) * Q" using h1 pos by (intro mult_right_mono) auto
  also have "\<dots> \<le> real (d * md) * P * (2 ^ 53 + 1)" using h2 by (simp add: algebra_simps)
  finally have "(real X * 2 ^ 53 * Q) * 2 ^ 53 \<le> real (d * md) * P * (2 ^ 53 + 1) * 2 ^ 53" by (rule mult_right_mono) simp
  also have "\<dots> = real (d * md) * 2 ^ 53 * (P * (2 ^ 53 + 1))" by (simp only: mult_ac)
  also have "\<dots> \<le> real D * Q * (2 ^ 53 + 1) * (P * (2 ^ 53 + 1))" using h5 pos by (intro mult_right_mono) auto
  finally have "(real X * 2 ^ 106) * Q \<le> (real D * P * ((2 ^ 53 + 1) * (2 ^ 53 + 1))) * Q" by (simp add: mult_ac)
  then have "real X * 2 ^ 106 \<le> real D * P * ((2 ^ 53 + 1) * (2 ^ 53 + 1))" using pos by simp
  also have "\<dots> = P * (real D * ((2 ^ 53 + 1) * (2 ^ 53 + 1)))" by (simp only: mult_ac)
  also have "\<dots> < P * ((real D + 1) * 2 ^ 106)"
  proof -
    have "real D \<le> 2 ^ 20" using assms(2) by (metis of_nat_le_iff of_nat_numeral of_nat_power)
    then have "real D * ((2 ^ 53 + 1) * (2 ^ 53 + 1)) < (real D + 1) * 2 ^ 106" by simp
    with pos show ?thesis by simp
  qed
  finally have "real X * 2 ^ 106 < ((real D + 1) * P) * 2 ^ 106" by (simp only: mult_ac)
  then have "real X < (real D + 1) * P" by (simp only: mult_less_cancel_right) simp
  then have "real X < real ((D + 1) * 2 ^ s)" by (simp add: P_def algebra_simps)
  then have "X < (D + 1) * 2 ^ s" unfolding of_nat_less_iff .
  then have "X div 2 ^ s < D + 1" by (simp add: less_mult_imp_div_less)
  moreover have "scaled d x = X div 2 ^ s" using round53_small [OF assms(4)] by (simp add: scaled_def X_def x)
  ultimately show ?thesis by simp
qed

text \<open>The side that decides the ratio loses at most one pixel.\<close>

lemma scaled_ge:
  assumes "0 < D" and "D \<le> 2 ^ 20" and "0 < d" and "d < 2 ^ 53"
  shows "D \<le> scaled d (quotient D d) + 1"
proof -
  define md sd where q: "md = fst (quotient D d)" "sd = snd (quotient D d)"
  define X where "X = round53 (d * md)"
  define Q :: real where "Q = 2 ^ sd"
  have pos: "0 < Q" by (simp add: Q_def)
  have "real (2 ^ 53 * (d * md)) \<le> real (2 ^ 53 * X + d * md)"
    using round53_bounds(2) [of "d * md"] unfolding X_def of_nat_le_iff .
  then have h1: "real (d * md) * (2 ^ 53 - 1) \<le> real X * 2 ^ 53" by (simp add: algebra_simps)
  have "real (2 * (D * 2 ^ sd)) \<le> real (2 * (d * md) + d)"
    using quotient_near(2) [OF assms(3), of D] unfolding q of_nat_le_iff .
  then have h3: "2 * (real D * Q) \<le> 2 * real (d * md) + real d" by (simp add: Q_def)
  have "real (d * 2 ^ 52) \<le> real (D * 2 ^ sd)"
    using quotient_large [OF assms(1-3)] unfolding q of_nat_le_iff .
  then have h4: "real d * 2 ^ 52 \<le> real D * Q" by (simp add: Q_def)
  from h3 h4 have h5: "real D * Q * (2 ^ 53 - 1) \<le> real (d * md) * 2 ^ 53" by (simp add: algebra_simps)
  have "(real D - 1) * Q * 2 ^ 106 \<le> real D * Q * ((2 ^ 53 - 1) * (2 ^ 53 - 1))"
  proof -
    have "real D \<le> 2 ^ 20" using assms(2) by (metis of_nat_le_iff of_nat_numeral of_nat_power)
    then have "(real D - 1) * 2 ^ 106 \<le> real D * ((2 ^ 53 - 1) * (2 ^ 53 - 1))" by simp
    then have "(real D - 1) * 2 ^ 106 * Q \<le> real D * ((2 ^ 53 - 1) * (2 ^ 53 - 1)) * Q" using pos by (intro mult_right_mono) auto
    then show ?thesis by (simp only: mult_ac)
  qed
  also have "\<dots> = real D * Q * (2 ^ 53 - 1) * (2 ^ 53 - 1)" by (simp only: mult_ac)
  also have "\<dots> \<le> real (d * md) * 2 ^ 53 * (2 ^ 53 - 1)" using h5 by (intro mult_right_mono) auto
  also have "\<dots> = real (d * md) * (2 ^ 53 - 1) * 2 ^ 53" by (simp only: mult_ac)
  also have "\<dots> \<le> real X * 2 ^ 53 * 2 ^ 53" using h1 by (intro mult_right_mono) auto
  finally have "(real D - 1) * Q \<le> real X" by simp
  then have "real (D * 2 ^ sd) \<le> real (X + 2 ^ sd)" by (simp add: Q_def algebra_simps)
  then have "D * 2 ^ sd \<le> X + 2 ^ sd" unfolding of_nat_le_iff .
  then have "D * 2 ^ sd div 2 ^ sd \<le> (X + 2 ^ sd) div 2 ^ sd" by (rule div_le_mono)
  then have "D \<le> (X + 2 ^ sd) div 2 ^ sd" by simp
  moreover have "(X + 2 ^ sd) div 2 ^ sd = X div 2 ^ sd + 1" by simp
  moreover have "scaled d (quotient D d) = X div 2 ^ sd"
    using round53_small [OF assms(4)] by (simp add: scaled_def X_def q)
  ultimately show ?thesis by simp
qed

lemma double_le_refl: "double_le x x"
  by (simp add: double_le_def)

lemma double_le_total: "\<not> double_le x y \<Longrightarrow> double_le y x"
  by (simp add: double_le_def)

text \<open>The ratio of an image that does not fit; a side of length zero leaves the ratio to the other one.\<close>

lemma scaled_zero [simp]: "scaled 0 x = 0"
  by (simp add: scaled_def round53_small)

lemma fitting_scale:
  assumes W: "0 < W" "W \<le> 2 ^ 20" and H: "0 < H" "H \<le> 2 ^ 20" and w: "w < 2 ^ 53" and h: "h < 2 ^ 53"
    and large: "\<not> (w \<le> W \<and> h \<le> H)"
  obtains scale where "min_ratio (ratio W w) (ratio H h) = Some scale" "scaled w scale \<le> W" "scaled h scale \<le> H"
    "W \<le> scaled w scale + 1 \<or> H \<le> scaled h scale + 1"
proof -
  note on_w = scaled_le [OF W _ w double_le_refl] scaled_ge [OF W _ w]
  note on_h = scaled_le [OF H _ h double_le_refl] scaled_ge [OF H _ h]
  consider "w = 0" "0 < h" | "h = 0" "0 < w" | "0 < w" "0 < h" using large by auto
  then show thesis
  proof cases
    case 1
    with on_h show thesis by (intro that [of "Doubles.quotient H h"]) (simp_all add: min_ratio_def ratio_def)
  next
    case 2
    with on_w show thesis by (intro that [of "Doubles.quotient W w"]) (simp_all add: min_ratio_def ratio_def)
  next
    case 3
    show thesis
    proof (cases "double_le (Doubles.quotient W w) (Doubles.quotient H h)")
      case True
      with 3 on_w scaled_le [OF H 3(2) h True] show thesis
        by (intro that [of "Doubles.quotient W w"]) (simp_all add: min_ratio_def ratio_def)
    next
      case False
      with 3 on_h scaled_le [OF W 3(1) w double_le_total [OF False]] show thesis
        by (intro that [of "Doubles.quotient H h"]) (simp_all add: min_ratio_def ratio_def)
    qed
  qed
qed



end
