(* ===== verification/ProtectedLog.thy ===== *)
theory ProtectedLog
  imports RotatingLog AccessBoundary
begin

text \<open>
  The log of \<open>RotatingLog\<close> as the program sets it up (\<^verbatim>\<open>initLoggingAt\<close> in \<^verbatim>\<open>service/logging.go\<close>): on the console with the
  plain calls of \<^verbatim>\<open>os\<close>, under the Service with every file opened, and every rotation done, through the
  boundary of \<open>AccessBoundary\<close>.  The state is the log, its files and the history of the boundary.  In the
  environment of an operation the two open outcomes now only say whether \<^verbatim>\<open>Stat\<close> works: whether the file
  opens is the boundary's answer.
\<close>

section \<open>Operations\<close>

record log_place =
  lp_lib :: path_lib
  lp_boundary :: "boundary option"
  lp_path :: string

definition log_flags :: "64 word" where
  "log_flags = (O_CREATE OR O_APPEND) OR O_WRONLY"

text \<open>What an open through the boundary means for the file: one that was opened and then refused exists.\<close>

definition boundary_outcome :: "open_outcome \<Rightarrow> string \<Rightarrow> history \<Rightarrow> (access_error + 'a) \<times> history \<Rightarrow> open_outcome" where
  "boundary_outcome out path h r =
     (case fst r of
        Inr _ \<Rightarrow> (if out = StatFailed then StatFailed else RotatingLog.Opened)
      | Inl _ \<Rightarrow> (if OpenedObject path \<in> set (drop (length h) (snd r)) then StatFailed else NotOpened))"

definition open_at ::
    "log_place \<Rightarrow> access_os \<Rightarrow> open_outcome \<Rightarrow> rotatingLog \<Rightarrow> log_files \<Rightarrow> history \<Rightarrow> (bool \<times> rotatingLog \<times> log_files) \<times> history" where
  "open_at pl s out w fs h =
     (case lp_boundary pl of
        None \<Rightarrow> (log_open out w fs, h)
      | Some b \<Rightarrow>
          let r = AccessBoundary.OpenFile (lp_lib pl) s b (lp_path pl) log_flags h;
              opened = boundary_outcome out (lp_path pl) h r
          in (log_open opened w fs,
              if \<not> isl (fst r) \<and> opened = StatFailed then snd r @ [ClosedHandle (lp_path pl)] else snd r))"

definition newRotatingLogWithBoundary ::
    "log_place \<Rightarrow> access_os \<Rightarrow> open_outcome \<Rightarrow> nat \<Rightarrow> nat \<Rightarrow> log_files \<Rightarrow> history
      \<Rightarrow> (bool \<times> rotatingLog \<times> log_files) \<times> history" where
  "newRotatingLogWithBoundary pl s out limit backups fs h =
     open_at pl s out \<lparr>rl_limit = limit, rl_size = 0, rl_backups = backups, rl_file = NoFile\<rparr> fs h"

text \<open>Closing the file of the log gives its handle back, also when the system reports an error.\<close>

definition close_file :: "log_place \<Rightarrow> rotatingLog \<Rightarrow> history \<Rightarrow> history" where
  "close_file pl w h =
     (if lp_boundary pl \<noteq> None \<and> rl_file w = RotatingLog.OpenFile then h @ [ClosedHandle (lp_path pl)] else h)"

definition rotate_files_at ::
    "log_place \<Rightarrow> access_os \<Rightarrow> log_env \<Rightarrow> rotatingLog \<Rightarrow> log_files \<Rightarrow> history \<Rightarrow> (bool \<times> rotatingLog \<times> log_files) \<times> history" where
  "rotate_files_at pl s env w fs h =
     (let h1 = close_file pl w h
      in if rl_file w = BrokenFile \<or> \<not> le_close_ok env then ((False, w\<lparr>rl_file := BrokenFile\<rparr>, fs), h1)
         else
           let w1 = w\<lparr>rl_file := NoFile\<rparr>
           in case shift_files env (rl_backups w) fs of
                (ok, fs1) \<Rightarrow> if \<not> ok then ((False, w1, fs1), h1) else open_at pl s (le_open2 env) w1 fs1 h1)"

text \<open>The log and its backups.\<close>

definition log_paths :: "string \<Rightarrow> nat \<Rightarrow> string list" where
  "log_paths path backups = path # map (\<lambda>i. path @ ''.'' @ decimal (int i)) [1..<Suc backups]"

text \<open>
  \<^verbatim>\<open>rotate\<close>: under a boundary the action of \<^verbatim>\<open>WithFiles\<close> is \<^verbatim>\<open>rotateFiles\<close>, which goes on with the history of the
  boundary; the pins are closed after it.
\<close>

definition rotate_at ::
    "log_place \<Rightarrow> access_os \<Rightarrow> log_env \<Rightarrow> rotatingLog \<Rightarrow> log_files \<Rightarrow> history \<Rightarrow> (bool \<times> rotatingLog \<times> log_files) \<times> history" where
  "rotate_at pl s env w fs h =
     (case lp_boundary pl of
        None \<Rightarrow> rotate_files_at pl s env w fs h
      | Some b \<Rightarrow>
          (case with_files (lp_lib pl) (s\<lparr>ao_action := (\<lambda>_. True)\<rparr>) b [] (log_paths (lp_path pl) (rl_backups w)) h of
             (Some e, pins, h1) \<Rightarrow> ((False, w, fs), closePins pins h1)
           | (None, pins, h1) \<Rightarrow> apsnd (closePins pins) (rotate_files_at pl s env w fs h1)))"

definition write_at ::
    "log_place \<Rightarrow> access_os \<Rightarrow> log_env \<Rightarrow> rotatingLog \<Rightarrow> log_files \<Rightarrow> history \<Rightarrow> string
      \<Rightarrow> (bool \<times> nat \<times> rotatingLog \<times> log_files) \<times> history" where
  "write_at pl s env w fs h p =
     (case (if rl_file w = NoFile then open_at pl s (le_open1 env) w fs h else ((True, w, fs), h)) of
        ((ok1, w1, fs1), h1) \<Rightarrow>
          if \<not> ok1 then ((False, 0, w1, fs1), h1)
          else case (if rl_size w1 + length p > rl_limit w1 then rotate_at pl s env w1 fs1 h1 else ((True, w1, fs1), h1)) of
            ((ok2, w2, fs2), h2) \<Rightarrow> if \<not> ok2 then ((False, 0, w2, fs2), h2) else (append_log env w2 fs2 p, h2))"

definition close_at :: "log_place \<Rightarrow> bool \<Rightarrow> rotatingLog \<Rightarrow> history \<Rightarrow> (bool \<times> rotatingLog) \<times> history" where
  "close_at pl ok w h = (CloseLog ok w, close_file pl w h)"

section \<open>Handles and checks\<close>

text \<open>
  What the history owes: apart from the handles \<open>m\<close> of others exactly the log's own one is open, and it was
  found sound.
\<close>

definition log_held :: "log_place \<Rightarrow> string multiset \<Rightarrow> rotatingLog \<Rightarrow> history \<Rightarrow> bool" where
  "log_held pl m w h \<longleftrightarrow>
     handles h = (if rl_file w = RotatingLog.OpenFile then add_mset (lp_path pl) m else m)
     \<and> (rl_file w = RotatingLog.OpenFile \<longrightarrow> canonical_seen h (lp_path pl))"

lemma log_held_pins:
  assumes "log_held pl (m + mset pins) w h"
  shows "log_held pl m w (closePins pins h)"
proof -
  have "canonical_seen (closePins pins h) (lp_path pl)" if "canonical_seen h (lp_path pl)"
    using that closePins_ok by (blast intro: canonical_seen_extends)
  then show ?thesis using assms by (simp add: log_held_def closePins_ok)
qed

lemma open_at_held:
  assumes "open_at pl s out w fs h = ((r, w', fs'), h')" and "lp_boundary pl = Some b"
    and "log_held pl m w h" and "rl_file w \<noteq> RotatingLog.OpenFile"
  shows "log_held pl m w' h' \<and> extends harmless h h'"
proof -
  let ?p = "lp_path pl"
  obtain a h1 where o: "AccessBoundary.OpenFile (lp_lib pl) s b ?p log_flags h = (a, h1)" by fastforce
  note ok = open_file_ok [where L = "lp_lib pl" and s = s and b = b and path = ?p and flag = log_flags and h = h, unfolded o]
  define q where "q = boundary_outcome out ?p h (a, h1)"
  have eq: "log_open q w fs = (r, w', fs')"
      "h' = (if \<not> isl a \<and> q = StatFailed then h1 @ [ClosedHandle ?p] else h1)"
    using assms(1,2) o by (auto simp: open_at_def Let_def q_def)
  note l = log_open_cases(1-3) [OF eq(1)]
  show ?thesis
  proof (cases a)
    case (Inl e)
    then have "q \<noteq> RotatingLog.Opened" by (simp add: q_def boundary_outcome_def)
    with l have "w' = w" by blast
    with Inl ok assms(3,4) eq(2) show ?thesis by (simp add: log_held_def)
  next
    case (Inr v)
    obtain x y z where v: "v = (x, y, z)" by (rule prod_cases3)
    have c: "handles h1 = add_mset ?p m" "extends harmless h h1" "canonical_seen h1 ?p"
      using ok Inr v assms(3,4) by (simp_all add: log_held_def)
    have q: "q = StatFailed \<or> q = RotatingLog.Opened" using Inr by (simp add: q_def boundary_outcome_def)
    then show ?thesis
    proof
      assume "q = StatFailed"
      with l eq(2) Inr c assms(4) extends_trans [OF c(2)] show ?thesis by (simp add: log_held_def)
    next
      assume "q = RotatingLog.Opened"
      with l eq(2) c show ?thesis by (simp add: log_held_def)
    qed
  qed
qed

lemma close_file_held:
  assumes "log_held pl m w h" and "lp_boundary pl \<noteq> None"
  shows "handles (close_file pl w h) = m" and "extends harmless h (close_file pl w h)"
  using assms by (simp_all add: log_held_def close_file_def)

lemma rotate_files_at_held:
  assumes "rotate_files_at pl s env w fs h = ((r, w', fs'), h')" and "lp_boundary pl = Some b" and "log_held pl m w h"
  shows "log_held pl m w' h' \<and> extends harmless h h'"
proof -
  note c = close_file_held [OF assms(3)]
  have n: "log_held pl m (w\<lparr>rl_file := f\<rparr>) (close_file pl w h)" if "f \<noteq> RotatingLog.OpenFile" for f
    using that c(1) assms(2) by (simp add: log_held_def)
  obtain ok fs1 where f: "shift_files env (rl_backups w) fs = (ok, fs1)" by fastforce
  consider "(r, w', fs') = (False, w\<lparr>rl_file := BrokenFile\<rparr>, fs)" "h' = close_file pl w h"
    | "(r, w', fs') = (False, w\<lparr>rl_file := NoFile\<rparr>, fs1)" "h' = close_file pl w h"
    | "open_at pl s (le_open2 env) (w\<lparr>rl_file := NoFile\<rparr>) fs1 (close_file pl w h) = ((r, w', fs'), h')"
  proof -
    have "((r, w', fs'), h') =
        (if rl_file w = BrokenFile \<or> \<not> le_close_ok env then ((False, w\<lparr>rl_file := BrokenFile\<rparr>, fs), close_file pl w h)
         else if \<not> ok then ((False, w\<lparr>rl_file := NoFile\<rparr>, fs1), close_file pl w h)
         else open_at pl s (le_open2 env) (w\<lparr>rl_file := NoFile\<rparr>) fs1 (close_file pl w h))"
      unfolding assms(1) [symmetric] by (simp add: rotate_files_at_def Let_def f)
    then show thesis using that by (metis prod.inject)
  qed
  then show ?thesis
  proof cases
    case 3
    from open_at_held [OF 3 assms(2) n] c(2) assms(2) extends_trans show ?thesis by fastforce
  qed (use n c(2) assms(2) in simp_all)
qed

lemma with_log_files:
  assumes "with_files L (s\<lparr>ao_action := (\<lambda>_. True)\<rparr>) b [] paths h = (r, pins, h1)"
  shows "extends harmless h h1 \<and> handles h1 = handles h + mset pins"
    and "r = None \<Longrightarrow> \<exists>h0. h1 = h0 @ [Acted] \<and> extends harmless h h0 \<and> mset pins \<subseteq># handles h0 \<and> list_all (checked_file L s b pins h0) paths"
proof -
  have "checked_file L (s\<lparr>ao_action := (\<lambda>_. True)\<rparr>) b = checked_file L s b"
    by (simp add: checked_file_def fun_eq_iff)
  note ok = with_files_ok [OF assms, of "handles h" "[]", unfolded this, simplified]
  from ok show "extends harmless h h1 \<and> handles h1 = handles h + mset pins" by blast
  show "\<exists>h0. h1 = h0 @ [Acted] \<and> extends harmless h h0 \<and> mset pins \<subseteq># handles h0 \<and> list_all (checked_file L s b pins h0) paths" if "r = None"
    using ok that by (auto simp: list_all_iff)
qed

lemma rotate_at_held:
  assumes "rotate_at pl s env w fs h = ((r, w', fs'), h')" and "lp_boundary pl = Some b" and "log_held pl m w h"
  shows "log_held pl m w' h' \<and> extends harmless h h'"
proof -
  obtain r1 pins h1 where f: "with_files (lp_lib pl) (s\<lparr>ao_action := (\<lambda>_. True)\<rparr>) b []
      (log_paths (lp_path pl) (rl_backups w)) h = (r1, pins, h1)" by (rule prod_cases3)
  note f_ok = with_log_files(1) [OF f]
  have p: "log_held pl (m + mset pins) w h1"
    using assms(3) f_ok canonical_seen_extends by (auto simp: log_held_def)
  have close: "extends harmless h h2 \<Longrightarrow> extends harmless h (closePins pins h2)" for h2
    using closePins_ok extends_trans by blast
  show ?thesis
  proof (cases r1)
    case None
    then obtain h2 where r: "rotate_files_at pl s env w fs h1 = ((r, w', fs'), h2)" "h' = closePins pins h2"
      using assms(1,2) f by (cases "rotate_files_at pl s env w fs h1") (auto simp: rotate_at_def)
    from rotate_files_at_held [OF r(1) assms(2) p] f_ok show ?thesis
      unfolding r(2) using log_held_pins close extends_trans by blast
  next
    case (Some e)
    then have "w' = w" "h' = closePins pins h1" using assms(1,2) f by (simp_all add: rotate_at_def)
    with log_held_pins [OF p] close f_ok show ?thesis by blast
  qed
qed

text \<open>The three parts of a write: the open it may start with, the rotation it may need, the append.\<close>

lemma write_at_cases:
  assumes "write_at pl s env w fs h p = ((r, n, w', fs'), h')"
  obtains ok1 w1 fs1 h1 ok2 w2 fs2 where
    "(if rl_file w = NoFile then open_at pl s (le_open1 env) w fs h else ((True, w, fs), h)) = ((ok1, w1, fs1), h1)"
    "(if ok1 \<and> rl_size w1 + length p > rl_limit w1 then rotate_at pl s env w1 fs1 h1 else ((ok1, w1, fs1), h1)) = ((ok2, w2, fs2), h')"
    "(r, n, w', fs') = (if ok2 then append_log env w2 fs2 p else (False, 0, w2, fs2))"
proof -
  obtain ok1 w1 fs1 h1 where
    o: "(if rl_file w = NoFile then open_at pl s (le_open1 env) w fs h else ((True, w, fs), h)) = ((ok1, w1, fs1), h1)"
    by (metis prod.exhaust)
  obtain ok2 w2 fs2 h2 where
    t: "(if ok1 \<and> rl_size w1 + length p > rl_limit w1 then rotate_at pl s env w1 fs1 h1 else ((ok1, w1, fs1), h1)) = ((ok2, w2, fs2), h2)"
    by (metis prod.exhaust)
  have e: "((r, n, w', fs'), h') = (if ok2 then append_log env w2 fs2 p else (False, 0, w2, fs2), h2)"
    using assms t unfolding write_at_def o by (auto split: if_splits)
  then have "h' = h2" by simp
  with o t e show thesis by (intro that) simp_all
qed

lemma write_at_held:
  assumes "write_at pl s env w fs h p = ((r, n, w', fs'), h')" and "lp_boundary pl = Some b" and "log_held pl m w h"
  shows "log_held pl m w' h' \<and> extends harmless h h'"
  using assms(1)
proof (rule write_at_cases)
  fix ok1 w1 fs1 h1 ok2 w2 fs2
  assume 1: "(if rl_file w = NoFile then open_at pl s (le_open1 env) w fs h else ((True, w, fs), h)) = ((ok1, w1, fs1), h1)"
    and 2: "(if ok1 \<and> rl_size w1 + length p > rl_limit w1 then rotate_at pl s env w1 fs1 h1 else ((ok1, w1, fs1), h1)) = ((ok2, w2, fs2), h')"
    and 3: "(r, n, w', fs') = (if ok2 then append_log env w2 fs2 p else (False, 0, w2, fs2))"
  have "log_held pl m w1 h1 \<and> extends harmless h h1"
    using 1 assms(2,3) open_at_held by (cases "rl_file w = NoFile") auto
  then have "log_held pl m w2 h' \<and> extends harmless h h'"
    using 2 assms(2) rotate_at_held extends_trans by (auto split: if_splits)
  moreover have "rl_file w' = rl_file w2"
    using 3 append_log_cases(1) [of env w2 fs2 p r n w' fs'] by (auto split: if_splits)
  ultimately show ?thesis by (simp add: log_held_def)
qed

section \<open>Refinement of the log\<close>

text \<open>Seen from the log and its files, the boundary only decides some of the outcomes of the environment.\<close>

definition decided :: "log_env \<Rightarrow> open_outcome \<times> bool \<times> open_outcome \<Rightarrow> log_env" where
  "decided env d = env\<lparr>le_open1 := fst d, le_boundary_ok := fst (snd d), le_open2 := snd (snd d)\<rparr>"

lemma shift_files_decided [simp]: "shift_files (decided env d) k fs = shift_files env k fs"
  by (induction k arbitrary: fs) (simp_all add: decided_def Let_def)

lemma append_log_decided [simp]: "append_log (decided env d) w fs p = append_log env w fs p"
  by (simp add: append_log_def decided_def)

lemma open_at_plain: "\<exists>out'. fst (open_at pl s out w fs h) = log_open out' w fs"
  by (auto simp: open_at_def Let_def split: option.splits)

lemma rotate_files_at_plain: "\<exists>out. fst (rotate_files_at pl s env w fs h) = rotateFiles (decided env (o1, b, out)) w fs"
proof -
  obtain ok fs1 where f: "shift_files env (rl_backups w) fs = (ok, fs1)" by fastforce
  from open_at_plain obtain out where
    "fst (open_at pl s (le_open2 env) (w\<lparr>rl_file := NoFile\<rparr>) fs1 (close_file pl w h)) = log_open out (w\<lparr>rl_file := NoFile\<rparr>) fs1"
    by blast
  with f show ?thesis
    by (intro exI [of _ out]) (simp add: rotate_files_at_def rotateFiles_def Let_def, simp add: decided_def)
qed

lemma rotate_at_plain: "\<exists>b out. fst (rotate_at pl s env w fs h) = rotateLog (decided env (o1, b, out)) w fs"
proof (cases "lp_boundary pl")
  case None
  from rotate_files_at_plain [of pl s env w fs h o1 True] obtain out where
    "fst (rotate_files_at pl s env w fs h) = rotateFiles (decided env (o1, True, out)) w fs" by blast
  with None show ?thesis
    by (intro exI [of _ True] exI [of _ out]) (simp add: rotate_at_def rotateLog_def, simp add: decided_def)
next
  case (Some b)
  obtain r1 pins h1 where f: "with_files (lp_lib pl) (s\<lparr>ao_action := (\<lambda>_. True)\<rparr>) b []
      (log_paths (lp_path pl) (rl_backups w)) h = (r1, pins, h1)" by (rule prod_cases3)
  show ?thesis
  proof (cases r1)
    case None
    from rotate_files_at_plain [of pl s env w fs h1 o1 True] obtain out where
      "fst (rotate_files_at pl s env w fs h1) = rotateFiles (decided env (o1, True, out)) w fs" by blast
    with Some None f show ?thesis
      by (intro exI [of _ True] exI [of _ out]) (simp add: rotate_at_def rotateLog_def, simp add: decided_def)
  next
    case (Some e)
    with \<open>lp_boundary pl = Some b\<close> f show ?thesis
      by (intro exI [of _ False] exI [of _ "le_open2 env"]) (simp add: rotate_at_def rotateLog_def, simp add: decided_def)
  qed
qed

lemma write_at_plain:
  assumes "write_at pl s env w fs h p = ((r, n, w', fs'), h')"
  shows "\<exists>d. Write (decided env d) w fs p = (r, n, w', fs')"
  using assms
proof (rule write_at_cases)
  fix ok1 w1 fs1 h1 ok2 w2 fs2
  assume 1: "(if rl_file w = NoFile then open_at pl s (le_open1 env) w fs h else ((True, w, fs), h)) = ((ok1, w1, fs1), h1)"
    and 2: "(if ok1 \<and> rl_size w1 + length p > rl_limit w1 then rotate_at pl s env w1 fs1 h1 else ((ok1, w1, fs1), h1)) = ((ok2, w2, fs2), h')"
    and 3: "(r, n, w', fs') = (if ok2 then append_log env w2 fs2 p else (False, 0, w2, fs2))"
  from open_at_plain obtain out where "fst (open_at pl s (le_open1 env) w fs h) = log_open out w fs" by blast
  with 1 have o: "(if rl_file w = NoFile then log_open out w fs else (True, w, fs)) = (ok1, w1, fs1)"
    by (auto split: if_splits)
  from rotate_at_plain obtain b out2 where
    "fst (rotate_at pl s env w1 fs1 h1) = rotateLog (decided env (out, b, out2)) w1 fs1" by blast
  with 2 have t: "(if ok1 \<and> rl_size w1 + length p > rl_limit w1 then rotateLog (decided env (out, b, out2)) w1 fs1 else (ok1, w1, fs1))
      = (ok2, w2, fs2)"
    by (auto split: if_splits)
  have "le_open1 (decided env (out, b, out2)) = out" by (simp add: decided_def)
  with o t 3 have "Write (decided env (out, b, out2)) w fs p = (r, n, w', fs')"
    unfolding Write_def by (auto split: if_splits)
  then show ?thesis by blast
qed

section \<open>Histories\<close>

text \<open>Any sequence of writes and closings; the system may answer each of them differently.\<close>

datatype place_event = WriteAt access_os log_env string | CloseAt bool

fun place_step :: "log_place \<Rightarrow> (rotatingLog \<times> log_files) \<times> history \<Rightarrow> place_event \<Rightarrow> (rotatingLog \<times> log_files) \<times> history" where
  "place_step pl ((w, fs), h) (WriteAt s env p) = (case write_at pl s env w fs h p of ((_, _, w', fs'), h') \<Rightarrow> ((w', fs'), h'))"
| "place_step pl ((w, fs), h) (CloseAt ok) = (case close_at pl ok w h of ((_, w'), h') \<Rightarrow> ((w', fs), h'))"

text \<open>The plain call behind an event, once the boundary has decided.\<close>

fun plain_event :: "place_event \<Rightarrow> open_outcome \<times> bool \<times> open_outcome \<Rightarrow> log_event" where
  "plain_event (WriteAt s env p) d = WriteEvent (decided env d) p"
| "plain_event (CloseAt ok) d = CloseEvent ok"

lemma place_step_plain: "\<exists>d. log_step (fst x) (plain_event e d) = fst (place_step pl x e)"
proof -
  obtain w fs h where x: "x = ((w, fs), h)" by (metis prod.exhaust)
  show ?thesis
  proof (cases e)
    case (WriteAt s env p)
    obtain r n w' fs' h' where wr: "write_at pl s env w fs h p = ((r, n, w', fs'), h')" by (metis prod.exhaust)
    from write_at_plain [OF wr] obtain d where "Write (decided env d) w fs p = (r, n, w', fs')" by blast
    then have "log_step (fst x) (plain_event e d) = fst (place_step pl x e)" by (simp add: x WriteAt wr)
    then show ?thesis ..
  qed (simp add: x close_at_def split: prod.splits)
qed

lemma place_run_plain:
  "\<exists>ds. length ds = length es \<and> foldl log_step (fst x) (map2 plain_event es ds) = fst (foldl (place_step pl) x es)"
proof (induction es arbitrary: x)
  case (Cons e es)
  obtain d where d: "log_step (fst x) (plain_event e d) = fst (place_step pl x e)" using place_step_plain by blast
  obtain ds where "length ds = length es"
    "foldl log_step (fst (place_step pl x e)) (map2 plain_event es ds) = fst (foldl (place_step pl) (place_step pl x e) es)"
    using Cons.IH by blast
  with d show ?case by (intro exI [of _ "d # ds"]) simp
qed simp

lemma place_step_held:
  assumes "lp_boundary pl = Some b" and "log_held pl m (fst (fst x)) (snd x)"
  shows "log_held pl m (fst (fst (place_step pl x e))) (snd (place_step pl x e)) \<and> extends harmless (snd x) (snd (place_step pl x e))"
proof -
  obtain w fs h where x: "x = ((w, fs), h)" by (metis prod.exhaust)
  have i: "log_held pl m w h" using assms(2) by (simp add: x)
  show ?thesis
  proof (cases e)
    case (WriteAt s env p)
    obtain r n w' fs' h' where "write_at pl s env w fs h p = ((r, n, w', fs'), h')" by (metis prod.exhaust)
    with write_at_held [OF this assms(1) i] show ?thesis by (simp add: x WriteAt)
  next
    case (CloseAt ok)
    have "rl_file (snd (CloseLog ok w)) \<noteq> RotatingLog.OpenFile" by (simp add: CloseLog_def split: handle.splits)
    with close_file_held [OF i] assms(1) show ?thesis
      by (auto simp: x CloseAt close_at_def log_held_def split: prod.splits)
  qed
qed

section \<open>Setting up the log of the program\<close>

definition log_limit :: nat where "log_limit = 5 * 2 ^ 20"
definition log_backups :: nat where "log_backups = 5"

text \<open>
  A line of the standard logger: on the console it goes to the standard error first, and a writer that
  fails there keeps it from the file.
\<close>

definition log_line ::
    "log_place \<Rightarrow> bool \<Rightarrow> bool \<Rightarrow> access_os \<Rightarrow> log_env \<Rightarrow> string \<Rightarrow> (rotatingLog \<times> log_files) \<times> history
      \<Rightarrow> (rotatingLog \<times> log_files) \<times> history" where
  "log_line pl console stderr_ok s env line x =
     (if console \<and> \<not> stderr_ok then x else place_step pl x (WriteAt s env line))"

datatype logging_error = DirectoryFailed | LogNotOpened

text \<open>
  \<^verbatim>\<open>initLoggingAt\<close>: the directory, the log, the first line.  The header that the standard logger puts before a
  line is an argument.
\<close>

definition initLoggingAt ::
    "log_place \<Rightarrow> access_os \<Rightarrow> bool \<Rightarrow> open_outcome \<Rightarrow> bool \<Rightarrow> bool \<Rightarrow> log_env \<Rightarrow> string \<Rightarrow> log_files \<Rightarrow> history
      \<Rightarrow> (logging_error + rotatingLog) \<times> log_files \<times> history" where
  "initLoggingAt pl s mkdir_ok out console stderr_ok env header fs h =
     (case (case lp_boundary pl of
              None \<Rightarrow> (mkdir_ok, h)
            | Some b \<Rightarrow> (case EnsureDirectory (lp_lib pl) s b (pl_dir (lp_lib pl) (lp_path pl)) h of (r, h1) \<Rightarrow> (r = None, h1))) of
        (made, h1) \<Rightarrow>
          if \<not> made then (Inl DirectoryFailed, fs, h1)
          else case newRotatingLogWithBoundary pl s out log_limit log_backups fs h1 of
            ((ok, w, fs1), h2) \<Rightarrow>
              if \<not> ok then (Inl LogNotOpened, fs1, h2)
              else case log_line pl console stderr_ok s env (header @ ''agent starting'' @ [CHR 0x0A]) ((w, fs1), h2) of
                ((w1, fs2), h3) \<Rightarrow> (Inr w1, fs2, h3))"

definition InitLoggingAt where
  "InitLoggingAt L path = initLoggingAt \<lparr>lp_lib = L, lp_boundary = None, lp_path = path\<rparr>"

definition InitProtectedLoggingAt where
  "InitProtectedLoggingAt L b path s mkdir_ok out =
     initLoggingAt \<lparr>lp_lib = L, lp_boundary = Some b, lp_path = path\<rparr> s mkdir_ok out False"

definition InitLogging where
  "InitLogging L log_path s mkdir_ok out =
     InitLoggingAt L (if log_path = '''' then pl_join L [''logs'', ''agent.log''] else log_path) s mkdir_ok out True"

text \<open>The function that closes the log: the last line, then the file.\<close>

definition stop_logging ::
    "log_place \<Rightarrow> bool \<Rightarrow> bool \<Rightarrow> access_os \<Rightarrow> log_env \<Rightarrow> string \<Rightarrow> bool \<Rightarrow> (rotatingLog \<times> log_files) \<times> history
      \<Rightarrow> (rotatingLog \<times> log_files) \<times> history" where
  "stop_logging pl console stderr_ok s env header ok x =
     place_step pl (log_line pl console stderr_ok s env (header @ ''agent stopping'' @ [CHR 0x0A]) x) (CloseAt ok)"

section \<open>From start to stop\<close>

lemma newRotatingLogWithBoundary_plain:
  "\<exists>out'. fst (newRotatingLogWithBoundary pl s out limit backups fs h) = newRotatingLog out' limit backups fs"
  by (simp add: newRotatingLogWithBoundary_def newRotatingLog_def open_at_plain)

lemma newRotatingLog_held:
  assumes "newRotatingLogWithBoundary pl s out limit backups fs h = ((r, w, fs'), h')" and "lp_boundary pl = Some b"
  shows "log_held pl (handles h) w h' \<and> extends harmless h h'"
  using open_at_held [OF assms(1) [unfolded newRotatingLogWithBoundary_def] assms(2)]
  by (simp add: log_held_def)

lemma place_run_held:
  "lp_boundary pl = Some b \<Longrightarrow> log_held pl m (fst (fst x)) (snd x) \<Longrightarrow>
     log_held pl m (fst (fst (foldl (place_step pl) x es))) (snd (foldl (place_step pl) x es))
     \<and> extends harmless (snd x) (snd (foldl (place_step pl) x es))"
proof (induction es arbitrary: x)
  case (Cons e es)
  note s = place_step_held [OF Cons.prems, of e]
  with Cons.IH [OF Cons.prems(1), of "place_step pl x e"] extends_trans show ?case by fastforce
qed simp

lemma log_line_run: "\<exists>es. log_line pl console stderr_ok s env line x = foldl (place_step pl) x es"
  by (metis foldl_Cons foldl_Nil log_line_def)

text \<open>A log that was set up is a new log after some steps.\<close>

lemma initLoggingAt_Inr:
  assumes "initLoggingAt pl s mkdir_ok out console stderr_ok env header fs h = (Inr w, fs', h')"
  obtains h1 w0 fs0 h2 es where
    "newRotatingLogWithBoundary pl s out log_limit log_backups fs h1 = ((True, w0, fs0), h2)"
    "((w, fs'), h') = foldl (place_step pl) ((w0, fs0), h2) es"
    "lp_boundary pl \<noteq> None \<longrightarrow> handles h1 = handles h \<and> extends harmless h h1"
proof -
  obtain made h1 where m: "(case lp_boundary pl of
              None \<Rightarrow> (mkdir_ok, h)
            | Some b \<Rightarrow> (case EnsureDirectory (lp_lib pl) s b (pl_dir (lp_lib pl) (lp_path pl)) h of (r, h1) \<Rightarrow> (r = None, h1)))
      = (made, h1)" by fastforce
  obtain ok w0 fs0 h2 where n: "newRotatingLogWithBoundary pl s out log_limit log_backups fs h1 = ((ok, w0, fs0), h2)"
    by (metis prod.exhaust)
  obtain es where l: "log_line pl console stderr_ok s env (header @ ''agent starting'' @ [CHR 0x0A]) ((w0, fs0), h2)
      = foldl (place_step pl) ((w0, fs0), h2) es" using log_line_run by blast
  have i: "made" "ok" "((w, fs'), h') = foldl (place_step pl) ((w0, fs0), h2) es"
    using assms unfolding initLoggingAt_def m prod.case n l by (auto split: if_splits prod.splits)
  have "handles h1 = handles h \<and> extends harmless h h1" if "lp_boundary pl \<noteq> None"
  proof -
    obtain b where b: "lp_boundary pl = Some b" using \<open>lp_boundary pl \<noteq> None\<close> by blast
    obtain r1 h3 where e: "EnsureDirectory (lp_lib pl) s b (pl_dir (lp_lib pl) (lp_path pl)) h = (r1, h3)" by fastforce
    with m b have "h3 = h1" by simp
    with directories_checked(1) [where L = "lp_lib pl" and s = s and b = b and path = "pl_dir (lp_lib pl) (lp_path pl)" and h = h]
    show ?thesis unfolding e by simp
  qed
  then have "lp_boundary pl \<noteq> None \<longrightarrow> handles h1 = handles h \<and> extends harmless h h1" by blast
  with i n show thesis by (intro that) simp_all
qed

text \<open>The size of the log after any history, for both hosts.\<close>

lemma place_run_size:
  assumes "newRotatingLogWithBoundary pl s out limit backups fs0 h0 = ((r0, w0, fs1), h1)" and "0 < backups"
    and "foldl (place_step pl) ((w0, fs1), h1) es = ((w, fs), h)"
    and "write_at pl s1 env w fs h p = ((True, n, w', fs'), h')"
  shows "n = length p \<and> (\<exists>c. fs' 0 = Some c \<and> length c \<le> limit)" and "rl_file w' = RotatingLog.OpenFile"
proof -
  from newRotatingLogWithBoundary_plain [of pl s out limit backups fs0 h0] assms(1)
  obtain out' where new: "newRotatingLog out' limit backups fs0 = (r0, w0, fs1)" by auto
  from place_run_plain [of es "((w0, fs1), h1)" pl] assms(3) obtain ds where
    d: "foldl log_step (w0, fs1) (map2 plain_event es ds) = (w, fs)" by (metis fst_conv)
  have "log_init (w0, fs1)" unfolding log_init_def using new assms(2) by blast
  then have inv: "log_inv w fs" using lg.run_inv [of "(w0, fs1)"] d by (metis prod.case)
  have "rl_limit w0 = limit" using new log_open_cases(5) by (fastforce simp: newRotatingLog_def)
  then have lim: "rl_limit w = limit" using log_run_limit [of "(w0, fs1)"] d by (metis fst_conv)
  obtain dc where wr: "Write (decided env dc) w fs p = (True, n, w', fs')" using write_at_plain [OF assms(4)] by blast
  from Write_inv [OF wr inv] Write_file [OF wr] lim
  show "n = length p \<and> (\<exists>c. fs' 0 = Some c \<and> length c \<le> limit)" "rl_file w' = RotatingLog.OpenFile" by simp_all
qed

lemma log_line_held:
  assumes "lp_boundary pl = Some b" and "log_held pl m (fst (fst x)) (snd x)"
  shows "log_held pl m (fst (fst (log_line pl console err s env line x))) (snd (log_line pl console err s env line x))"
  using assms(2) place_step_held [OF assms] by (simp add: log_line_def)

lemma stop_logging_handles:
  assumes "lp_boundary pl = Some b" and "log_held pl m (fst (fst x)) (snd x)"
  shows "handles (snd (stop_logging pl console err s env header closed x)) = m"
proof -
  obtain w fs h where l: "log_line pl console err s env (header @ ''agent stopping'' @ [CHR 0x0A]) x = ((w, fs), h)"
    by (metis prod.exhaust)
  with log_line_held [OF assms] have "log_held pl m w h" by (metis fst_conv snd_conv)
  from close_file_held(1) [OF this] assms(1) show ?thesis
    unfolding stop_logging_def l by (simp add: close_at_def split: prod.splits)
qed

text \<open>
  C33. The log of the program from start to stop, on the console and under the Service, whatever the system and the
  boundary answer: a write that reports success leaves a log of at most five MiB and reports all its
  bytes.  Under the Service it went through a handle that was found sound; at any time the log's own handle
  is the only one it holds, and stopping gives it back.
\<close>

theorem log_lifecycle:
  assumes "initLoggingAt pl s0 mkdir_ok out console stderr_ok env0 header fs0 h0 = (Inr w0, fs1, h1)"
    and "foldl (place_step pl) ((w0, fs1), h1) es = ((w, fs), h)"
    and "write_at pl s env w fs h p = ((ok, n, w', fs'), h')"
  shows "(ok \<longrightarrow> n = length p \<and> (\<exists>c. fs' 0 = Some c \<and> length c \<le> 5 * 2 ^ 20))
    \<and> (lp_boundary pl \<noteq> None \<longrightarrow>
         extends harmless h0 h'
         \<and> (ok \<longrightarrow> canonical_seen h' (lp_path pl) \<and> handles h' = add_mset (lp_path pl) (handles h0))
         \<and> handles h \<subseteq># add_mset (lp_path pl) (handles h0)
         \<and> handles (snd (stop_logging pl console err s2 env2 header2 closed ((w', fs'), h'))) = handles h0)"
proof -
  obtain hn wn fsn hm es0 where
    n: "newRotatingLogWithBoundary pl s0 out log_limit log_backups fs0 hn = ((True, wn, fsn), hm)"
    and l: "((w0, fs1), h1) = foldl (place_step pl) ((wn, fsn), hm) es0"
    and b: "lp_boundary pl \<noteq> None \<longrightarrow> handles hn = handles h0 \<and> extends harmless h0 hn"
    by (rule initLoggingAt_Inr [OF assms(1)])
  have run: "foldl (place_step pl) ((wn, fsn), hm) (es0 @ es) = ((w, fs), h)" using assms(2) l by simp
  have "0 < log_backups" by (simp add: log_backups_def)
  note size = place_run_size [OF n this run]
  have "extends harmless h0 h' \<and> (ok \<longrightarrow> canonical_seen h' (lp_path pl) \<and> handles h' = add_mset (lp_path pl) (handles h0))
      \<and> handles h \<subseteq># add_mset (lp_path pl) (handles h0)
      \<and> handles (snd (stop_logging pl console err s2 env2 header2 closed ((w', fs'), h'))) = handles h0"
    if bd: "lp_boundary pl = Some bd" for bd
  proof -
    have "log_held pl (handles h0) wn hm \<and> extends harmless h0 hm"
      using newRotatingLog_held [OF n bd] b bd extends_trans by fastforce
    then have held: "log_held pl (handles h0) w h \<and> extends harmless h0 h"
      using place_run_held [OF bd, of "handles h0" "((wn, fsn), hm)" "es0 @ es"] extends_trans unfolding run by auto
    then have held': "log_held pl (handles h0) w' h' \<and> extends harmless h0 h'"
      using write_at_held [OF assms(3) bd] extends_trans by blast
    then have "handles (snd (stop_logging pl console err s2 env2 header2 closed ((w', fs'), h'))) = handles h0"
      by (intro stop_logging_handles [OF bd]) simp
    with held held' size(2) assms(3) show ?thesis by (auto simp: log_held_def)
  qed
  note service = this
  have "n = length p \<and> (\<exists>c. fs' 0 = Some c \<and> length c \<le> 5 * 2 ^ 20)" if ok
    using size(1) assms(3) that unfolding log_limit_def by simp
  with service show ?thesis by blast
qed

section \<open>The generations of the log\<close>

lemma rotate_at_checked:
  assumes "rotate_at pl s env w fs h = ((r, w', fs'), h')" and "lp_boundary pl = Some b" and "log_held pl m w h"
  shows "fs' = fs \<or> (\<exists>h1 h2 pins. h' = h1 @ Acted # h2 \<and> extends harmless h h1 \<and> mset pins \<subseteq># handles h1
    \<and> list_all (checked_file (lp_lib pl) s b pins h1) (log_paths (lp_path pl) (rl_backups w)))"
proof -
  obtain r1 pins ha where f: "with_files (lp_lib pl) (s\<lparr>ao_action := (\<lambda>_. True)\<rparr>) b []
      (log_paths (lp_path pl) (rl_backups w)) h = (r1, pins, ha)" by (rule prod_cases3)
  note f_ok = with_log_files [OF f]
  show ?thesis
  proof (cases r1)
    case None
    with assms(1,2) f obtain hb where r: "rotate_files_at pl s env w fs ha = ((r, w', fs'), hb)" "h' = closePins pins hb"
      by (cases "rotate_files_at pl s env w fs ha") (auto simp: rotate_at_def)
    obtain h1 where h1: "ha = h1 @ [Acted]" "extends harmless h h1" "mset pins \<subseteq># handles h1"
      "list_all (checked_file (lp_lib pl) s b pins h1) (log_paths (lp_path pl) (rl_backups w))"
      using f_ok(2) None by blast
    have "log_held pl (m + mset pins) w ha"
      using assms(3) f_ok(1) canonical_seen_extends by (auto simp: log_held_def)
    from rotate_files_at_held [OF r(1) assms(2) this] obtain es where "hb = ha @ es" by (auto simp: extends_def)
    with r(2) h1 show ?thesis by (auto simp: closePins_def)
  next
    case (Some e)
    with assms(1,2) f show ?thesis by (simp add: rotate_at_def)
  qed
qed

text \<open>
  C20. Under the Service a write changes a backup of the log only by a rotation that was let through: every
  directory above the log and its backups was pinned and found sound, each of these files was found sound
  through a pinned handle or missing, and all of this was still held when the files moved.
\<close>

theorem generations_change_only_checked:
  assumes "write_at pl s env w fs h p = ((r, n, w', fs'), h')" and "lp_boundary pl = Some b" and "log_held pl m w h"
    and "0 < i" and "fs' i \<noteq> fs i"
  shows "\<exists>h1 h2 pins. h' = h1 @ Acted # h2 \<and> extends harmless h h1 \<and> mset pins \<subseteq># handles h1
    \<and> list_all (checked_file (lp_lib pl) s b pins h1) (log_paths (lp_path pl) (rl_backups w))"
  using assms(1)
proof (rule write_at_cases)
  fix ok1 w1 fs1 h1 ok2 w2 fs2
  assume 1: "(if rl_file w = NoFile then open_at pl s (le_open1 env) w fs h else ((True, w, fs), h)) = ((ok1, w1, fs1), h1)"
    and 2: "(if ok1 \<and> rl_size w1 + length p > rl_limit w1 then rotate_at pl s env w1 fs1 h1 else ((ok1, w1, fs1), h1)) = ((ok2, w2, fs2), h')"
    and 3: "(r, n, w', fs') = (if ok2 then append_log env w2 fs2 p else (False, 0, w2, fs2))"
  obtain out where "fst (open_at pl s (le_open1 env) w fs h) = log_open out w fs" using open_at_plain by blast
  with 1 assms(4) have i1: "fs1 i = fs i" "rl_backups w1 = rl_backups w"
    by (auto simp: log_open_def Let_def split: if_splits open_outcome.splits)
  have held: "log_held pl m w1 h1 \<and> extends harmless h h1"
    using 1 assms(2,3) open_at_held by (cases "rl_file w = NoFile") auto
  have "fs' i = fs2 i" using 3 assms(4) by (auto simp: append_log_def Let_def split: if_splits option.splits)
  with assms(5) i1 2 have rot: "rotate_at pl s env w1 fs1 h1 = ((ok2, w2, fs2), h')" "fs2 \<noteq> fs1"
    by (auto split: if_splits)
  from rotate_at_checked [OF rot(1) assms(2)] held rot(2) i1(2) extends_trans show ?thesis by metis
qed

section \<open>Examples\<close>

definition sample_place :: log_place where
  "sample_place = \<lparr>lp_lib = unix_paths, lp_boundary = Some \<lparr>b_root = ''/r'', b_shared = False\<rparr>, lp_path = ''/r/a''\<rparr>"

definition sample_open_log :: rotatingLog where
  "sample_open_log = \<lparr>rl_limit = 4, rl_size = 3, rl_backups = 1, rl_file = RotatingLog.OpenFile\<rparr>"

definition sample_assessment :: assessment where
  "sample_assessment = assess unix_paths (os.truncate sound_os) (Pinned ''/r/a'' False False '''' None) []"

definition sample_history :: history where
  "sample_history = [OpenedObject ''/r/a'', Inspected ''/r/a'' sample_assessment]"

theorem generations_change_only_checked_witness:
  "\<exists>h1 h2 pins. snd (write_at sample_place sound_os fine_env sample_open_log [0 \<mapsto> ''new''] sample_history ''more'') = h1 @ Acted # h2
     \<and> list_all (checked_file unix_paths sound_os \<lparr>b_root = ''/r'', b_shared = False\<rparr> pins h1) [''/r/a'', ''/r/a.1'']"
proof -
  let ?b = "\<lparr>b_root = ''/r'', b_shared = False\<rparr>"
  let ?x = "write_at sample_place sound_os fine_env sample_open_log [0 \<mapsto> ''new''] sample_history ''more''"
  have c: "snd (snd (snd (fst ?x))) 1 = Some ''new''" by code_simp
  have x: "?x = ((fst (fst ?x), fst (snd (fst ?x)), fst (snd (snd (fst ?x))), snd (snd (snd (fst ?x)))), snd ?x)" by simp
  have b: "lp_boundary sample_place = Some ?b" by (simp add: sample_place_def)
  have "as_class sample_assessment = Canonical" by code_simp
  then have "canonical_seen sample_history ''/r/a''"
    unfolding seen_def sample_history_def by (metis append_Cons append_Nil)
  then have h: "log_held sample_place {#} sample_open_log sample_history"
    by (simp add: log_held_def sample_place_def sample_open_log_def handles_def sample_history_def)
  have p: "log_paths ''/r/a'' 1 = [''/r/a'', ''/r/a.1'']" by code_simp
  have f: "lp_lib sample_place = unix_paths" "lp_path sample_place = ''/r/a''" "rl_backups sample_open_log = 1"
    by (simp_all add: sample_place_def sample_open_log_def)
  have i: "0 < (1::nat)" "snd (snd (snd (fst ?x))) 1 \<noteq> ([0 \<mapsto> ''new''] :: log_files) 1" unfolding c by auto
  from generations_change_only_checked [OF x b h i, unfolded f p] show ?thesis by blast
qed

theorem log_lifecycle_witness:
  "\<exists>w fs h. initLoggingAt sample_place sound_os False RotatingLog.Opened False False fine_env ''t '' (\<lambda>_. None) [] = (Inr w, fs, h)
     \<and> handles (snd (write_at sample_place sound_os fine_env w fs h ''more'')) = {#''/r/a''#}
     \<and> handles (snd (stop_logging sample_place False False sound_os fine_env ''t '' True
          ((snd (snd (fst (write_at sample_place sound_os fine_env w fs h ''more'')))),
           snd (write_at sample_place sound_os fine_env w fs h ''more'')))) = {#}"
proof -
  let ?b = "\<lparr>b_root = ''/r'', b_shared = False\<rparr>"
  define h1 where "h1 = snd (EnsureDirectory unix_paths sound_os ?b ''/r'' [])"
  have "fst (EnsureDirectory unix_paths sound_os ?b ''/r'' []) = None" by code_simp
  then have e: "EnsureDirectory unix_paths sound_os ?b ''/r'' [] = (None, h1)" by (simp add: h1_def prod_eq_iff)
  have d: "pl_dir unix_paths ''/r/a'' = ''/r''" by code_simp
  have o: "boundary_outcome RotatingLog.Opened ''/r/a'' h1 (AccessBoundary.OpenFile unix_paths sound_os ?b ''/r/a'' log_flags h1)
      = RotatingLog.Opened" unfolding h1_def by code_simp
  have f: "lp_lib sample_place = unix_paths" "lp_path sample_place = ''/r/a''" "lp_boundary sample_place = Some ?b"
    by (simp_all add: sample_place_def)
  let ?w = "\<lparr>rl_limit = log_limit, rl_size = 0, rl_backups = log_backups, rl_file = RotatingLog.OpenFile\<rparr>"
  define h2 where "h2 = snd (AccessBoundary.OpenFile unix_paths sound_os ?b ''/r/a'' log_flags h1)"
  have n: "newRotatingLogWithBoundary sample_place sound_os RotatingLog.Opened log_limit log_backups (\<lambda>_. None) h1
      = ((True, ?w, [0 \<mapsto> []]), h2)"
    by (simp add: newRotatingLogWithBoundary_def open_at_def f Let_def o log_open_def h2_def)
  let ?w1 = "?w\<lparr>rl_size := 17\<rparr>"
  have i: "initLoggingAt sample_place sound_os False RotatingLog.Opened False False fine_env ''t '' (\<lambda>_. None) []
      = (Inr ?w1, [0 \<mapsto> ''t agent starting'' @ [CHR 0x0A]], h2)"
    unfolding initLoggingAt_def f d e option.case prod.case n
    by (simp add: log_line_def write_at_def append_log_def fine_env_def log_limit_def)
  let ?x = "write_at sample_place sound_os fine_env ?w1 [0 \<mapsto> ''t agent starting'' @ [CHR 0x0A]] h2 ''more''"
  obtain w' fs' where x: "?x = ((True, 4, w', fs'), h2)"
    by (simp add: write_at_def append_log_def fine_env_def log_limit_def)
  have r: "foldl (place_step sample_place) ((?w1, [0 \<mapsto> ''t agent starting'' @ [CHR 0x0A]]), h2) []
      = ((?w1, [0 \<mapsto> ''t agent starting'' @ [CHR 0x0A]]), h2)" by simp
  have "handles ([]::history) = {#}" by (simp add: handles_def)
  with log_lifecycle [OF i r x] f i x show ?thesis by auto
qed

end
