(* ===== verification/AppConfig.thy ===== *)
theory AppConfig
  imports Prelude
begin

text \<open>
  The configuration of the agent, \<^verbatim>\<open>config/config.go\<close>: the \<^verbatim>\<open>.env\<close> file and the environment.  The
  environment is a map from names to values; \<^verbatim>\<open>os.Getenv\<close> of a missing name is the empty string.
  Times are in nanoseconds.
\<close>

type_synonym environment = "string \<rightharpoonup> string"

record config =
  cf_transport_mode :: string
  cf_websocket_url :: string
  cf_api_base_url :: string
  cf_heartbeat :: int
  cf_performance :: int
  cf_ping_timeout :: int
  cf_download_directory :: string
  cf_download_roots :: "string list"
  cf_max_concurrent :: int
  cf_queue_size :: int
  cf_max_size :: int
  cf_allow_http :: bool

definition defaultWebSocketURL :: string where "defaultWebSocketURL = ''ws://localhost:8081/ws''"
definition defaultAPIBaseURL :: string where "defaultAPIBaseURL = ''http://localhost:8080''"

definition Getenv :: "environment \<Rightarrow> string \<Rightarrow> string" where
  "Getenv env k = (case env k of None \<Rightarrow> [] | Some v \<Rightarrow> v)"

section \<open>Values\<close>

definition parseDownloadRoots :: "string \<Rightarrow> string list" where
  "parseDownloadRoots value =
     (if trim_space value = [] then [] else map trim_space (split_on CHR '';'' value))"

text \<open>\<^verbatim>\<open>strconv.ParseBool\<close>, \<open>None\<close> being its error.\<close>

definition ParseBool :: "string \<Rightarrow> bool option" where
  "ParseBool s =
     (if s \<in> {''1'', ''t'', ''T'', ''TRUE'', ''true'', ''True''} then Some True
      else if s \<in> {''0'', ''f'', ''F'', ''FALSE'', ''false'', ''False''} then Some False else None)"

definition parseBool :: "string \<Rightarrow> bool" where
  "parseBool value = (ParseBool (trim_space value) = Some True)"

text \<open>A positive number, or the default.\<close>

definition positive_or :: "int \<Rightarrow> string \<Rightarrow> int" where
  "positive_or dflt value =
     (case parse_int 64 value of Some v \<Rightarrow> if v > 0 then v else dflt | None \<Rightarrow> dflt)"

definition or_default :: "string \<Rightarrow> string \<Rightarrow> string" where
  "or_default value dflt = (if value = [] then dflt else value)"

text \<open>\<open>data_downloads\<close> is \<^verbatim>\<open>filepath.Join("data", "downloads")\<close>, with the separator of the platform.\<close>

definition fromEnvironment :: "string \<Rightarrow> environment \<Rightarrow> config" where
  "fromEnvironment data_downloads env =
     \<lparr>cf_transport_mode = Getenv env ''TRANSPORT_MODE'',
      cf_websocket_url = or_default (Getenv env ''WS_SERVER_URL'') defaultWebSocketURL,
      cf_api_base_url = or_default (Getenv env ''AGENT_API_URL'') defaultAPIBaseURL,
      cf_heartbeat = 20 * 10 ^ 9, cf_performance = 5 * 10 ^ 9, cf_ping_timeout = 5 * 10 ^ 9,
      cf_download_directory = or_default (Getenv env ''DOWNLOAD_DIRECTORY'') data_downloads,
      cf_download_roots = parseDownloadRoots (Getenv env ''DOWNLOAD_ALLOWED_ROOTS''),
      cf_max_concurrent = positive_or 2 (Getenv env ''MAX_CONCURRENT_DOWNLOADS''),
      cf_queue_size = positive_or 16 (Getenv env ''DOWNLOAD_QUEUE_SIZE''),
      cf_max_size = positive_or (10 * 2 ^ 30) (Getenv env ''MAX_DOWNLOAD_SIZE_BYTES''),
      cf_allow_http = parseBool (Getenv env ''ALLOW_LOCAL_HTTP_DOWNLOADS'')\<rparr>"

section \<open>The file\<close>

text \<open>
  \<^verbatim>\<open>bufio.Scanner\<close> over lines: the lines up to the first one that does not fit into its buffer of 64 KiB,
  and whether there was such a line.  A last line without an end counts unless it is empty; one
  carriage return before the end of a line is dropped.
\<close>

definition drop_cr :: "string \<Rightarrow> string" where
  "drop_cr l = (if l \<noteq> [] \<and> last l = CHR 0x0D then butlast l else l)"

fun raw_lines :: "string \<Rightarrow> string list" where
  "raw_lines [] = []"
| "raw_lines (c # cs) =
     (if c = CHR 0x0A then [] # raw_lines cs
      else case raw_lines cs of
             [] \<Rightarrow> [[c]]
           | l # ls \<Rightarrow> (c # l) # ls)"

definition max_token :: nat where "max_token = 64 * 1024"

definition scan_lines :: "string \<Rightarrow> string list \<times> bool" where
  "scan_lines data =
     (let ls = raw_lines data
      in (map drop_cr (takeWhile (\<lambda>l. length l < max_token) ls), list_ex (\<lambda>l. \<not> length l < max_token) ls))"

definition byte_order_mark :: string where "byte_order_mark = [CHR 0xEF, CHR 0xBB, CHR 0xBF]"

definition unquote :: "string \<Rightarrow> string" where
  "unquote v =
     (if length v \<ge> 2 \<and> ((hd v = CHR 0x27 \<and> last v = CHR 0x27) \<or> (hd v = CHR 0x22 \<and> last v = CHR 0x22))
      then butlast (tl v) else v)"

text \<open>The assignment of a line, if it has one.\<close>

definition parse_line :: "string \<Rightarrow> (string \<times> string) option" where
  "parse_line text =
     (let line = trim_space (trim_prefix text byte_order_mark)
      in if line = [] \<or> has_prefix line ''#'' then None
         else
           let line1 = trim_space (trim_prefix line ''export '')
           in case cut_at CHR ''='' line1 of
                None \<Rightarrow> None
              | Some (k, v) \<Rightarrow>
                  let key = trim_space k in if key = [] then None else Some (key, unquote (trim_space v)))"

text \<open>\<^verbatim>\<open>os.Setenv\<close> refuses a NUL byte; its error is ignored.\<close>

definition Setenv :: "string \<Rightarrow> string \<Rightarrow> environment \<Rightarrow> environment" where
  "Setenv k v env = (if CHR 0x00 \<in> set k \<or> CHR 0x00 \<in> set v then env else env(k \<mapsto> v))"

definition load_line :: "environment \<Rightarrow> string \<Rightarrow> environment" where
  "load_line env text =
     (case parse_line text of
        None \<Rightarrow> env
      | Some (k, v) \<Rightarrow> if env k \<noteq> None then env else Setenv k v env)"

datatype file_read = FileMissing | FileUnreadable | FileData string

text \<open>\<^verbatim>\<open>loadDotEnv\<close>: the new environment and whether there was an error.\<close>

definition loadDotEnv :: "file_read \<Rightarrow> environment \<Rightarrow> environment \<times> bool" where
  "loadDotEnv file env =
     (case file of
        FileMissing \<Rightarrow> (env, False)
      | FileUnreadable \<Rightarrow> (env, True)
      | FileData data \<Rightarrow> (case scan_lines data of (ls, long) \<Rightarrow> (foldl load_line env ls, long)))"

definition LoadFile :: "string \<Rightarrow> file_read \<Rightarrow> environment \<Rightarrow> config option \<times> environment" where
  "LoadFile data_downloads file env =
     (case loadDotEnv file env of
        (env1, failed) \<Rightarrow> (if failed then None else Some (fromEnvironment data_downloads env1), env1))"

definition LoadDefault :: "string \<Rightarrow> file_read \<Rightarrow> environment \<Rightarrow> config \<times> environment" where
  "LoadDefault data_downloads file env =
     (case loadDotEnv file env of (env1, failed) \<Rightarrow> (fromEnvironment data_downloads env1, env1))"

section \<open>Facts\<close>

lemma positive_or_range: "0 < d \<Longrightarrow> d < 2 ^ 63 \<Longrightarrow> 0 < positive_or d v \<and> positive_or d v < 2 ^ 63"
  using parse_int_range [of 64 v] by (fastforce simp: positive_or_def split: option.splits)

definition config_ok :: "config \<Rightarrow> bool" where
  "config_ok c \<longleftrightarrow>
     0 < cf_max_concurrent c \<and> cf_max_concurrent c < 2 ^ 63 \<and> 0 < cf_queue_size c \<and> cf_queue_size c < 2 ^ 63
     \<and> 0 < cf_max_size c \<and> cf_max_size c < 2 ^ 63
     \<and> 0 < cf_heartbeat c \<and> 0 < cf_performance c \<and> 0 < cf_ping_timeout c \<and> cf_ping_timeout c < cf_heartbeat c
     \<and> cf_websocket_url c \<noteq> [] \<and> cf_api_base_url c \<noteq> []"


lemma load_line_keeps: "env k = Some v \<Longrightarrow> load_line env l k = Some v"
  by (auto simp: load_line_def Setenv_def split: option.splits)

lemma load_lines_keep: "env k = Some v \<Longrightarrow> foldl load_line env ls k = Some v"
  by (induction ls arbitrary: env) (simp_all add: load_line_keeps)

text \<open>The value a list of lines gives to a name: that of the first line that assigns it.\<close>

definition assigned :: "string list \<Rightarrow> string \<Rightarrow> string option" where
  "assigned ls k =
     map_of (filter (\<lambda>(k, v). CHR 0x00 \<notin> set k \<and> CHR 0x00 \<notin> set v) (List.map_filter parse_line ls)) k"

lemma load_lines_assigned:
  "foldl load_line env ls k = (case env k of Some v \<Rightarrow> Some v | None \<Rightarrow> assigned ls k)"
proof (induction ls arbitrary: env)
  case Nil
  then show ?case by (simp add: assigned_def split: option.split)
next
  case (Cons l ls)
  have "assigned (l # ls) k = (case parse_line l of
      Some (k', v) \<Rightarrow> if k' = k \<and> CHR 0x00 \<notin> set k' \<and> CHR 0x00 \<notin> set v then Some v else assigned ls k
    | None \<Rightarrow> assigned ls k)"
    by (auto simp: assigned_def split: option.split)
  then show ?case
    unfolding foldl.simps Cons.IH by (auto simp: load_line_def Setenv_def split: option.splits)
qed

text \<open>
  The file never overrides: a variable that is set keeps its value, and one that is not set gets that of the
  first line that assigns it, so that the effective configuration is the environment over the file
  over the defaults.
\<close>

theorem environment_over_file:
  "(case loadDotEnv (FileData data) env of (env1, failed) \<Rightarrow>
      env1 k = (case env k of Some v \<Rightarrow> Some v | None \<Rightarrow> assigned (fst (scan_lines data)) k))"
  by (cases "scan_lines data") (simp add: loadDotEnv_def load_lines_assigned split: option.split)

section \<open>Quoted values\<close>

lemma strip_leading_id: "(\<And>p. p \<in> set ps \<Longrightarrow> p = [] \<or> \<not> has_prefix s p) \<Longrightarrow> strip_leading ps s = s"
proof -
  assume "\<And>p. p \<in> set ps \<Longrightarrow> p = [] \<or> \<not> has_prefix s p"
  then have "find (\<lambda>p. p \<noteq> [] \<and> has_prefix s p) ps = None" unfolding find_None_iff by blast
  then show ?thesis by (simp add: strip_leading.simps)
qed

lemma has_prefix_hd: "has_prefix s p \<Longrightarrow> p \<noteq> [] \<Longrightarrow> s \<noteq> [] \<and> hd s = hd p"
  by (auto simp: has_prefix_iff)

lemma trim_space_id:
  assumes "s \<noteq> []" and "hd s \<notin> hd ` set space_runes" and "last s \<notin> last ` set space_runes"
  shows "trim_space s = s"
proof -
  have a: "strip_leading space_runes s = s"
    using assms(2) by (intro strip_leading_id) (auto dest: has_prefix_hd)
  have "strip_leading (map rev space_runes) (rev s) = rev s"
  proof (rule strip_leading_id)
    fix p assume "p \<in> set (map rev space_runes)"
    then obtain q where q: "q \<in> set space_runes" "p = rev q" by auto
    show "p = [] \<or> \<not> has_prefix (rev s) p"
      using assms(3) q has_prefix_hd [of "rev s" p] by (cases "q = []") (auto simp: hd_rev)
  qed
  with a show ?thesis by (simp add: trim_space_def)
qed

lemma cut_at_first: "a \<notin> set k \<Longrightarrow> cut_at a (k @ a # v) = Some (k, v)"
  by (induction k) auto

text \<open>The names in use: letters, digits and underscores.\<close>

definition name_char :: "char \<Rightarrow> bool" where
  "name_char c \<longleftrightarrow> (let n = of_char c :: nat in (48 \<le> n \<and> n \<le> 57) \<or> (65 \<le> n \<and> n \<le> 90) \<or> (97 \<le> n \<and> n \<le> 122) \<or> n = 95)"

definition name_ok :: "string \<Rightarrow> bool" where
  "name_ok k \<longleftrightarrow> k \<noteq> [] \<and> list_all name_char k"

lemma name_char_plain:
  assumes "name_char c"
  shows "c \<notin> hd ` set space_runes" "c \<notin> last ` set space_runes" "c \<noteq> CHR ''=''" "c \<noteq> CHR '' ''" "c \<noteq> CHR ''#''" "c \<noteq> CHR 0xEF"
  using assms by (auto simp: space_runes_def name_char_def)

lemma quote_plain: "CHR 0x22 \<notin> hd ` set space_runes" "CHR 0x22 \<notin> last ` set space_runes"
  by (simp_all add: space_runes_def)

lemma no_export:
  assumes "name_ok k"
  shows "\<not> has_prefix (k @ CHR ''='' # v) ''export ''"
proof
  assume "has_prefix (k @ CHR ''='' # v) ''export ''"
  then obtain r where r: "k @ CHR ''='' # v = ''export '' @ r" by (auto simp: has_prefix_iff)
  have "CHR '' '' \<notin> set k" using assms name_char_plain(4) by (auto simp: name_ok_def list_all_iff)
  then have nk: "k \<noteq> ''export '' @ us" "k \<noteq> ''export ''" for us by auto
  obtain us where "k = ''export '' @ us \<or> (k @ us = ''export '' \<and> CHR ''='' # v = us @ r)"
    using r unfolding append_eq_append_conv2 by blast
  with nk have e: "k @ us = ''export ''" "CHR ''='' # v = us @ r" by auto
  with nk have "us \<noteq> []" by (cases us) auto
  with e have "CHR ''='' \<in> set (''export '' :: string)" by (metis append_Cons in_set_conv_decomp list.exhaust list.inject)
  then show False by simp
qed

text \<open>
  A value written between double quotes is read back as it is, with every space, quote or equals
  sign it contains.
\<close>

theorem quoted_line_roundtrip:
  assumes "name_ok k"
  shows "parse_line (k @ CHR ''='' # CHR 0x22 # v @ [CHR 0x22]) = Some (k, v)"
proof -
  let ?q = "CHR 0x22 # v @ [CHR 0x22]" and ?l = "k @ CHR ''='' # CHR 0x22 # v @ [CHR 0x22]"
  have k: "k \<noteq> []" "name_char (hd k)" "name_char (last k)" "CHR ''='' \<notin> set k"
    using assms name_char_plain(3) by (auto simp: name_ok_def list_all_iff)
  have tl: "trim_space ?l = ?l"
    by (rule trim_space_id) (use k name_char_plain [OF k(2)] quote_plain in \<open>simp_all add: hd_append\<close>)
  have tk: "trim_space k = k"
    by (rule trim_space_id) (use k name_char_plain [OF k(2)] name_char_plain [OF k(3)] in simp_all)
  have tq: "trim_space ?q = ?q" by (rule trim_space_id) (use quote_plain in simp_all)
  have "\<not> has_prefix ?l byte_order_mark"
    using name_char_plain(6) [OF k(2)] k(1) by (auto simp: byte_order_mark_def hd_append dest!: has_prefix_hd)
  moreover have "\<not> has_prefix ?l ''#''"
    using name_char_plain(5) [OF k(2)] k(1) by (auto simp: hd_append dest!: has_prefix_hd)
  ultimately show ?thesis
    using no_export [OF assms, of ?q] k(1,4)
    by (simp add: parse_line_def Let_def trim_prefix_def tl tk tq cut_at_first unquote_def)
qed

theorem quoted_line_roundtrip_witness:
  "parse_line (''A'' @ CHR ''='' # CHR 0x22 # '' b=c '' @ [CHR 0x22]) = Some (''A'', '' b=c '')"
  by (rule quoted_line_roundtrip) (simp add: name_ok_def name_char_def)

end
