(* ===== verification/ServiceHost.thy ===== *)
theory ServiceHost
  imports AppPaths "HOL-Library.Word"
begin

text \<open>
  The Windows Service host, \<^verbatim>\<open>internal/servicehost\<close>: the loop that talks to the Service Control
  Manager, and the administrative operations on the registration of the Service.
\<close>

section \<open>The control loop\<close>

datatype svc_state = StartPending | Running | StopPending

record svc_status =
  ss_state :: svc_state
  ss_wait_hint :: nat
  ss_checkpoint :: "32 word"
  ss_accepts_stop :: bool

definition pending_status :: "svc_state \<Rightarrow> nat \<Rightarrow> svc_status" where
  "pending_status st hint = \<lparr>ss_state = st, ss_wait_hint = hint, ss_checkpoint = 1, ss_accepts_stop = False\<rparr>"

definition running_status :: svc_status where
  "running_status = \<lparr>ss_state = Running, ss_wait_hint = 0, ss_checkpoint = 0, ss_accepts_stop = True\<rparr>"

text \<open>
  \<open>hs_ready\<close>, \<open>hs_requests\<close> and the timers say whether the channel of a \<^verbatim>\<open>select\<close> branch can still deliver;
  \<open>hs_sent\<close> is what went to the manager, oldest first; \<open>hs_exit\<close> the values returned.
\<close>

record host =
  hs_status :: svc_status
  hs_sent :: "svc_status list"
  hs_ready :: bool
  hs_requests :: bool
  hs_startup_timer :: bool
  hs_stop_timer :: bool
  hs_stopping :: bool
  hs_cancelled :: bool
  hs_exit :: "(bool \<times> nat) option"

datatype svc_cmd = Interrogate | StopCmd | ShutdownCmd | OtherCmd

datatype host_event = ReadyClosed | Request svc_cmd | RequestsClosed | StartupDeadline | Tick | RuntimeDone bool | StopDeadline

definition start_host :: host where
  "start_host =
     \<lparr>hs_status = pending_status StartPending 10000, hs_sent = [pending_status StartPending 10000], hs_ready = True,
      hs_requests = True, hs_startup_timer = True, hs_stop_timer = False, hs_stopping = False, hs_cancelled = False,
      hs_exit = None\<rparr>"

definition send_status :: "svc_status \<Rightarrow> host \<Rightarrow> host" where
  "send_status st s = s\<lparr>hs_status := st, hs_sent := hs_sent s @ [st]\<rparr>"

definition beginStop :: "host \<Rightarrow> host" where
  "beginStop s =
     (if hs_stopping s then s
      else send_status (pending_status StopPending 20000) s
             \<lparr>hs_stopping := True, hs_cancelled := True, hs_stop_timer := True\<rparr>)"

text \<open>One round of the \<^verbatim>\<open>select\<close>; an event whose channel cannot deliver does not happen.\<close>

definition Execute_step :: "host \<Rightarrow> host_event \<Rightarrow> host" where
  "Execute_step s e =
     (if hs_exit s \<noteq> None then s
      else case e of
        ReadyClosed \<Rightarrow>
          if \<not> hs_ready s then s
          else
            let s1 = s\<lparr>hs_ready := False, hs_startup_timer := False\<rparr>
            in if \<not> hs_stopping s1 then send_status running_status s1 else s1
      | Request c \<Rightarrow>
          if \<not> hs_requests s then s
          else (case c of
                  Interrogate \<Rightarrow> send_status (hs_status s) s
                | StopCmd \<Rightarrow> beginStop s
                | ShutdownCmd \<Rightarrow> beginStop s
                | OtherCmd \<Rightarrow> s)
      | RequestsClosed \<Rightarrow> if \<not> hs_requests s then s else (beginStop s)\<lparr>hs_requests := False\<rparr>
      | StartupDeadline \<Rightarrow> if \<not> hs_startup_timer s then s else beginStop (s\<lparr>hs_startup_timer := False\<rparr>)
      | Tick \<Rightarrow>
          if ss_state (hs_status s) = StartPending \<or> ss_state (hs_status s) = StopPending
          then send_status ((hs_status s)\<lparr>ss_checkpoint := ss_checkpoint (hs_status s) + 1\<rparr>) s
          else s
      | RuntimeDone failed \<Rightarrow> s\<lparr>hs_exit := Some (if failed then (True, 1) else (False, 0))\<rparr>
      | StopDeadline \<Rightarrow> if \<not> hs_stop_timer s then s else s\<lparr>hs_exit := Some (True, 2)\<rparr>)"

section \<open>The specification of the loop\<close>

datatype phase = Starting | Up | Stopping | Ended bool nat

text \<open>The phase, and whether requests still arrive.\<close>

fun phase_step :: "phase \<times> bool \<Rightarrow> host_event \<Rightarrow> phase \<times> bool" where
  "phase_step (Ended b n, r) e = (Ended b n, r)"
| "phase_step (p, r) (RuntimeDone failed) = (if failed then Ended True 1 else Ended False 0, r)"
| "phase_step (p, r) StopDeadline = (if p = Stopping then Ended True 2 else p, r)"
| "phase_step (p, r) ReadyClosed = (if p = Starting then Up else p, r)"
| "phase_step (p, r) StartupDeadline = (if p = Starting then Stopping else p, r)"
| "phase_step (p, r) RequestsClosed = (if r then Stopping else p, False)"
| "phase_step (p, r) (Request c) = (if r \<and> (c = StopCmd \<or> c = ShutdownCmd) then Stopping else p, r)"
| "phase_step (p, r) Tick = (p, r)"

definition phase_of :: "host \<Rightarrow> phase \<times> bool" where
  "phase_of s =
     (case hs_exit s of
        Some (b, n) \<Rightarrow> Ended b n
      | None \<Rightarrow> if hs_stopping s then Stopping else if hs_ready s then Starting else Up, hs_requests s)"

definition host_inv :: "host \<Rightarrow> bool" where
  "host_inv s \<longleftrightarrow>
     (hs_ready s \<and> \<not> hs_stopping s \<longrightarrow> hs_startup_timer s \<and> ss_state (hs_status s) = StartPending)
     \<and> (hs_startup_timer s \<longrightarrow> hs_ready s)
     \<and> (\<not> hs_ready s \<and> \<not> hs_stopping s \<longrightarrow> ss_state (hs_status s) = Running)
     \<and> (hs_stopping s \<longrightarrow> ss_state (hs_status s) = StopPending)
     \<and> hs_stop_timer s = hs_stopping s \<and> hs_cancelled s = hs_stopping s
     \<and> last (hs_sent s) = hs_status s \<and> hs_sent s \<noteq> []"

lemmas host_defs = Execute_step_def beginStop_def send_status_def pending_status_def running_status_def

lemma start_host_inv: "host_inv start_host"
  by (simp add: host_inv_def start_host_def pending_status_def)

lemma Execute_step_inv: "host_inv s \<Longrightarrow> host_inv (Execute_step s e)"
  by (cases e; cases "hs_exit s") (auto simp: host_inv_def host_defs Let_def split: svc_cmd.splits)

lemma Execute_step_phase:
  assumes "host_inv s"
  shows "phase_of (Execute_step s e) = phase_step (phase_of s) e"
  using assms
  by (cases e; cases "hs_exit s"; cases "hs_stopping s"; cases "hs_ready s"; cases "hs_requests s")
    (auto simp: host_inv_def host_defs phase_of_def Let_def split: svc_cmd.splits prod.splits)

interpretation host: refinement Execute_step phase_step phase_of host_inv
  by unfold_locales (simp_all add: Execute_step_phase Execute_step_inv)


section \<open>What the manager sees\<close>

definition state_rank :: "svc_state \<Rightarrow> nat" where
  "state_rank st = (case st of StartPending \<Rightarrow> 0 | Running \<Rightarrow> 1 | StopPending \<Rightarrow> 2)"

text \<open>Later in the life of the Service, or the same status repeated.\<close>

definition progresses :: "svc_status \<Rightarrow> svc_status \<Rightarrow> bool" where
  "progresses a b \<longleftrightarrow> state_rank (ss_state a) < state_rank (ss_state b)
     \<or> (ss_state a = ss_state b \<and> ss_checkpoint a \<le> ss_checkpoint b)"

lemma progresses_trans: "progresses a b \<Longrightarrow> progresses b c \<Longrightarrow> progresses a c"
  by (auto simp: progresses_def)

lemma progresses_refl [simp]: "progresses a a"
  by (simp add: progresses_def)

lemma checkpoint_grows:
  assumes "unat (c :: 32 word) < 2 ^ 32 - 1"
  shows "c \<le> c + 1" and "unat (c + 1) = Suc (unat c)"
proof -
  show u: "unat (c + 1) = Suc (unat c)"
    using assms by (simp add: unat_word_ariths)
  then show "c \<le> c + 1" by (simp add: word_le_nat_alt)
qed

text \<open>One step sends nothing, or one status that progresses and is then the current one.\<close>

lemma Execute_step_sent:
  assumes "host_inv s" and "unat (ss_checkpoint (hs_status s)) < 2 ^ 32 - 1"
  shows "(hs_sent (Execute_step s e) = hs_sent s \<and> hs_status (Execute_step s e) = hs_status s)
    \<or> (\<exists>t. hs_sent (Execute_step s e) = hs_sent s @ [t] \<and> hs_status (Execute_step s e) = t
         \<and> progresses (hs_status s) t \<and> unat (ss_checkpoint t) \<le> Suc (unat (ss_checkpoint (hs_status s))))"
proof -
  note c = checkpoint_grows [OF assms(2)]
  have b: "hs_stopping s \<or> progresses (hs_status s) (pending_status StopPending 20000)"
    using assms(1) by (cases "hs_ready s") (auto simp: host_inv_def progresses_def state_rank_def pending_status_def)
  have r: "\<not> hs_ready s \<or> hs_stopping s \<or> progresses (hs_status s) running_status"
    using assms(1) by (auto simp: host_inv_def progresses_def state_rank_def running_status_def)
  have t: "progresses (hs_status s) ((hs_status s)\<lparr>ss_checkpoint := ss_checkpoint (hs_status s) + 1\<rparr>)"
    using c by (simp add: progresses_def)
  have u: "unat (ss_checkpoint (pending_status StopPending 20000)) = 1" "unat (ss_checkpoint running_status) = 0"
    by (simp_all add: pending_status_def running_status_def)
  show ?thesis
    using b r t c u
    by (cases e; cases "hs_exit s")
      (auto simp: Execute_step_def beginStop_def send_status_def Let_def split: svc_cmd.splits)
qed

lemma host_run_sent:
  assumes "length es < 2 ^ 32 - 1"
  shows "sorted_wrt progresses (hs_sent (foldl Execute_step start_host es))
    \<and> unat (ss_checkpoint (hs_status (foldl Execute_step start_host es))) \<le> Suc (length es)"
  using assms
proof (induction es rule: rev_induct)
  case Nil
  then show ?case by (simp add: start_host_def pending_status_def)
next
  case (snoc e es)
  let ?s = "foldl Execute_step start_host es"
  have ih: "sorted_wrt progresses (hs_sent ?s)" "unat (ss_checkpoint (hs_status ?s)) \<le> Suc (length es)"
    using snoc by auto
  have inv: "host_inv ?s" using host.run_refines [OF start_host_inv] by blast
  have "unat (ss_checkpoint (hs_status ?s)) < 2 ^ 32 - 1" using ih(2) snoc.prems by simp
  note st = Execute_step_sent [OF inv this, of e]
  have last: "last (hs_sent ?s) = hs_status ?s" "hs_sent ?s \<noteq> []" using inv by (simp_all add: host_inv_def)
  have before: "progresses x (hs_status ?s)" if "x \<in> set (hs_sent ?s)" for x
  proof -
    obtain xs where xs: "hs_sent ?s = xs @ [hs_status ?s]" using last by (metis append_butlast_last_id)
    with that ih(1) show ?thesis by (auto simp: sorted_wrt_append)
  qed
  from st show ?case
  proof
    assume "hs_sent (Execute_step ?s e) = hs_sent ?s \<and> hs_status (Execute_step ?s e) = hs_status ?s"
    with ih show ?thesis by simp
  next
    assume "\<exists>t. hs_sent (Execute_step ?s e) = hs_sent ?s @ [t] \<and> hs_status (Execute_step ?s e) = t
         \<and> progresses (hs_status ?s) t \<and> unat (ss_checkpoint t) \<le> Suc (unat (ss_checkpoint (hs_status ?s)))"
    then obtain t where t: "hs_sent (Execute_step ?s e) = hs_sent ?s @ [t]" "hs_status (Execute_step ?s e) = t"
      "progresses (hs_status ?s) t" "unat (ss_checkpoint t) \<le> Suc (unat (ss_checkpoint (hs_status ?s)))" by blast
    have "\<forall>x \<in> set (hs_sent ?s). progresses x t" using before t(3) progresses_trans by blast
    with t ih show ?thesis by (simp add: sorted_wrt_append)
  qed
qed

text \<open>
  The statuses sent to the Service Control Manager only move forward: start pending, running, stop
  pending, with checkpoints that never decrease while a phase lasts, as long as the 32-bit checkpoint
  cannot wrap.
\<close>

theorem statuses_progress:
  assumes "length es < 2 ^ 32 - 1"
  shows "sorted_wrt progresses (hs_sent (foldl Execute_step start_host es))"
  using host_run_sent [OF assms] by blast

theorem statuses_progress_witness:
  "sorted_wrt progresses (hs_sent (foldl Execute_step start_host [Tick, ReadyClosed, Request StopCmd, Tick]))
   \<and> length (hs_sent (foldl Execute_step start_host [Tick, ReadyClosed, Request StopCmd, Tick])) = 5"
proof
  show "sorted_wrt progresses (hs_sent (foldl Execute_step start_host [Tick, ReadyClosed, Request StopCmd, Tick]))"
    by (rule statuses_progress) simp
  show "length (hs_sent (foldl Execute_step start_host [Tick, ReadyClosed, Request StopCmd, Tick])) = 5"
    by (simp add: host_defs start_host_def)
qed

section \<open>Registration\<close>

definition service_name :: string where "service_name = app_name"
definition DisplayName :: string where "DisplayName = ''Thesis Agent (Development)''"
definition Description :: string where "Description = ''Managed university lab Agent development Windows Service''"
definition serviceSDDL :: string where
  "serviceSDDL = ''O:BAG:BAD:(A;;GA;;;SY)(A;;GA;;;BA)(A;;CCLCSWLORC;;;BU)''"

datatype start_type = StartManual | StartAutomatic | StartOther
datatype run_state = Stopped | NotStopped

record svc_config =
  sc_binary :: string
  sc_start :: start_type
  sc_own_process :: bool
  sc_delayed :: bool
  sc_account :: string
  sc_display :: string
  sc_description :: string

text \<open>\<^verbatim>\<open>syscall.EscapeArg\<close>: quotes around spaces, backslashes doubled before a quote.\<close>

fun escape_from :: "nat \<Rightarrow> bool \<Rightarrow> string \<Rightarrow> string" where
  "escape_from slashes space [] = (if space then replicate slashes (CHR 0x5C) @ [CHR 0x22] else [])"
| "escape_from slashes space (c # cs) =
     (if c = CHR 0x5C then c # escape_from (Suc slashes) space cs
      else if c = CHR 0x22 then replicate slashes (CHR 0x5C) @ [CHR 0x5C, c] @ escape_from 0 space cs
      else c # escape_from 0 space cs)"

definition EscapeArg :: "string \<Rightarrow> string" where
  "EscapeArg s =
     (if s = [] then [CHR 0x22, CHR 0x22]
      else
        let needs = (CHR 0x22 \<in> set s \<or> CHR 0x5C \<in> set s); space = (CHR '' '' \<in> set s \<or> CHR 0x09 \<in> set s)
        in if \<not> needs \<and> \<not> space then s
           else if \<not> needs then CHR 0x22 # s @ [CHR 0x22]
           else (if space then [CHR 0x22] else []) @ escape_from 0 space s)"

definition quoted_command :: "string \<Rightarrow> string" where
  "quoted_command executable = [CHR 0x22] @ executable @ [CHR 0x22] @ '' --service''"

definition escaped_command :: "string \<Rightarrow> string" where
  "escaped_command executable = EscapeArg executable @ '' --service''"

text \<open>The answers of the system to \<^verbatim>\<open>Configure\<close>, and what was changed.\<close>

datatype open_service = ServiceOpened svc_config | ServiceMissing | ServiceRefused

record scm =
  sm_elevated :: bool
  sm_paths :: "app_paths option"
  sm_executable :: "string option"
  sm_connect :: bool
  sm_open :: open_service
  sm_create :: bool
  sm_state :: "run_state option"
  sm_config :: bool
  sm_descriptor :: bool
  sm_security :: bool
  sm_recovery :: bool
  sm_noncrash :: bool
  sm_update :: bool

datatype scm_change = Created svc_config | SecuritySet | RecoverySet | NonCrashSet | Updated svc_config

datatype scm_error =
    NotAdministrator | PathsUnknown | ExecutableUnknown | NotInstalledExecutable | ManagerFailed | OpenServiceFailed
  | QueryFailed | NotStoppedError | DifferentExecutable | SecurityFailed | RecoveryFailed | UpdateFailed | NotOwned

definition new_service :: "string \<Rightarrow> svc_config" where
  "new_service expected =
     \<lparr>sc_binary = escaped_command expected, sc_start = StartManual, sc_own_process = True, sc_delayed = False,
      sc_account = ''LocalSystem'', sc_display = DisplayName, sc_description = Description\<rparr>"

definition final_config :: "string \<Rightarrow> svc_config" where
  "final_config expected =
     \<lparr>sc_binary = quoted_command expected, sc_start = StartAutomatic, sc_own_process = True, sc_delayed = False,
      sc_account = ''LocalSystem'', sc_display = DisplayName, sc_description = Description\<rparr>"

text \<open>From the registration that was opened or created on.\<close>

definition configure_service :: "path_lib \<Rightarrow> scm \<Rightarrow> string \<Rightarrow> svc_config \<Rightarrow> scm_error option \<times> scm_change list" where
  "configure_service L e expected cfg =
     (case sm_state e of
        None \<Rightarrow> (Some QueryFailed, [])
      | Some NotStopped \<Rightarrow> (Some NotStoppedError, [])
      | Some Stopped \<Rightarrow>
          if \<not> sm_config e then (Some QueryFailed, [])
          else if \<not> pl_fold L (sc_binary cfg) (escaped_command expected)
               \<and> \<not> pl_fold L (sc_binary cfg) (quoted_command expected) then (Some DifferentExecutable, [])
          else if \<not> sm_descriptor e then (Some SecurityFailed, [])
          else if \<not> sm_security e then (Some SecurityFailed, [])
          else if \<not> sm_recovery e then (Some RecoveryFailed, [SecuritySet])
          else if \<not> sm_noncrash e then (Some RecoveryFailed, [SecuritySet, RecoverySet])
          else if \<not> sm_update e then (Some UpdateFailed, [SecuritySet, RecoverySet, NonCrashSet])
          else (None, [SecuritySet, RecoverySet, NonCrashSet, Updated (final_config expected)]))"

definition Configure :: "path_lib \<Rightarrow> scm \<Rightarrow> scm_error option \<times> scm_change list" where
  "Configure L e =
     (if \<not> sm_elevated e then (Some NotAdministrator, [])
      else case sm_paths e of
        None \<Rightarrow> (Some PathsUnknown, [])
      | Some paths \<Rightarrow>
          (case sm_executable e of
             None \<Rightarrow> (Some ExecutableUnknown, [])
           | Some executable \<Rightarrow>
               let expected = pl_join L [ap_install paths, ''thesis-agent.exe'']
               in if \<not> pl_fold L (pl_clean L executable) expected then (Some NotInstalledExecutable, [])
                  else if \<not> sm_connect e then (Some ManagerFailed, [])
                  else (case sm_open e of
                          ServiceRefused \<Rightarrow> (Some OpenServiceFailed, [])
                        | ServiceOpened cfg \<Rightarrow> configure_service L e expected cfg
                        | ServiceMissing \<Rightarrow>
                            if \<not> sm_create e then (Some OpenServiceFailed, [])
                            else apsnd ((#) (Created (new_service expected)))
                                   (configure_service L e expected (new_service expected)))))"

text \<open>The recovery actions: delays in seconds; \<open>None\<close> takes no action.\<close>

definition recovery_actions :: "nat option list" where
  "recovery_actions = [Some 5, Some 30, None]"

definition ownedRepairConfig :: "path_lib \<Rightarrow> svc_config \<Rightarrow> string \<Rightarrow> bool" where
  "ownedRepairConfig L cfg executable \<longleftrightarrow>
     (pl_fold L (sc_binary cfg) (quoted_command executable) \<or> pl_fold L (sc_binary cfg) (escaped_command executable))
     \<and> pl_fold L (sc_account cfg) ''LocalSystem'' \<and> sc_own_process cfg"

definition RequireStoppedOwnedService :: "path_lib \<Rightarrow> scm \<Rightarrow> scm_error option" where
  "RequireStoppedOwnedService L e =
     (case sm_paths e of
        None \<Rightarrow> Some PathsUnknown
      | Some paths \<Rightarrow>
          if \<not> sm_connect e then Some ManagerFailed
          else (case sm_open e of
                  ServiceOpened cfg \<Rightarrow>
                    if \<not> sm_config e then Some QueryFailed
                    else if \<not> ownedRepairConfig L cfg (pl_join L [ap_install paths, ''thesis-agent.exe'']) then Some NotOwned
                    else (case sm_state e of
                            None \<Rightarrow> Some QueryFailed
                          | Some NotStopped \<Rightarrow> Some NotStoppedError
                          | Some Stopped \<Rightarrow> None)
                | _ \<Rightarrow> Some OpenServiceFailed))"

definition RequireStoppedForKeyMaintenance :: "scm \<Rightarrow> scm_error option" where
  "RequireStoppedForKeyMaintenance e =
     (if \<not> sm_connect e then Some ManagerFailed
      else case sm_open e of
             ServiceMissing \<Rightarrow> None
           | ServiceRefused \<Rightarrow> Some OpenServiceFailed
           | ServiceOpened cfg \<Rightarrow>
               (case sm_state e of
                  None \<Rightarrow> Some QueryFailed
                | Some NotStopped \<Rightarrow> Some NotStoppedError
                | Some Stopped \<Rightarrow> None))"

text \<open>What a registration that may be changed looks like.\<close>

definition may_change :: "path_lib \<Rightarrow> string \<Rightarrow> svc_config \<Rightarrow> bool" where
  "may_change L expected cfg \<longleftrightarrow>
     pl_fold L (sc_binary cfg) (escaped_command expected) \<or> pl_fold L (sc_binary cfg) (quoted_command expected)"

lemma configure_service_cases:
  assumes "configure_service L e expected cfg = (r, changes)"
  shows "(changes = [] \<and> r \<noteq> None) \<or>
    (sm_state e = Some Stopped \<and> may_change L expected cfg \<and> (\<forall>c \<in> set changes. \<forall>cfg. c \<noteq> Created cfg)
     \<and> (r = None \<longrightarrow> last changes = Updated (final_config expected)))"
  using assms
  by (auto simp: configure_service_def may_change_def split: option.splits run_state.splits if_splits)

lemma final_config_owned: "(\<And>s. pl_fold L s s) \<Longrightarrow> ownedRepairConfig L (final_config expected) expected"
  by (simp add: ownedRepairConfig_def final_config_def)

text \<open>
  Configuring never touches a Service that runs or belongs to another executable: whatever is
  changed besides creating a missing registration was changed, elevated, on a stopped Service registered
  for the installed executable; and a configuration that reports success ends with a registration that
  starts automatically and that the repair tool recognises as owned.
\<close>

theorem configure_only_owned:
  assumes "Configure L e = (r, changes)" and "\<And>s. pl_fold L s s"
  shows "(set changes \<subseteq> range Created \<or>
       (sm_elevated e \<and> sm_state e = Some Stopped \<and> (\<exists>paths. sm_paths e = Some paths \<and>
          (let expected = pl_join L [ap_install paths, ''thesis-agent.exe'']
           in case sm_open e of
                ServiceOpened cfg \<Rightarrow> may_change L expected cfg
              | ServiceMissing \<Rightarrow> hd changes = Created (new_service expected)
              | ServiceRefused \<Rightarrow> False))))
    \<and> (r = None \<longrightarrow> (\<exists>paths cfg. sm_paths e = Some paths \<and> last changes = Updated cfg
         \<and> sc_start cfg = StartAutomatic \<and> ownedRepairConfig L cfg (pl_join L [ap_install paths, ''thesis-agent.exe''])))"
proof (cases "r \<noteq> None \<and> changes = []")
  case False
  then obtain paths where p: "sm_elevated e" "sm_paths e = Some paths"
    using assms(1) by (cases "sm_paths e") (auto simp: Configure_def split: if_splits)
  let ?x = "pl_join L [ap_install paths, ''thesis-agent.exe'']"
  have own: "sc_start (final_config ?x) = StartAutomatic \<and> ownedRepairConfig L (final_config ?x) ?x"
    using final_config_owned assms(2) by (simp add: final_config_def)
  obtain r2 ch2 where n: "configure_service L e ?x (new_service ?x) = (r2, ch2)" by fastforce
  consider cfg where "sm_open e = ServiceOpened cfg" "configure_service L e ?x cfg = (r, changes)"
    | ch where "sm_open e = ServiceMissing" "configure_service L e ?x (new_service ?x) = (r, ch)"
        "changes = Created (new_service ?x) # ch"
    using assms(1) False p n
    by (auto simp: Configure_def Let_def split: option.splits if_splits open_service.splits prod.splits)
  then show ?thesis
  proof cases
    case 1
    from configure_service_cases [OF 1(2)] False
    have "sm_state e = Some Stopped" "may_change L ?x cfg" "r = None \<longrightarrow> last changes = Updated (final_config ?x)" by auto
    with 1 p own show ?thesis by (auto simp: Let_def)
  next
    case 2
    have "ch \<noteq> [] \<Longrightarrow> sm_state e = Some Stopped" "r = None \<longrightarrow> last ch = Updated (final_config ?x) \<and> ch \<noteq> []"
      using configure_service_cases [OF 2(2)] 2(2) by (auto simp: configure_service_def split: option.splits run_state.splits if_splits)
    with 2 p own show ?thesis by (cases "ch = []") (auto simp: Let_def)
  qed
qed auto

definition sample_scm :: scm where
  "sample_scm =
     \<lparr>sm_elevated = True, sm_paths = Some (fromRoot unix_paths ''/r'' ''/p''), sm_executable = Some ''/p/thesis-agent.exe'',
      sm_connect = True, sm_open = ServiceMissing, sm_create = True, sm_state = Some Stopped, sm_config = True,
      sm_descriptor = True, sm_security = True, sm_recovery = True, sm_noncrash = True, sm_update = True\<rparr>"

theorem configure_only_owned_witness:
  "\<exists>changes cfg. Configure unix_paths sample_scm = (None, changes) \<and> last changes = Updated cfg
     \<and> ownedRepairConfig unix_paths cfg ''/p/thesis-agent.exe''"
proof -
  have "fst (Configure unix_paths sample_scm) = None" by code_simp
  then have c: "Configure unix_paths sample_scm = (None, snd (Configure unix_paths sample_scm))"
    by (simp add: prod_eq_iff)
  have f: "pl_fold unix_paths s s" for s by (simp add: unix_paths_def)
  have "sm_paths sample_scm = Some (fromRoot unix_paths ''/r'' ''/p'')" by (simp add: sample_scm_def)
  moreover have "pl_join unix_paths [ap_install (fromRoot unix_paths ''/r'' ''/p''), ''thesis-agent.exe''] = ''/p/thesis-agent.exe''"
    by code_simp
  ultimately show ?thesis using configure_only_owned [OF c f] c by auto
qed

end
