(* ===== verification/AgentRuntime.thy ===== *)
theory AgentRuntime
  imports AppConfig AppPaths AgentAuth Enrollment Transport ServiceHost
begin

text \<open>
  The runtime that the console and the Service share, \<^verbatim>\<open>internal/agent\<close>, the lock of
  \<^verbatim>\<open>internal/runlock\<close> and the command line of \<^verbatim>\<open>main.go\<close>.

  A run is its list of effects, in order, with its error.  The components that a run calls are modelled
  in their own theories; here the environment says how each of them ends.
\<close>

section \<open>Startup diagnostics\<close>

text \<open>A diagnostic is its text and whether its action was to fail closed.\<close>

record startupDiagnostics =
  sg_pending :: "string list"
  sg_ready :: bool
  sg_event :: "(string \<times> bool) list"
  sg_file :: "string list"

definition newStartupDiagnostics :: startupDiagnostics where
  "newStartupDiagnostics = \<lparr>sg_pending = [], sg_ready = False, sg_event = [], sg_file = []\<rparr>"

definition diagnose :: "string \<Rightarrow> bool \<Rightarrow> startupDiagnostics \<Rightarrow> startupDiagnostics" where
  "diagnose message failed d =
     (if sg_ready d then d\<lparr>sg_file := sg_file d @ [message]\<rparr>
      else d\<lparr>sg_pending := sg_pending d @ [message], sg_event := sg_event d @ [(message, failed)]\<rparr>)"

definition fileReady :: "startupDiagnostics \<Rightarrow> startupDiagnostics" where
  "fileReady d = d\<lparr>sg_ready := True, sg_file := sg_file d @ sg_pending d, sg_pending := []\<rparr>"

definition logBoundaryReport :: "string \<Rightarrow> bool \<Rightarrow> startupDiagnostics \<Rightarrow> startupDiagnostics" where
  "logBoundaryReport message failed d =
     (if sg_ready d then d\<lparr>sg_event := sg_event d @ [(message, True)]\<rparr> else diagnose message failed d)"

datatype diagnostic_event = Report string bool | BoundaryReport string bool | FileReady

fun diagnostic_step :: "startupDiagnostics \<Rightarrow> diagnostic_event \<Rightarrow> startupDiagnostics" where
  "diagnostic_step d (Report m f) = diagnose m f d"
| "diagnostic_step d (BoundaryReport m f) = logBoundaryReport m f d"
| "diagnostic_step d FileReady = fileReady d"

text \<open>What should reach the log file: everything, but not what the log itself causes once it is in use.\<close>

fun for_file :: "bool \<Rightarrow> diagnostic_event list \<Rightarrow> string list" where
  "for_file ready [] = []"
| "for_file ready (Report m f # es) = m # for_file ready es"
| "for_file ready (BoundaryReport m f # es) = (if ready then for_file ready es else m # for_file ready es)"
| "for_file ready (FileReady # es) = for_file True es"

lemma diagnostics_run:
  assumes "sg_ready d \<longrightarrow> sg_pending d = []"
  shows "sg_file (foldl diagnostic_step d es) @ sg_pending (foldl diagnostic_step d es)
      = sg_file d @ sg_pending d @ for_file (sg_ready d) es
    \<and> sg_ready (foldl diagnostic_step d es) = (sg_ready d \<or> FileReady \<in> set es)
    \<and> (sg_ready (foldl diagnostic_step d es) \<longrightarrow> sg_pending (foldl diagnostic_step d es) = [])"
  using assms
proof (induction es arbitrary: d)
  case (Cons e es)
  have "sg_ready (diagnostic_step d e) \<longrightarrow> sg_pending (diagnostic_step d e) = []"
    using Cons.prems by (cases e) (auto simp: diagnose_def logBoundaryReport_def fileReady_def)
  from Cons.IH [OF this] Cons.prems show ?case
    by (cases e) (auto simp: diagnose_def logBoundaryReport_def fileReady_def)
qed simp

text \<open>
  No startup diagnostic is lost or reordered: once the log file is ready it holds, in order and
  exactly once, every diagnostic reported before and after, and until then all of them wait.
\<close>

theorem diagnostics_complete:
  "(let d = foldl diagnostic_step newStartupDiagnostics es
    in (if FileReady \<in> set es then sg_file d else sg_pending d) = for_file False es)"
proof -
  let ?d = "foldl diagnostic_step newStartupDiagnostics es"
  have r: "sg_file ?d @ sg_pending ?d = for_file False es" "sg_ready ?d = (FileReady \<in> set es)"
    "sg_ready ?d \<longrightarrow> sg_pending ?d = []"
    using diagnostics_run [of newStartupDiagnostics es] by (auto simp: newStartupDiagnostics_def)
  have "\<not> sg_ready d \<longrightarrow> sg_file d = [] \<Longrightarrow> \<not> sg_ready (foldl diagnostic_step d es) \<longrightarrow> sg_file (foldl diagnostic_step d es) = []" for d
  proof (induction es arbitrary: d)
    case (Cons e es)
    have "\<not> sg_ready (diagnostic_step d e) \<longrightarrow> sg_file (diagnostic_step d e) = []"
      using Cons.prems by (cases e) (auto simp: diagnose_def logBoundaryReport_def fileReady_def)
    from Cons.IH [OF this] show ?case by simp
  qed simp
  then have "\<not> sg_ready ?d \<longrightarrow> sg_file ?d = []" by (simp add: newStartupDiagnostics_def)
  with r show ?thesis by (auto simp: Let_def)
qed

section \<open>Paths of the configuration\<close>

definition resolve :: "path_lib \<Rightarrow> string \<Rightarrow> string \<Rightarrow> string \<Rightarrow> string" where
  "resolve L root value fallback =
     (if value = [] then fallback else if pl_abs L value then pl_clean L value else pl_join L [root, value])"

definition within :: "path_lib \<Rightarrow> string \<Rightarrow> string \<Rightarrow> bool" where
  "within L root path \<longleftrightarrow>
     (case pl_rel L root path of
        None \<Rightarrow> False
      | Some rel \<Rightarrow> rel \<noteq> ''..'' \<and> \<not> has_prefix rel (''..'' @ [pl_separator L]) \<and> \<not> pl_abs L rel)"

definition validateEndpoints :: "url_parser \<Rightarrow> config \<Rightarrow> string \<Rightarrow> bool" where
  "validateEndpoints parse cfg mode =
     (if mode = ''production'' \<and> cf_allow_http cfg then False
      else ValidateEndpoint parse (cf_api_base_url cfg) False (mode = ''production'') = None
           \<and> ValidateEndpoint parse (cf_websocket_url cfg) True (mode = ''production'') = None)"

section \<open>The key of a connection\<close>

text \<open>
  The loader given to \<^verbatim>\<open>ConfigureAuthentication\<close>: \<open>loaded\<close> is the answer of \<^verbatim>\<open>LoadPrivateKey\<close>, and the key is
  refused when its public half, its last 32 bytes, is not the one of the identity loaded at startup.
\<close>

definition connection_key :: "AgentConfig \<Rightarrow> key_error + string \<Rightarrow> load_error + string" where
  "connection_key identity loaded =
     (case loaded of
        Inl e \<Rightarrow> Inl (if ag_protection identity = [] then ErrMigrationRequired else ErrLoadOther)
      | Inr key \<Rightarrow> if b64_encode (drop 32 key) \<noteq> ag_public_key identity then Inl ErrLoadOther else Inr key)"

section \<open>A run\<close>

record options =
  op_service :: bool
  op_provision :: bool
  op_source :: string

datatype run_error =
    PathsFailed | RootMissing | GateRefused | LockRefused | ConfigFailed | LogOutside | LogOverlap | LogsFailed
  | ModeRefused | EndpointRefused | RootsRefused | MigrationNotAllowed | SourceNotAbsolute | MigrationFailed
  | IdentityFailed | MarkerFailed | EnrollFailed | DownloadsRefused | ClientFailed

datatype effect =
    StatRoot
  | TookGate | TookLock | Unlocked
  | ReadConfig
  | OpenedLogs string | LogsClosed
  | DiagnosticsToFile
  | MigratedIdentity string
  | LoadedIdentity bool bool
  | CheckedMarker
  | Enrolled bool
  | NewClient | ClientClosed
  | PowerMode bool
  | ConfiguredDownloads string "string list"
  | SignalledReady
  | StartedHelper | HelperClosed
  | RanClient
  | ReportedStartupFailure

type_synonym outcome = "run_error option \<times> effect list"

definition emit :: "effect \<Rightarrow> outcome \<Rightarrow> outcome" where
  "emit e out = (fst out, e # snd out)"

text \<open>A resource: acquired, then released when the rest is over, as \<^verbatim>\<open>defer\<close> does.\<close>

definition bracket :: "effect \<Rightarrow> effect \<Rightarrow> outcome \<Rightarrow> outcome" where
  "bracket acquire release out = (fst out, acquire # snd out @ [release])"

definition stop :: "run_error \<Rightarrow> outcome" where
  "stop e = (Some e, [])"

record run_env =
  re_lib :: path_lib
  re_parse :: url_parser
  re_root_ok :: bool
  re_lock :: bool
  re_config :: "config option"
  re_getenv :: "string \<Rightarrow> string"
  re_logs :: bool
  re_roots :: "string \<Rightarrow> string list \<Rightarrow> string \<Rightarrow> string \<Rightarrow> string list option"
  re_migrate :: bool
  re_identity :: "bool \<Rightarrow> bool \<Rightarrow> AgentConfig option"
  re_marker :: bool
  re_enroll :: bool
  re_downloads :: bool
  re_context_done :: bool
  re_client :: "run_error option"
  re_has_ready :: bool

definition is_machine :: "options \<Rightarrow> bool" where
  "is_machine opt \<longleftrightarrow> op_service opt \<or> op_provision opt"

text \<open>From the client on.\<close>

definition run_client :: "run_env \<Rightarrow> options \<Rightarrow> string \<Rightarrow> string list \<Rightarrow> outcome" where
  "run_client env opt dir roots =
     bracket NewClient ClientClosed
       (emit (PowerMode (equal_fold (trim_space (re_getenv env ''POWER_MODE'')) ''mock''))
         (if \<not> re_downloads env then stop DownloadsRefused
          else emit (ConfiguredDownloads dir roots)
            ((if re_has_ready env then emit SignalledReady else id)
              (emit (Enrolled (\<not> op_service opt))
                (if \<not> re_enroll env then (if re_context_done env then (None, []) else stop EnrollFailed)
                 else if op_service opt then bracket StartedHelper HelperClosed (emit RanClient (re_client env, []))
                 else emit RanClient (re_client env, []))))))"

text \<open>The identity and its enrollment.\<close>

definition run_identity :: "run_env \<Rightarrow> options \<Rightarrow> string \<Rightarrow> string list \<Rightarrow> outcome" where
  "run_identity env opt dir roots =
     emit (LoadedIdentity (is_machine opt) (\<not> op_service opt))
       (case re_identity env (is_machine opt) (\<not> op_service opt) of
          None \<Rightarrow> stop IdentityFailed
        | Some identity \<Rightarrow>
            emit CheckedMarker
              (if \<not> re_marker env then stop MarkerFailed
               else if op_provision opt
               then emit (Enrolled True) (if re_enroll env then (None, []) else stop EnrollFailed)
               else run_client env opt dir roots))"

definition run_migration :: "run_env \<Rightarrow> options \<Rightarrow> string \<Rightarrow> string list \<Rightarrow> outcome" where
  "run_migration env opt dir roots =
     (if op_source opt = [] then run_identity env opt dir roots
      else if \<not> op_provision opt then stop MigrationNotAllowed
      else if \<not> pl_abs (re_lib env) (op_source opt) then stop SourceNotAbsolute
      else emit (MigratedIdentity (op_source opt))
             (if \<not> re_migrate env then stop MigrationFailed else run_identity env opt dir roots))"

text \<open>The transport, the endpoints and the download roots.\<close>

definition run_validation :: "run_env \<Rightarrow> options \<Rightarrow> app_paths \<Rightarrow> config \<Rightarrow> outcome" where
  "run_validation env opt paths cfg =
     (case Mode (cf_transport_mode cfg) (is_machine opt) of
        None \<Rightarrow> stop ModeRefused
      | Some mode \<Rightarrow>
          if \<not> validateEndpoints (re_parse env) cfg mode then stop EndpointRefused
          else
            let dir = resolve (re_lib env) (ap_root paths) (re_getenv env ''DOWNLOAD_DIRECTORY'') (ap_downloads paths);
                roots = cf_download_roots cfg
            in if is_machine opt \<or> roots \<noteq> []
               then (case re_roots env dir roots (ap_root paths) (ap_install paths) of
                       None \<Rightarrow> stop RootsRefused
                     | Some cleaned \<Rightarrow> run_migration env opt dir cleaned)
               else run_migration env opt dir roots)"

definition critical_paths :: "path_lib \<Rightarrow> app_paths \<Rightarrow> string list" where
  "critical_paths L paths = [ap_identity paths, ap_enrollment paths, ap_config paths, RuntimeLock L paths]"

text \<open>The configuration and the log, under the lock.\<close>

definition run_locked :: "run_env \<Rightarrow> options \<Rightarrow> app_paths \<Rightarrow> outcome" where
  "run_locked env opt paths =
     emit ReadConfig
       (case re_config env of
          None \<Rightarrow> stop ConfigFailed
        | Some cfg \<Rightarrow>
            let L = re_lib env; logPath = resolve L (ap_root paths) (re_getenv env ''AGENT_LOG_PATH'') (ap_log paths)
            in if is_machine opt \<and> \<not> within L (pl_join L [ap_root paths, ''logs'']) logPath then stop LogOutside
               else if list_ex (\<lambda>c. pl_fold L (pl_clean L logPath) (pl_clean L c)) (critical_paths L paths) then stop LogOverlap
               else if \<not> re_logs env then stop LogsFailed
               else bracket (OpenedLogs logPath) LogsClosed
                      ((if op_service opt then emit DiagnosticsToFile else id) (run_validation env opt paths cfg)))"

text \<open>\<^verbatim>\<open>runWithSecurity\<close>; a startup failure before the log is ready is reported last.\<close>

definition runWithSecurity :: "run_env \<Rightarrow> options \<Rightarrow> app_paths \<Rightarrow> outcome" where
  "runWithSecurity env opt paths =
     (if is_machine opt \<and> \<not> op_service opt \<and> \<not> re_root_ok env then emit StatRoot (stop RootMissing)
      else
        let body = (if op_service opt
                    then (if re_lock env then bracket TookGate Unlocked (run_locked env opt paths) else stop GateRefused)
                    else (if re_lock env then bracket TookLock Unlocked (run_locked env opt paths) else stop LockRefused));
            out = (if is_machine opt \<and> \<not> op_service opt then emit StatRoot body else body)
        in if op_service opt \<and> fst out \<noteq> None \<and> DiagnosticsToFile \<notin> set (snd out)
           then (fst out, snd out @ [ReportedStartupFailure]) else out)"

text \<open>\<^verbatim>\<open>Run\<close>: the machine paths, or those of the working directory.\<close>

definition RunAgent :: "run_env \<Rightarrow> options \<Rightarrow> app_paths option \<Rightarrow> string option \<Rightarrow> outcome" where
  "RunAgent env opt machine_paths cwd =
     (case (if is_machine opt then machine_paths else Option.bind cwd (ConsolePaths (re_lib env))) of
        None \<Rightarrow> (Some PathsFailed, if op_service opt then [ReportedStartupFailure] else [])
      | Some paths \<Rightarrow> runWithSecurity env opt paths)"

section \<open>Resources\<close>

fun release_of :: "effect \<Rightarrow> effect option" where
  "release_of TookGate = Some Unlocked"
| "release_of TookLock = Some Unlocked"
| "release_of (OpenedLogs p) = Some LogsClosed"
| "release_of NewClient = Some ClientClosed"
| "release_of StartedHelper = Some HelperClosed"
| "release_of _ = None"

definition is_release :: "effect \<Rightarrow> bool" where
  "is_release e \<longleftrightarrow> e \<in> {Unlocked, LogsClosed, ClientClosed, HelperClosed}"

text \<open>The releases still owed after some effects, the most urgent first; \<open>None\<close> when one came out of turn.\<close>

fun owed :: "effect list \<Rightarrow> effect list \<Rightarrow> effect list option" where
  "owed st [] = Some st"
| "owed st (e # es) =
     (case release_of e of
        Some r \<Rightarrow> owed (r # st) es
      | None \<Rightarrow>
          if is_release e then (case st of [] \<Rightarrow> None | r # st1 \<Rightarrow> if r = e then owed st1 es else None)
          else owed st es)"

lemma owed_append: "owed st (t @ u) = Option.bind (owed st t) (\<lambda>st1. owed st1 u)"
  by (induction t arbitrary: st) (auto split: option.split list.split)

lemma outcome_simps [simp]:
  "fst (emit e out) = fst out" "snd (emit e out) = e # snd out"
  "fst (bracket a r out) = fst out" "snd (bracket a r out) = a # snd out @ [r]"
  "fst (stop err) = Some err" "snd (stop err) = []"
  by (simp_all add: emit_def bracket_def stop_def)

lemma run_client_owed: "owed st (snd (run_client env opt dir roots)) = Some st"
  by (simp add: run_client_def owed_append is_release_def)

lemma run_identity_owed: "owed st (snd (run_identity env opt dir roots)) = Some st"
  by (simp add: run_identity_def run_client_owed is_release_def split: option.split)

lemma run_migration_owed: "owed st (snd (run_migration env opt dir roots)) = Some st"
  by (simp add: run_migration_def run_identity_owed is_release_def)

lemma run_validation_owed: "owed st (snd (run_validation env opt paths cfg)) = Some st"
  by (simp add: run_validation_def run_migration_owed Let_def split: option.split)

lemma run_locked_owed: "owed st (snd (run_locked env opt paths)) = Some st"
  by (simp add: run_locked_def run_validation_owed owed_append is_release_def Let_def split: option.split)

text \<open>
  C28. However a run ends, it has given back everything it took, each thing once and in the reverse
  order of taking: the desktop helper, the client, the log and last the lock.
\<close>

theorem resources_released_in_order:
  "owed [] (snd (runWithSecurity env opt paths)) = Some []"
  by (simp add: runWithSecurity_def run_locked_owed owed_append is_release_def Let_def)

section \<open>Order and modes\<close>

text \<open>
  Nothing is read, written or started before the lock is held, which the Service takes through the
  startup gate, or after it was given back: at most the root directory is looked at before, and at most
  the failure is reported after.
\<close>

theorem everything_under_the_lock:
  "\<exists>before under after. snd (runWithSecurity env opt paths) = before @ under @ after
     \<and> set before \<subseteq> {StatRoot} \<and> set after \<subseteq> {ReportedStartupFailure}
     \<and> (under = [] \<or> (\<exists>inner. under = (if op_service opt then TookGate else TookLock) # inner @ [Unlocked]))"
proof -
  define body where "body = (if re_lock env
      then (if op_service opt then TookGate else TookLock) # snd (run_locked env opt paths) @ [Unlocked] else [])"
  define pre where "pre = (if is_machine opt \<and> \<not> op_service opt then [StatRoot] else [])"
  have "snd (runWithSecurity env opt paths) = [StatRoot]
    \<or> (\<exists>post. set post \<subseteq> {ReportedStartupFailure} \<and> snd (runWithSecurity env opt paths) = pre @ body @ post)"
    unfolding runWithSecurity_def body_def pre_def by (auto simp: Let_def)
  then show ?thesis
  proof (elim disjE exE conjE)
    assume "snd (runWithSecurity env opt paths) = [StatRoot]"
    then show ?thesis by (intro exI [of _ "[StatRoot]"] exI [of _ "[]"]) simp
  next
    fix post
    assume p: "set post \<subseteq> {ReportedStartupFailure}" "snd (runWithSecurity env opt paths) = pre @ body @ post"
    have "set pre \<subseteq> {StatRoot}" by (auto simp: pre_def)
    moreover have "body = [] \<or> (\<exists>inner. body = (if op_service opt then TookGate else TookLock) # inner @ [Unlocked])"
      by (auto simp: body_def)
    ultimately show ?thesis using p by blast
  qed
qed

lemma run_effects:
  assumes "e \<in> set (snd (runWithSecurity env opt paths))"
    and "e \<notin> {StatRoot, TookGate, TookLock, Unlocked, ReadConfig, LogsClosed, DiagnosticsToFile, ReportedStartupFailure}"
    and "\<And>p. e \<noteq> OpenedLogs p"
  obtains cfg mode dir roots where "re_lock env" "re_config env = Some cfg"
    "Mode (cf_transport_mode cfg) (is_machine opt) = Some mode" "validateEndpoints (re_parse env) cfg mode"
    "if is_machine opt then re_roots env dir (cf_download_roots cfg) (ap_root paths) (ap_install paths) = Some roots else True"
    "e \<in> set (snd (run_migration env opt dir roots))"
    "let logPath = resolve (re_lib env) (ap_root paths) (re_getenv env ''AGENT_LOG_PATH'') (ap_log paths)
     in (is_machine opt \<longrightarrow> within (re_lib env) (pl_join (re_lib env) [ap_root paths, ''logs'']) logPath)
        \<and> list_all (\<lambda>c. \<not> pl_fold (re_lib env) (pl_clean (re_lib env) logPath) (pl_clean (re_lib env) c))
             (critical_paths (re_lib env) paths)"
proof -
  have r: "re_lock env" "e \<in> set (snd (run_locked env opt paths))"
    using assms unfolding runWithSecurity_def by (auto simp: Let_def split: if_splits)
  then obtain cfg where c: "re_config env = Some cfg" "e \<in> set (snd (run_validation env opt paths cfg))"
    and l: "let logPath = resolve (re_lib env) (ap_root paths) (re_getenv env ''AGENT_LOG_PATH'') (ap_log paths)
     in (is_machine opt \<longrightarrow> within (re_lib env) (pl_join (re_lib env) [ap_root paths, ''logs'']) logPath)
        \<and> list_all (\<lambda>c. \<not> pl_fold (re_lib env) (pl_clean (re_lib env) logPath) (pl_clean (re_lib env) c))
             (critical_paths (re_lib env) paths)"
    using assms(2,3) unfolding run_locked_def
    by (auto simp: Let_def list_ex_iff list_all_iff split: option.splits if_splits)
  let ?dir = "resolve (re_lib env) (ap_root paths) (re_getenv env ''DOWNLOAD_DIRECTORY'') (ap_downloads paths)"
  obtain mode where m: "Mode (cf_transport_mode cfg) (is_machine opt) = Some mode" "validateEndpoints (re_parse env) cfg mode"
    using c(2) unfolding run_validation_def by (auto split: option.splits if_splits)
  have "\<exists>roots. (is_machine opt \<longrightarrow> re_roots env ?dir (cf_download_roots cfg) (ap_root paths) (ap_install paths) = Some roots)
      \<and> e \<in> set (snd (run_migration env opt ?dir roots))"
    using c(2) m unfolding run_validation_def by (auto simp: Let_def split: option.splits if_splits)
  then obtain roots where
    "is_machine opt \<longrightarrow> re_roots env ?dir (cf_download_roots cfg) (ap_root paths) (ap_install paths) = Some roots"
    "e \<in> set (snd (run_migration env opt ?dir roots))" by blast
  with that [OF r(1) c(1) m, of ?dir roots] l show thesis by simp
qed

lemma run_migration_effects:
  "e \<in> set (snd (run_migration env opt dir roots)) \<Longrightarrow> op_service opt \<Longrightarrow> \<not> op_provision opt \<Longrightarrow>
     e \<noteq> Enrolled True \<and> (\<forall>m. e \<noteq> LoadedIdentity m True) \<and> (\<forall>p. e \<noteq> MigratedIdentity p)"
  "e \<in> set (snd (run_migration env opt dir roots)) \<Longrightarrow> op_provision opt \<Longrightarrow> e \<noteq> NewClient \<and> e \<noteq> RanClient"
  by (auto simp: run_migration_def run_identity_def run_client_def split: if_splits option.splits)

text \<open>
  The unattended Service never creates or copies an identity and never enrolls interactively, and
  administrative provisioning never starts the client.
\<close>

theorem modes_keep_apart:
  "(let t = snd (runWithSecurity env \<lparr>op_service = True, op_provision = False, op_source = src\<rparr> paths)
    in Enrolled True \<notin> set t \<and> (\<forall>m. LoadedIdentity m True \<notin> set t) \<and> (\<forall>p. MigratedIdentity p \<notin> set t))
   \<and> (let t = snd (runWithSecurity env \<lparr>op_service = False, op_provision = True, op_source = src\<rparr> paths)
      in NewClient \<notin> set t \<and> RanClient \<notin> set t)"
proof -
  let ?s = "\<lparr>op_service = True, op_provision = False, op_source = src\<rparr>"
  let ?p = "\<lparr>op_service = False, op_provision = True, op_source = src\<rparr>"
  have s: False if e: "e \<in> set (snd (runWithSecurity env ?s paths))"
    "e = Enrolled True \<or> (\<exists>m. e = LoadedIdentity m True) \<or> (\<exists>p. e = MigratedIdentity p)" for e
    by (rule run_effects [OF e(1)]) (use e(2) run_migration_effects(1) [of e env ?s] in auto)
  have p: False if e: "e \<in> set (snd (runWithSecurity env ?p paths))" "e = NewClient \<or> e = RanClient" for e
    by (rule run_effects [OF e(1)]) (use e(2) run_migration_effects(2) [of e env ?p] in auto)
  show ?thesis using s p unfolding Let_def by blast
qed


lemma connection_key_Inr:
  assumes "LoadPrivateKey L rd validated unprotect path s = (loaded, s1)"
    and "connection_key identity loaded = Inr key"
  shows "length key = 64 \<and> il_derive L (take 32 key) = key \<and> b64_encode (drop 32 key) = ag_public_key identity \<and> validated"
proof -
  have k: "loaded = Inr key" "b64_encode (drop 32 key) = ag_public_key identity"
    using assms(2) by (auto simp: connection_key_def split: sum.splits if_splits)
  with LoadPrivateKey_ok [of L rd validated unprotect path s key s1] assms(1) show ?thesis by blast
qed

text \<open>
  The key a connection signs with is a machine-protected key that its own seed derives and that
  belongs to the identity this process started with, even when the file was changed since.
\<close>

theorem connection_key_bound:
  assumes "LoadPrivateKey L rd validated unprotect path s = (loaded, s1)"
    and "connection_key identity loaded = Inr key"
  shows "length key = 64 \<and> il_derive L (take 32 key) = key \<and> b64_encode (drop 32 key) = ag_public_key identity \<and> validated"
  using assms by (rule connection_key_Inr)

section \<open>Examples\<close>

definition sample_url :: "string \<Rightarrow> url option" where
  "sample_url t =
     Some \<lparr>u_scheme = (if has_prefix t ''wss'' then ''wss'' else ''https''), u_opaque = [], u_user = None,
           u_host = ''example.org'', u_raw_query = [], u_force_query = False, u_fragment = []\<rparr>"

definition sample_settings :: "string \<Rightarrow> string option" where
  "sample_settings = [''WS_SERVER_URL'' \<mapsto> ''wss://example.org/ws'', ''AGENT_API_URL'' \<mapsto> ''https://example.org'']"

definition sample_run :: run_env where
  "sample_run =
     \<lparr>re_lib = unix_paths, re_parse = sample_url, re_root_ok = True, re_lock = True,
      re_config = Some (fromEnvironment ''data/downloads'' sample_settings), re_getenv = (\<lambda>_. []), re_logs = True,
      re_roots = (\<lambda>d rs r i. Some [d]), re_migrate = True, re_identity = (\<lambda>_ _. Some (sample_identity [] [])),
      re_marker = True, re_enroll = True, re_downloads = True, re_context_done = False, re_client = None,
      re_has_ready = True\<rparr>"

definition sample_paths :: app_paths where
  "sample_paths = fromRoot unix_paths ''/d'' ''/p''"


theorem connection_key_bound_witness:
  "connection_key (sample_identity (''m'' @ sample_seed @ sample_seed) ''dpapi-machine-v1'') (Inr (sample_seed @ sample_seed))
     = Inr (sample_seed @ sample_seed)
   \<and> il_derive sample_id_lib (take 32 (sample_seed @ sample_seed)) = sample_seed @ sample_seed"
proof -
  let ?s = "sample_disk\<lparr>dk_files := [''id'' \<mapsto> ''C'']\<rparr>"
  have l: "LoadPrivateKey sample_id_lib disk_read True (co_unprotect sample_codec) ''id'' ?s
      = (Inr (sample_seed @ sample_seed), ?s)"
    by (simp add: LoadPrivateKey_def readIdentity_def disk_read_def sample_disk_def Let_def sample_decodes sample_keys,
        simp add: sample_identity_def MachinePrivateKeyProtection_def)
  have c: "connection_key (sample_identity (''m'' @ sample_seed @ sample_seed) ''dpapi-machine-v1'')
      (Inr (sample_seed @ sample_seed)) = Inr (sample_seed @ sample_seed)"
    by (simp add: connection_key_def)
  from connection_key_bound [OF l c] c show ?thesis by blast
qed

end
