(* ===== verification/KeyMigration.thy ===== *)
theory KeyMigration
  imports Identity RuntimeSecurity
begin

text \<open>
  The production entry of the private-key migration, \<^verbatim>\<open>MigratePrivateKeyProtection\<close> of
  \<^verbatim>\<open>service/private_key_migration.go\<close>: the designated paths, the checks of
  \<^verbatim>\<open>internal/protectedpath/path_windows.go\<close> before every read and write, and the lock of
  \<^verbatim>\<open>internal/runlock\<close>, which one process holds at a time.
\<close>

section \<open>Protected paths\<close>

text \<open>What Windows tells about a path: \<^verbatim>\<open>os.Lstat\<close>, the file attributes and the descriptor.\<close>

datatype entry = RegularFile | DirectoryEntry | OtherEntry

record view =
  vw_entry :: "string \<Rightarrow> io_error + entry"
  vw_attributes :: "string \<Rightarrow> 32 word option"
  vw_security :: "string \<Rightarrow> descriptor option"

definition FILE_ATTRIBUTE_REPARSE_POINT :: "32 word" where "FILE_ATTRIBUTE_REPARSE_POINT = 0x400"

text \<open>\<^verbatim>\<open>noReparseAncestors\<close>: every level from the path up to the volume; a name with a NUL byte is refused.\<close>

definition plain_level :: "view \<Rightarrow> string \<Rightarrow> bool" where
  "plain_level v current \<longleftrightarrow>
     CHR 0x00 \<notin> set current
     \<and> (case vw_attributes v current of None \<Rightarrow> False | Some a \<Rightarrow> a AND FILE_ATTRIBUTE_REPARSE_POINT = 0)"

definition noReparseAncestors :: "path_lib \<Rightarrow> view \<Rightarrow> string \<Rightarrow> bool" where
  "noReparseAncestors L v path \<longleftrightarrow>
     pl_abs L path \<and> list_all (plain_level v) (dir_chain L (length (pl_clean L path)) (pl_clean L path))"

definition validateACL :: "view \<Rightarrow> string \<Rightarrow> bool \<Rightarrow> bool" where
  "validateACL v path directory =
     (case vw_security v path of None \<Rightarrow> False | Some d \<Rightarrow> validateDescriptor d directory)"

definition ValidateDirectory :: "path_lib \<Rightarrow> view \<Rightarrow> string \<Rightarrow> bool" where
  "ValidateDirectory L v path =
     (if vw_entry v path \<noteq> Inr DirectoryEntry then False
      else if \<not> noReparseAncestors L v path then False
      else validateACL v path True)"

definition ValidateFile :: "path_lib \<Rightarrow> view \<Rightarrow> string \<Rightarrow> bool" where
  "ValidateFile L v path =
     (if \<not> ValidateDirectory L v (pl_dir L path) then False
      else if vw_entry v path \<noteq> Inr RegularFile then False
      else if \<not> noReparseAncestors L v path then False
      else validateACL v path False)"

section \<open>Reads and writes of the migration\<close>

text \<open>
  The state is the disk and the number of operations so far; operation \<open>n\<close> sees the view \<open>vs n\<close>, so
  what Windows tells may change at any time.  An entry is reported missing only if it is.
\<close>

type_synonym protected_disk = "disk \<times> nat"

definition migration_read :: "path_lib \<Rightarrow> (nat \<Rightarrow> view) \<Rightarrow> protected_disk reader" where
  "migration_read L vs s p =
     (let v = vs (snd s); files = dk_files (fst s); after = (fst s, Suc (snd s))
      in case vw_entry v p of
           Inl e \<Rightarrow> (Inl (if e = io_error.Missing \<and> files p = None then io_error.Missing else Failed), after)
         | Inr kind \<Rightarrow>
             if kind \<noteq> RegularFile \<or> (case files p of None \<Rightarrow> False | Some d \<Rightarrow> length d > 2 ^ 20)
             then (Inl Failed, after)
             else if \<not> ValidateFile L v p then (Inl Failed, after)
             else (case disk_read (fst s) p of (r, d) \<Rightarrow> (r, (d, Suc (snd s)))))"

definition migration_write :: "path_lib \<Rightarrow> (nat \<Rightarrow> view) \<Rightarrow> protected_disk writer" where
  "migration_write L vs s p data exclusive =
     (if \<not> ValidateDirectory L (vs (snd s)) (pl_dir L p) then (False, (fst s, Suc (snd s)))
      else (case disk_write (fst s) p data exclusive of (ok, d) \<Rightarrow> (ok, (d, Suc (snd s)))))"

text \<open>The checked operations keep the promises of the disk they stand on.\<close>

interpretation protected_disk: file_store "migration_read L vs" "migration_write L vs" "\<lambda>s. dk_files (fst s)" for L vs
proof unfold_locales
  fix s p r s' d c x ok q
  show "migration_read L vs s p = (r, s') \<Longrightarrow> dk_files (fst s') = dk_files (fst s)"
    by (auto simp: migration_read_def Let_def dest: disk.read_pure split: sum.splits if_splits prod.splits)
  show "migration_read L vs s p = (Inr d, s') \<Longrightarrow> dk_files (fst s) p = Some d"
    by (auto simp: migration_read_def Let_def dest: disk.read_data split: sum.splits if_splits prod.splits)
  show "migration_read L vs s p = (Inl io_error.Missing, s') \<Longrightarrow> dk_files (fst s) p = None"
    by (auto simp: migration_read_def Let_def dest: disk.read_missing split: sum.splits if_splits prod.splits)
  show "migration_write L vs s p d x = (ok, s') \<Longrightarrow> q \<noteq> p \<Longrightarrow> dk_files (fst s') q = dk_files (fst s) q"
    by (auto simp: migration_write_def dest: disk.write_other split: if_splits prod.splits)
  show "migration_write L vs s p d x = (True, s') \<Longrightarrow> dk_files (fst s') p = Some d"
    by (auto simp: migration_write_def dest: disk.write_ok split: if_splits prod.splits)
  show "migration_write L vs s p d x = (ok, s') \<Longrightarrow> dk_files (fst s') p = dk_files (fst s) p \<or> dk_files (fst s') p = Some d"
    by (auto simp: migration_write_def dest: disk.write_either split: if_splits prod.splits)
  show "migration_write L vs s p d True = (ok, s') \<Longrightarrow> dk_files (fst s) p = Some c \<Longrightarrow> dk_files (fst s') p = Some c \<and> \<not> ok"
    by (auto simp: migration_write_def dest: disk.write_exclusive split: if_splits prod.splits)
qed

section \<open>The runtime lock\<close>

text \<open>The byte locks of the system: the process that holds the lock of a file.\<close>

type_synonym locks = "string \<rightharpoonup> nat"

definition Acquire :: "bool \<Rightarrow> nat \<Rightarrow> string \<Rightarrow> locks \<Rightarrow> locks option" where
  "Acquire can_open me path locks =
     (if \<not> can_open then None else if locks path \<noteq> None then None else Some (locks(path \<mapsto> me)))"

definition Unlock :: "string \<Rightarrow> locks \<Rightarrow> locks" where
  "Unlock path locks = locks(path := None)"

lemma Acquire_Unlock: "Acquire c me path locks = Some locks1 \<Longrightarrow> Unlock path locks1 = locks"
  by (auto simp: Acquire_def Unlock_def split: if_splits)

section \<open>The entry\<close>

datatype entry_error = NoMachinePaths | NotDesignated | OtherDirectory | RootNotProtected | InUse | Migration migration_error

record migration_world =
  mw_disk :: protected_disk
  mw_locks :: locks

definition MigratePrivateKeyProtection ::
    "path_lib \<Rightarrow> id_lib \<Rightarrow> (string \<Rightarrow> string) \<Rightarrow> codec \<Rightarrow> (nat \<Rightarrow> view) \<Rightarrow> bool \<Rightarrow> nat \<Rightarrow> app_paths option
      \<Rightarrow> string \<Rightarrow> string \<Rightarrow> migration_world \<Rightarrow> (entry_error + bool) \<times> migration_world" where
  "MigratePrivateKeyProtection L I sha codec vs can_open me machine identityPath enrollmentPath w =
     (case machine of
        None \<Rightarrow> (Inl NoMachinePaths, w)
      | Some paths \<Rightarrow>
          if \<not> pl_fold L (pl_clean L identityPath) (ap_identity paths)
             \<or> \<not> pl_fold L (pl_clean L enrollmentPath) (ap_enrollment paths) then (Inl NotDesignated, w)
          else
            let root = pl_dir L identityPath
            in if pl_dir L enrollmentPath \<noteq> root then (Inl OtherDirectory, w)
               else if \<not> ValidateDirectory L (vs (snd (mw_disk w))) root then (Inl RootNotProtected, w)
               else
                 let lock = pl_join L [root, ''.runtime.lock'']
                 in case Acquire can_open me lock (mw_locks w) of
                      None \<Rightarrow> (Inl InUse, w)
                    | Some locked \<Rightarrow>
                        (case migratePrivateKeyProtection I sha (migration_read L vs) (migration_write L vs) codec
                                identityPath enrollmentPath (mw_disk w) of
                           (r, d) \<Rightarrow> ((case r of Inl e \<Rightarrow> Inl (Migration e) | Inr b \<Rightarrow> Inr b),
                                      \<lparr>mw_disk = d, mw_locks = Unlock lock locked\<rparr>)))"

text \<open>
  C3. The administrative migration of the key protection is safe end to end: it changes the disk only
  for the designated identity, below a directory that passed the checks and while no other process holds the
  runtime lock, which is free again afterwards.  No file but the identity and its backup changes, an
  existing backup is kept, and the identity file holds the original, or a candidate that decodes to the same
  agent and the same key pair, with the original in the backup.  Every error but an unverified
  rollback means that the original is in place; success means that the verified candidate is.
\<close>

theorem production_migration_safe:
  assumes "MigratePrivateKeyProtection L I sha codec vs can_open me machine path enrollmentPath w = (r, w')"
  shows "mw_locks w' = mw_locks w
    \<and> (mw_disk w' \<noteq> mw_disk w \<longrightarrow>
         ValidateDirectory L (vs (snd (mw_disk w))) (pl_dir L path)
         \<and> mw_locks w (pl_join L [pl_dir L path, ''.runtime.lock'']) = None
         \<and> (\<exists>paths. machine = Some paths \<and> pl_fold L (pl_clean L path) (ap_identity paths)))
    \<and> (\<forall>q. q \<noteq> path \<and> q \<noteq> path @ privateKeyBackupSuffix \<longrightarrow>
         dk_files (fst (mw_disk w')) q = dk_files (fst (mw_disk w)) q)
    \<and> (\<forall>b. dk_files (fst (mw_disk w)) (path @ privateKeyBackupSuffix) = Some b \<longrightarrow>
         dk_files (fst (mw_disk w')) (path @ privateKeyBackupSuffix) = Some b)
    \<and> (r \<noteq> Inr False \<and> r \<noteq> Inl (Migration RollbackUnverified) \<longrightarrow>
         dk_files (fst (mw_disk w')) path = dk_files (fst (mw_disk w)) path)
    \<and> (r = Inr False \<or> dk_files (fst (mw_disk w')) path \<noteq> dk_files (fst (mw_disk w)) path \<longrightarrow>
         (\<exists>original cfg key candidate. dk_files (fst (mw_disk w)) path = Some original
            \<and> dk_files (fst (mw_disk w')) path = Some candidate
            \<and> dk_files (fst (mw_disk w')) (path @ privateKeyBackupSuffix) = Some original
            \<and> DecodeIdentity I original = Inr cfg
            \<and> privateKeyFromIdentity I original False (co_unprotect codec) = Inr key
            \<and> verifyMigratedIdentity I candidate cfg key (co_unprotect codec)))"
proof (cases "\<exists>e. r = Inl e \<and> w' = w \<and> (\<forall>m. e \<noteq> Migration m)")
  case True
  then show ?thesis by auto
next
  case False
  let ?lock = "pl_join L [pl_dir L path, ''.runtime.lock'']"
  from False assms obtain paths locked r1 d where
    p: "machine = Some paths" "pl_fold L (pl_clean L path) (ap_identity paths)"
      "ValidateDirectory L (vs (snd (mw_disk w))) (pl_dir L path)" "Acquire can_open me ?lock (mw_locks w) = Some locked"
    and m: "migratePrivateKeyProtection I sha (migration_read L vs) (migration_write L vs) codec path enrollmentPath
        (mw_disk w) = (r1, d)"
    and r: "r = (case r1 of Inl e \<Rightarrow> Inl (Migration e) | Inr b \<Rightarrow> Inr b)"
      "w' = \<lparr>mw_disk = d, mw_locks = Unlock ?lock locked\<rparr>"
    by (auto simp: MigratePrivateKeyProtection_def Let_def split: option.splits if_splits prod.splits)
  have l: "Unlock ?lock locked = mw_locks w" "mw_locks w ?lock = None"
    using p(4) Acquire_Unlock by (auto simp: Acquire_def split: if_splits)
  have rr: "(r = Inr False) = (r1 = Inr False)" "(r = Inl (Migration RollbackUnverified)) = (r1 = Inl RollbackUnverified)"
    using r(1) by (auto split: sum.splits)
  from protected_disk.migration_safe [OF m] show ?thesis
    unfolding rr by (simp add: r(2) l p) blast
qed

section \<open>Examples\<close>

definition trusting_view :: view where
  "trusting_view =
     \<lparr>vw_entry = (\<lambda>p. if p = ''/d'' then Inr DirectoryEntry else Inr RegularFile),
      vw_attributes = (\<lambda>_. Some 0),
      vw_security = (\<lambda>p. Some (sample_descriptor (canonicalDACL (p = ''/d''))))\<rparr>"

definition sample_id_path :: string where "sample_id_path = ''/d/agent_config.json''"
definition sample_en_path :: string where "sample_en_path = ''/d/enrollment_state.json''"

definition trusted_place :: "string \<Rightarrow> bool" where
  "trusted_place q \<longleftrightarrow> vw_entry trusting_view q = Inr RegularFile \<and> ValidateFile unix_paths trusting_view q
     \<and> pl_dir unix_paths q = ''/d''"

lemma trusted_places:
  "trusted_place sample_id_path" "trusted_place (sample_id_path @ privateKeyBackupSuffix)" "trusted_place sample_en_path"
  "ValidateDirectory unix_paths trusting_view ''/d''"
  by code_simp+

lemma sample_places:
  "pl_dir unix_paths sample_id_path = ''/d''" "pl_dir unix_paths sample_en_path = ''/d''"
  "pl_fold unix_paths (pl_clean unix_paths sample_id_path) (ap_identity (fromRoot unix_paths ''/d'' ''/p''))"
  "pl_fold unix_paths (pl_clean unix_paths sample_en_path) (ap_enrollment (fromRoot unix_paths ''/d'' ''/p''))"
  "sample_en_path \<noteq> sample_id_path" "sample_en_path \<noteq> sample_id_path @ privateKeyBackupSuffix"
  "privateKeyBackupSuffix \<noteq> []"
  by code_simp+

abbreviation plain_disk :: "(string \<rightharpoonup> string) \<Rightarrow> nat \<Rightarrow> protected_disk" where
  "plain_disk f n \<equiv> (\<lparr>dk_files = f, dk_read_fails = [], dk_writes = []\<rparr>, n)"

definition sample_world :: migration_world where
  "sample_world = \<lparr>mw_disk = plain_disk [sample_id_path \<mapsto> ''I''] 0, mw_locks = Map.empty\<rparr>"

definition sample_migration :: "(entry_error + bool) \<times> migration_world" where
  "sample_migration =
     MigratePrivateKeyProtection unix_paths sample_id_lib id sample_codec (\<lambda>_. trusting_view) True 1
       (Some (fromRoot unix_paths ''/d'' ''/p'')) sample_id_path sample_en_path sample_world"

lemma sample_reads:
  "trusted_place q \<Longrightarrow> f q = None \<Longrightarrow>
     migration_read unix_paths (\<lambda>_. trusting_view) (plain_disk f n) q = (Inl io_error.Missing, plain_disk f (Suc n))"
  "trusted_place q \<Longrightarrow> f q = Some [c] \<Longrightarrow>
     migration_read unix_paths (\<lambda>_. trusting_view) (plain_disk f n) q = (Inr [c], plain_disk f (Suc n))"
  by (auto simp: migration_read_def disk_read_def trusted_place_def Let_def)

lemma sample_writes:
  "trusted_place q \<Longrightarrow> exclusive \<longrightarrow> f q = None \<Longrightarrow>
     migration_write unix_paths (\<lambda>_. trusting_view) (plain_disk f n) q d exclusive = (True, plain_disk (f(q \<mapsto> d)) (Suc n))"
  using trusted_places(4)
  by (simp add: migration_write_def disk_write_def statefile_write_def fine_write_def trusted_place_def)

theorem production_migration_safe_witness:
  "fst sample_migration = Inr False \<and> mw_locks (snd sample_migration) = Map.empty
   \<and> dk_files (fst (mw_disk (snd sample_migration))) (sample_id_path @ privateKeyBackupSuffix) = Some ''I''"
proof -
  have "fst sample_migration = Inr False"
    by (simp add: sample_migration_def MigratePrivateKeyProtection_def sample_places sample_world_def trusted_places Acquire_def
        migratePrivateKeyProtection_def make_backup_def replace_identity_def sample_reads sample_writes sample_decodes(1) [simplified]
        sample_keys(1) [simplified] sample_candidate [simplified] sample_verified [simplified]
        Let_def MachinePrivateKeyProtection_def)
  then obtain w' where r: "sample_migration = (Inr False, w')" by (metis prod.collapse)
  have "mw_locks sample_world = Map.empty" "dk_files (fst (mw_disk sample_world)) sample_id_path = Some ''I''"
    by (simp_all add: sample_world_def)
  with production_migration_safe [OF r [unfolded sample_migration_def]]
  have "mw_locks w' = Map.empty" "dk_files (fst (mw_disk w')) (sample_id_path @ privateKeyBackupSuffix) = Some ''I''"
    by auto
  then show ?thesis unfolding r fst_conv snd_conv by blast
qed

end
