(* ===== verification/CommandLine.thy ===== *)
theory CommandLine
  imports AgentRuntime KeyMigration
begin

text \<open>
  The command line, \<^verbatim>\<open>main.go\<close>: which of the modes runs, what each demands first, and what each may
  change.  The four kinds of state a mode can change are kept apart in one record: the identity files
  with the runtime lock, the access control lists, the registration of the Service, and the effects of
  the runtime.
\<close>

section \<open>Flags\<close>

record flags =
  fl_service :: bool
  fl_provision :: bool
  fl_migrate :: string
  fl_metadata :: bool
  fl_configure :: bool
  fl_migrate_key :: bool
  fl_verify_key :: bool
  fl_repair_acl :: bool
  fl_args :: "string list"

datatype cli_error =
    UnexpectedArguments | CannotCombine | MustBeLaunchedByScm | ScmCannotProvision | ScmCannotMaintain
  | MigrateNeedsProvision | NotElevated | ScmUnknown | NoPaths | ServiceRequirement scm_error | RuntimeInUse
  | KeyEntry entry_error | KeyLoad key_error | AclRefused security_error | RunFailed run_error

record cli_env =
  ce_lib :: path_lib
  ce_id :: id_lib
  ce_sha :: "string \<Rightarrow> string"
  ce_codec :: codec
  ce_views :: "nat \<Rightarrow> view"
  ce_can_open :: bool
  ce_pid :: nat
  ce_in_service :: "bool option"
  ce_scm :: scm
  ce_os :: os
  ce_run :: run_env
  ce_cwd :: "string option"

record cli_world =
  cw_keys :: migration_world
  cw_acl :: history
  cw_registration :: "scm_change list"
  cw_effects :: "effect list"

section \<open>Maintenance\<close>

text \<open>
  \<^verbatim>\<open>repairRuntimeACL\<close>: the gate of the startup, then its release.  The answers of \<^verbatim>\<open>RequireAdministrator\<close>
  and \<^verbatim>\<open>apppaths.Machine\<close> are the ones the queries of the Service manager use.
\<close>

definition repairRuntimeACL :: "cli_env \<Rightarrow> cli_world \<Rightarrow> cli_error option \<times> cli_world" where
  "repairRuntimeACL env w =
     (if \<not> sm_elevated (ce_scm env) then (Some NotElevated, w)
      else case ce_in_service env of
        None \<Rightarrow> (Some ScmUnknown, w)
      | Some True \<Rightarrow> (Some ScmCannotMaintain, w)
      | Some False \<Rightarrow>
          (case RequireStoppedOwnedService (ce_lib env) (ce_scm env) of
             Some e \<Rightarrow> (Some (ServiceRequirement e), w)
           | None \<Rightarrow>
               (case sm_paths (ce_scm env) of
                  None \<Rightarrow> (Some NoPaths, w)
                | Some paths \<Rightarrow>
                    (case EnsureRuntimeSecurity (ce_lib env) (ce_os env) (sm_paths (ce_scm env)) paths of
                       (Inl e, h) \<Rightarrow> (Some (AclRefused e), w\<lparr>cw_acl := cw_acl w @ h\<rparr>)
                     | (Inr (lock, ancestors), h) \<Rightarrow>
                         (None, w\<lparr>cw_acl := cw_acl w @ cleanup True [lock] ancestors h\<rparr>)))))"

text \<open>The plain read of \<^verbatim>\<open>LoadPrivateKey\<close>, on the state of the migration.\<close>

definition plain_read :: "protected_disk reader" where
  "plain_read s p = (case disk_read (fst s) p of (r, d) \<Rightarrow> (r, (d, Suc (snd s))))"

definition verify_key :: "cli_env \<Rightarrow> app_paths \<Rightarrow> migration_world \<Rightarrow> cli_error option \<times> migration_world" where
  "verify_key env paths w =
     (let L = ce_lib env; lock = pl_join L [ap_root paths, ''.runtime.lock'']
      in case Acquire (ce_can_open env) (ce_pid env) lock (mw_locks w) of
           None \<Rightarrow> (Some RuntimeInUse, w)
         | Some locked \<Rightarrow>
             (case LoadPrivateKey (ce_id env) plain_read
                     (ValidateFile L (ce_views env (Suc (snd (mw_disk w)))) (ap_identity paths))
                     (co_unprotect (ce_codec env)) (ap_identity paths) (mw_disk w) of
                (r, d) \<Rightarrow> ((case r of Inl e \<Rightarrow> Some (KeyLoad e) | Inr key \<Rightarrow> None),
                            \<lparr>mw_disk = d, mw_locks = Unlock lock locked\<rparr>)))"

definition maintainPrivateKey :: "cli_env \<Rightarrow> bool \<Rightarrow> cli_world \<Rightarrow> cli_error option \<times> cli_world" where
  "maintainPrivateKey env migrate w =
     (if \<not> sm_elevated (ce_scm env) then (Some NotElevated, w)
      else case ce_in_service env of
        None \<Rightarrow> (Some ScmUnknown, w)
      | Some True \<Rightarrow> (Some ScmCannotMaintain, w)
      | Some False \<Rightarrow>
          (case RequireStoppedForKeyMaintenance (ce_scm env) of
             Some e \<Rightarrow> (Some (ServiceRequirement e), w)
           | None \<Rightarrow>
               (case sm_paths (ce_scm env) of
                  None \<Rightarrow> (Some NoPaths, w)
                | Some paths \<Rightarrow>
                    if migrate
                    then (case MigratePrivateKeyProtection (ce_lib env) (ce_id env) (ce_sha env) (ce_codec env)
                                 (ce_views env) (ce_can_open env) (ce_pid env) (sm_paths (ce_scm env))
                                 (ap_identity paths) (ap_enrollment paths) (cw_keys w) of
                            (r, k) \<Rightarrow> ((case r of Inl e \<Rightarrow> Some (KeyEntry e) | Inr _ \<Rightarrow> None), w\<lparr>cw_keys := k\<rparr>))
                    else (case verify_key env paths (cw_keys w) of (r, k) \<Rightarrow> (r, w\<lparr>cw_keys := k\<rparr>)))))"

section \<open>Dispatch\<close>

text \<open>The agent's own run, in the mode given by its options.\<close>

definition agent_run :: "cli_env \<Rightarrow> options \<Rightarrow> cli_world \<Rightarrow> cli_error option \<times> cli_world" where
  "agent_run env opt w =
     (case RunAgent (ce_run env) opt (sm_paths (ce_scm env)) (ce_cwd env) of
        (r, es) \<Rightarrow> (map_option RunFailed r, w\<lparr>cw_effects := cw_effects w @ es\<rparr>))"

text \<open>The modes that start the agent, after the maintenance modes were ruled out.\<close>

definition run_agent_modes :: "cli_env \<Rightarrow> flags \<Rightarrow> cli_world \<Rightarrow> cli_error option \<times> cli_world" where
  "run_agent_modes env fl w =
     (case ce_in_service env of
        None \<Rightarrow> (Some ScmUnknown, w)
      | Some inService \<Rightarrow>
          if fl_service fl \<and> \<not> inService then (Some MustBeLaunchedByScm, w)
          else if inService then
            (if fl_provision fl \<or> fl_migrate fl \<noteq> [] then (Some ScmCannotProvision, w)
             else agent_run env \<lparr>op_service = True, op_provision = False, op_source = []\<rparr> w)
          else if fl_provision fl \<and> \<not> sm_elevated (ce_scm env) then (Some NotElevated, w)
          else if fl_migrate fl \<noteq> [] \<and> \<not> fl_provision fl then (Some MigrateNeedsProvision, w)
          else agent_run env \<lparr>op_service = False, op_provision = fl_provision fl, op_source = fl_migrate fl\<rparr> w)"

definition run_main :: "cli_env \<Rightarrow> flags \<Rightarrow> cli_world \<Rightarrow> cli_error option \<times> cli_world" where
  "run_main env fl w =
     (if fl_args fl \<noteq> [] then (Some UnexpectedArguments, w)
      else if fl_repair_acl fl then
        (if fl_migrate_key fl \<or> fl_verify_key fl \<or> fl_configure fl \<or> fl_provision fl \<or> fl_service fl \<or> fl_metadata fl
            \<or> fl_migrate fl \<noteq> []
         then (Some CannotCombine, w) else repairRuntimeACL env w)
      else if fl_migrate_key fl \<or> fl_verify_key fl then
        (if (fl_migrate_key fl \<and> fl_verify_key fl) \<or> fl_configure fl \<or> fl_provision fl \<or> fl_service fl \<or> fl_metadata fl
            \<or> fl_migrate fl \<noteq> []
         then (Some CannotCombine, w) else maintainPrivateKey env (fl_migrate_key fl) w)
      else if fl_configure fl then
        (if fl_provision fl \<or> fl_service fl \<or> fl_metadata fl \<or> fl_migrate fl \<noteq> []
         then (Some CannotCombine, w)
         else (case Configure (ce_lib env) (ce_scm env) of
                 (r, changes) \<Rightarrow> (map_option ServiceRequirement r,
                                   w\<lparr>cw_registration := cw_registration w @ changes\<rparr>)))
      else if fl_metadata fl then ((if sm_paths (ce_scm env) = None then Some NoPaths else None), w)
      else run_agent_modes env fl w)"

section \<open>What a mode may change\<close>

text \<open>The command line of each mode.\<close>

definition no_flags :: flags where
  "no_flags =
     \<lparr>fl_service = False, fl_provision = False, fl_migrate = [], fl_metadata = False, fl_configure = False,
      fl_migrate_key = False, fl_verify_key = False, fl_repair_acl = False, fl_args = []\<rparr>"

lemma agent_run_only:
  "cw_keys (snd (agent_run env opt w)) = cw_keys w \<and> cw_acl (snd (agent_run env opt w)) = cw_acl w
   \<and> cw_registration (snd (agent_run env opt w)) = cw_registration w"
  by (simp add: agent_run_def split: prod.split)

lemma run_agent_modes_only:
  "cw_keys (snd (run_agent_modes env fl w)) = cw_keys w \<and> cw_acl (snd (run_agent_modes env fl w)) = cw_acl w
   \<and> cw_registration (snd (run_agent_modes env fl w)) = cw_registration w"
  by (simp add: run_agent_modes_def agent_run_only split: option.split)

lemma repair_only:
  "cw_keys (snd (repairRuntimeACL env w)) = cw_keys w \<and> cw_effects (snd (repairRuntimeACL env w)) = cw_effects w
   \<and> cw_registration (snd (repairRuntimeACL env w)) = cw_registration w
   \<and> (cw_acl (snd (repairRuntimeACL env w)) \<noteq> cw_acl w \<longrightarrow>
        sm_elevated (ce_scm env) \<and> ce_in_service env = Some False
        \<and> RequireStoppedOwnedService (ce_lib env) (ce_scm env) = None)"
  by (auto simp: repairRuntimeACL_def split: option.splits sum.splits prod.splits bool.splits)

lemma maintain_only:
  "cw_acl (snd (maintainPrivateKey env m w)) = cw_acl w \<and> cw_effects (snd (maintainPrivateKey env m w)) = cw_effects w
   \<and> cw_registration (snd (maintainPrivateKey env m w)) = cw_registration w
   \<and> (cw_keys (snd (maintainPrivateKey env m w)) \<noteq> cw_keys w \<longrightarrow>
        sm_elevated (ce_scm env) \<and> ce_in_service env = Some False
        \<and> RequireStoppedForKeyMaintenance (ce_scm env) = None)"
  by (auto simp: maintainPrivateKey_def split: option.splits sum.splits prod.splits bool.splits if_splits)

lemma maintain_verify_cases:
  assumes "maintainPrivateKey env False w = (r, w')"
  shows "w' = w \<and> r \<noteq> None
    \<or> (\<exists>paths k. sm_paths (ce_scm env) = Some paths \<and> verify_key env paths (cw_keys w) = (r, k) \<and> w' = w\<lparr>cw_keys := k\<rparr>)"
proof (cases "sm_elevated (ce_scm env) \<and> ce_in_service env = Some False
    \<and> RequireStoppedForKeyMaintenance (ce_scm env) = None \<and> sm_paths (ce_scm env) \<noteq> None")
  case True
  then obtain paths where "sm_paths (ce_scm env) = Some paths" by blast
  with True assms show ?thesis
    by (cases "verify_key env paths (cw_keys w)") (simp add: maintainPrivateKey_def)
next
  case False
  with assms show ?thesis
    unfolding maintainPrivateKey_def by (simp split: option.splits bool.splits if_splits) blast+
qed

lemma run_main_effects:
  assumes "cw_effects (snd (run_main env fl w)) \<noteq> cw_effects w"
  shows "snd (run_main env fl w) = snd (run_agent_modes env fl w) \<and> \<not> fl_repair_acl fl \<and> \<not> fl_migrate_key fl
    \<and> \<not> fl_verify_key fl \<and> \<not> fl_configure fl \<and> \<not> fl_metadata fl \<and> fl_args fl = []
    \<and> cw_effects (snd (run_agent_modes env fl w)) \<noteq> cw_effects w"
proof -
  have "fl_args fl = []" using assms by (simp add: run_main_def split: if_splits)
  moreover from this have "\<not> fl_repair_acl fl"
    using assms repair_only [of env w] by (auto simp: run_main_def split: if_splits)
  moreover from calculation have "\<not> (fl_migrate_key fl \<or> fl_verify_key fl)"
    using assms maintain_only [of env "fl_migrate_key fl" w] unfolding run_main_def by (simp split: if_splits)
  moreover from calculation have "\<not> fl_configure fl"
    using assms by (cases "Configure (ce_lib env) (ce_scm env)") (simp add: run_main_def split: if_splits)
  moreover from calculation have "\<not> fl_metadata fl"
    using assms by (simp add: run_main_def split: if_splits)
  ultimately show ?thesis using assms by (simp add: run_main_def)
qed


lemma verify_key_reads_only:
  assumes "verify_key env paths w = (r, w')"
  shows "dk_files (fst (mw_disk w')) = dk_files (fst (mw_disk w)) \<and> mw_locks w' = mw_locks w
    \<and> (r = None \<longrightarrow> (\<exists>data cfg key. DecodeIdentity (ce_id env) data = Inr cfg
         \<and> dk_files (fst (mw_disk w)) (ap_identity paths) = Some data
         \<and> ag_protection cfg = MachinePrivateKeyProtection
         \<and> length key = 64 \<and> il_derive (ce_id env) (take 32 key) = key
         \<and> b64_decode False (ag_public_key cfg) = Some (drop 32 key)))"
proof (cases "r = Some RuntimeInUse \<and> w' = w")
  case False
  let ?lock = "pl_join (ce_lib env) [ap_root paths, ''.runtime.lock'']"
  let ?v = "ValidateFile (ce_lib env) (ce_views env (Suc (snd (mw_disk w)))) (ap_identity paths)"
  obtain locked where l: "Acquire (ce_can_open env) (ce_pid env) ?lock (mw_locks w) = Some locked"
    using assms False by (auto simp: verify_key_def Let_def split: option.splits)
  obtain lr d where m: "LoadPrivateKey (ce_id env) plain_read ?v (co_unprotect (ce_codec env)) (ap_identity paths) (mw_disk w) = (lr, d)"
    by (rule prod.exhaust)
  have w': "r = (case lr of Inl e \<Rightarrow> Some (KeyLoad e) | Inr key \<Rightarrow> None)" "mw_disk w' = d" "mw_locks w' = mw_locks w"
    using assms l m Acquire_Unlock [OF l] by (auto simp: verify_key_def Let_def)
  have pure: "dk_files (fst s') = dk_files (fst s)" if "plain_read s p = (x, s')" for s p x s'
    using that disk.read_pure by (fastforce simp: plain_read_def split: prod.splits)
  have read: "dk_files (fst s) p = Some data" "DecodeIdentity (ce_id env) data = Inr cfg"
    if "readIdentity (ce_id env) plain_read p s = (Inr (data, cfg), s')" for s p data cfg s'
    using that disk.read_data by (fastforce simp: readIdentity_def plain_read_def
        split: prod.splits sum.splits io_error.splits if_splits)+
  have "dk_files (fst d) = dk_files (fst (mw_disk w))"
    using m pure by (auto simp: LoadPrivateKey_def readIdentity_def split: prod.splits sum.splits io_error.splits if_splits)
  moreover have "\<exists>data cfg key. DecodeIdentity (ce_id env) data = Inr cfg
         \<and> dk_files (fst (mw_disk w)) (ap_identity paths) = Some data
         \<and> ag_protection cfg = MachinePrivateKeyProtection
         \<and> length key = 64 \<and> il_derive (ce_id env) (take 32 key) = key
         \<and> b64_decode False (ag_public_key cfg) = Some (drop 32 key)" if "r = None"
  proof -
    from that w'(1) obtain key where "lr = Inr key" by (auto split: sum.splits)
    with LoadPrivateKey_ok [of "ce_id env" plain_read ?v "co_unprotect (ce_codec env)" "ap_identity paths" "mw_disk w" key d] m read
    show ?thesis by blast
  qed
  ultimately show ?thesis using w' by blast
qed simp

text \<open>
  Verifying the private key changes no file and leaves the lock as it was; it succeeds only when
  the stored identity is protected for the machine and its key pair belongs together.
\<close>

theorem verification_reads_only:
  assumes "run_main env (no_flags\<lparr>fl_verify_key := True\<rparr>) w = (r, w')"
  shows "dk_files (fst (mw_disk (cw_keys w'))) = dk_files (fst (mw_disk (cw_keys w)))
    \<and> mw_locks (cw_keys w') = mw_locks (cw_keys w)
    \<and> (r = None \<longrightarrow> (\<exists>paths data cfg key. sm_paths (ce_scm env) = Some paths
         \<and> dk_files (fst (mw_disk (cw_keys w))) (ap_identity paths) = Some data
         \<and> DecodeIdentity (ce_id env) data = Inr cfg \<and> ag_protection cfg = MachinePrivateKeyProtection
         \<and> length key = 64 \<and> il_derive (ce_id env) (take 32 key) = key
         \<and> b64_decode False (ag_public_key cfg) = Some (drop 32 key)))"
proof -
  have m: "maintainPrivateKey env False w = (r, w')"
    using assms by (simp add: run_main_def no_flags_def)
  show ?thesis
  proof (cases "w' = w \<and> r \<noteq> None")
    case False
    then obtain paths k where p: "sm_paths (ce_scm env) = Some paths" "verify_key env paths (cw_keys w) = (r, k)"
      "w' = w\<lparr>cw_keys := k\<rparr>"
      using maintain_verify_cases [OF m] by blast
    from verify_key_reads_only [OF p(2)] p(1,3) show ?thesis by auto
  qed auto
qed

section \<open>Examples\<close>

definition sample_machine :: app_paths where
  "sample_machine = (fromRoot unix_paths ''/d'' ''/p'')\<lparr>ap_identity := sample_id_path, ap_enrollment := sample_en_path\<rparr>"

definition sample_scm :: scm where
  "sample_scm =
     \<lparr>sm_elevated = True, sm_paths = Some sample_machine, sm_executable = None, sm_connect = True, sm_open = ServiceMissing,
      sm_create = False, sm_state = None, sm_config = False, sm_descriptor = False, sm_security = False,
      sm_recovery = False, sm_noncrash = False, sm_update = False\<rparr>"

definition sample_cli :: "bool \<Rightarrow> cli_env" where
  "sample_cli inService =
     \<lparr>ce_lib = unix_paths, ce_id = sample_id_lib, ce_sha = id, ce_codec = sample_codec, ce_views = (\<lambda>_. trusting_view),
      ce_can_open = True, ce_pid = 1, ce_in_service = Some inService, ce_scm = sample_scm, ce_os = busy_os,
      ce_run = sample_run, ce_cwd = None\<rparr>"

definition sample_cli_world :: cli_world where
  "sample_cli_world =
     \<lparr>cw_keys = \<lparr>mw_disk = plain_disk [sample_id_path \<mapsto> ''C''] 0, mw_locks = Map.empty\<rparr>,
      cw_acl = [], cw_registration = [], cw_effects = []\<rparr>"


theorem verification_reads_only_witness:
  "run_main (sample_cli False) (no_flags\<lparr>fl_verify_key := True\<rparr>) sample_cli_world
     = (None, sample_cli_world\<lparr>cw_keys := \<lparr>mw_disk = plain_disk [sample_id_path \<mapsto> ''C''] 1, mw_locks = Map.empty\<rparr>\<rparr>)
   \<and> b64_decode False (ag_public_key (sample_identity (''m'' @ sample_seed @ sample_seed) ''dpapi-machine-v1''))
     = Some (drop 32 (sample_seed @ sample_seed))"
proof -
  have v: "ValidateFile unix_paths trusting_view sample_id_path"
    using trusted_places(1) by (simp add: trusted_place_def)
  have l: "LoadPrivateKey sample_id_lib plain_read True (co_unprotect sample_codec) sample_id_path
      (plain_disk [sample_id_path \<mapsto> ''C''] 0) = (Inr (sample_seed @ sample_seed), plain_disk [sample_id_path \<mapsto> ''C''] 1)"
    by (simp add: LoadPrivateKey_def readIdentity_def plain_read_def disk_read_def Let_def sample_decodes sample_keys,
        simp add: sample_identity_def MachinePrivateKeyProtection_def)
  have r: "run_main (sample_cli False) (no_flags\<lparr>fl_verify_key := True\<rparr>) sample_cli_world
     = (None, sample_cli_world\<lparr>cw_keys := \<lparr>mw_disk = plain_disk [sample_id_path \<mapsto> ''C''] 1, mw_locks = Map.empty\<rparr>\<rparr>)"
    by (simp add: run_main_def no_flags_def maintainPrivateKey_def sample_cli_def sample_scm_def RequireStoppedForKeyMaintenance_def
        verify_key_def Let_def sample_machine_def sample_cli_world_def Acquire_def Unlock_def v l [simplified])
  from verification_reads_only [OF r] r show ?thesis
    by (auto simp: sample_decodes(2) [simplified] sample_cli_def sample_scm_def sample_machine_def sample_cli_world_def)
qed

end
