(* ===== verification/EndToEnd.thy ===== *)
theory EndToEnd
  imports AgentRuntime DownloadRun
begin

text \<open>
  Properties that span components: what the runtime of \<open>AgentRuntime\<close> sets up, used by the components it
  starts.  Here the answers that \<open>AgentRuntime\<close> takes from an environment are those of the models.
\<close>

section \<open>Downloads and the runtime directory\<close>

text \<open>The answer of \<^verbatim>\<open>download.ValidateRoots\<close> as the runtime sees it.\<close>

definition configured_roots :: "string \<Rightarrow> string list \<Rightarrow> string \<Rightarrow> string \<Rightarrow> string list option" where
  "configured_roots dir roots rt inst =
     (case ValidateRoots dir roots rt inst of Inl _ \<Rightarrow> None | Inr cleaned \<Rightarrow> Some cleaned)"

text \<open>
  What no download may reach: the runtime directory except below its data directory, and the installed
  program.
\<close>

definition private_path :: "app_paths \<Rightarrow> string \<Rightarrow> bool" where
  "private_path p q \<longleftrightarrow>
     (prefix (clean_list (ap_root p)) (clean_list q) \<and> \<not> prefix (clean_list (ap_root p) @ [''data'']) (clean_list q))
     \<or> prefix (clean_list (ap_install p)) (clean_list q)"

lemma Join2_elements:
  assumes "IsAbs d" and "plain_element f" and "plain_element g"
  shows "clean_list (Join [d, f, g]) = clean_list d @ [f, g]"
proof -
  have ne: "d \<noteq> ''''" "f \<noteq> ''''" "g \<noteq> ''''" using assms by (auto simp: IsAbs_iff plain_element_def)
  have a: "IsAbs (d @ slash # f)" "IsAbs ((d @ slash # f) @ slash # g)" using assms(1) by (auto simp: IsAbs_iff)
  have l: "clean_list ((d @ slash # f) @ slash # g) = clean_list d @ [f, g]"
    using clean_list_child [OF a(1) assms(3)] clean_list_child [OF assms(1,2)] by simp
  have "Join [d, f, g] = Clean ((d @ slash # f) @ slash # g)" using ne by (simp add: Join_def)
  also have "\<dots> = unparse_path True (clean_list d @ [f, g])" using Clean_root [OF a(2)] l by simp
  finally show ?thesis
    using clean_list_unparse clean_list_abs_plain [OF assms(1)] assms(2,3) by simp
qed

lemma private_files:
  assumes "IsAbs root" and "p = fromRoot unix_paths root install"
  shows "private_path p (ap_identity p)" "private_path p (ap_enrollment p)" "private_path p (ap_config p)"
    "private_path p (ap_log p)" "private_path p (RuntimeLock unix_paths p)"
proof -
  have f: "plain_element ''agent_config.json''" "plain_element ''enrollment_state.json''" "plain_element ''.env''"
    "plain_element ''.runtime.lock''" "plain_element ''logs''" "plain_element ''agent.log''"
    by (simp_all add: plain_element_def)
  note one = Join_child_elements [OF assms(1) f(1)] Join_child_elements [OF assms(1) f(2)]
    Join_child_elements [OF assms(1) f(3)] Join_child_elements [OF assms(1) f(4)] Join2_elements [OF assms(1) f(5,6)]
  show "private_path p (ap_identity p)" "private_path p (ap_enrollment p)" "private_path p (ap_config p)"
    "private_path p (ap_log p)" "private_path p (RuntimeLock unix_paths p)"
    using one by (simp_all add: private_path_def assms(2) fromRoot_def RuntimeLock_def unix_paths_def)
qed

lemma run_migration_downloads:
  "ConfiguredDownloads dir roots \<in> set (snd (run_migration env opt dir1 roots1)) \<Longrightarrow> dir = dir1 \<and> roots = roots1"
  by (auto simp: run_migration_def run_identity_def run_client_def split: if_splits option.splits)


section \<open>Proofs and the enrolled key\<close>

text \<open>
  C14. End to end, every proof that leaves the machine verifies under the public key the agent is
  enrolled with: it is a signature, over the transcript of this run's own hello and the challenge it
  accepted, by the machine-protected key whose public half is the one of the identity loaded at
  startup.  Ed25519 itself is a parameter; used of it is that a key derived from its seed signs what its
  public half verifies.
\<close>

theorem proofs_verify_under_enrolled_key:
  assumes "SendProof p \<in> set (fst (authenticate (ag_id identity) ld env))"
    and "LoadPrivateKey L rd validated unprotect path s = (loaded, s1)"
    and "env_key env = connection_key identity loaded"
    and "\<And>key m. length key = 64 \<Longrightarrow> il_derive L (take 32 key) = key \<Longrightarrow> verify (drop 32 key) m (env_sign env key m)"
  shows "validated \<and> (\<exists>i nonce ch tr public sig. CanonicalID (ag_id identity) = Inr i
      \<and> SendHello (the_hello i nonce) \<in> set (fst (authenticate (ag_id identity) ld env))
      \<and> accepted_challenge env = Some ch \<and> Transcript i (challenge_id ch) nonce (challenge_server_nonce ch) = Inr tr
      \<and> p = the_proof (challenge_id ch) sig \<and> b64_encode public = ag_public_key identity \<and> verify public tr sig)"
proof -
  obtain i nonce ch tr key where c: "CanonicalID (ag_id identity) = Inr i"
      "SendHello (the_hello i nonce) \<in> set (fst (authenticate (ag_id identity) ld env))"
      "accepted_challenge env = Some ch" "Transcript i (challenge_id ch) nonce (challenge_server_nonce ch) = Inr tr"
      "p = the_proof (challenge_id ch) (env_sign env key tr)" and k: "env_key env = Inr key"
    using sent_proof [OF assms(1)] by blast
  from k assms(3) have b: "connection_key identity loaded = Inr key" by simp
  note bound = connection_key_Inr [OF assms(2) b]
  with assms(4) [of key tr] have "verify (drop 32 key) tr (env_sign env key tr)" by blast
  with c bound show ?thesis by blast
qed

section \<open>Examples\<close>

definition sample_dirs :: app_paths where
  "sample_dirs = fromRoot unix_paths ''/srv/a'' ''/opt/a''"

definition sample_service_run :: AgentRuntime.run_env where
  "sample_service_run = AgentRuntime.sample_run\<lparr>re_roots := configured_roots\<rparr>"

definition sample_downloads :: dl_config where
  "sample_downloads = sample_cfg\<lparr>cfg_directory := ''/srv/a/data/downloads'', cfg_roots := [''/srv/a/data/downloads'']\<rparr>"


definition sample_agent :: AgentConfig where
  "sample_agent = (sample_identity (''m'' @ sample_seed @ sample_seed) ''dpapi-machine-v1'')\<lparr>ag_id := sample_id\<rparr>"

theorem proofs_verify_under_enrolled_key_witness:
  "\<exists>p public. SendProof p \<in> set (fst (authenticate (ag_id sample_agent) True (sample_env\<lparr>env_key := Inr (sample_seed @ sample_seed)\<rparr>)))
     \<and> b64_encode public = ag_public_key sample_agent"
proof -
  let ?s = "sample_disk\<lparr>dk_files := [''id'' \<mapsto> ''C'']\<rparr>"
  let ?env = "sample_env\<lparr>env_key := Inr (sample_seed @ sample_seed)\<rparr>"
  let ?p = "the_proof (b64_encode sample_nonce) sample_transcript"
  have l: "LoadPrivateKey sample_id_lib disk_read True (co_unprotect sample_codec) ''id'' ?s
      = (Inr (sample_seed @ sample_seed), ?s)"
    by (simp add: LoadPrivateKey_def readIdentity_def disk_read_def sample_disk_def Let_def sample_decodes sample_keys,
        simp add: sample_identity_def MachinePrivateKeyProtection_def)
  have c: "env_key ?env = connection_key sample_agent (Inr (sample_seed @ sample_seed))"
    by (simp add: connection_key_def sample_agent_def)
  have p: "SendProof ?p \<in> set (fst (authenticate (ag_id sample_agent) True ?env))"
    by (simp add: sample_agent_def authenticate_defs sample_env_def sample_canonical Random_def Read_def MessageLimit_def
        sample_docs_def unmarshal_def find_field_def string_fields_def conv_string_def get_str_def
        challenge_of_def ok_of_def sample_signed the_hello_def the_proof_def Let_def)
  have v: "\<And>key m. length key = 64 \<Longrightarrow> il_derive sample_id_lib (take 32 key) = key \<Longrightarrow> env_sign ?env key m = m"
    by (simp add: sample_env_def)
  from proofs_verify_under_enrolled_key [where verify = "\<lambda>pub m sig. sig = m", OF p l c v] p show ?thesis by blast
qed

end
