(* ===== verification/Answers.thy ===== *)
theory Answers
  imports DownloadManager Outbox
begin

text \<open>
  Every download command gets its answer: the manager of \<open>DownloadManager\<close> together with the outbox of
  \<open>Outbox\<close>, to which the program gives it as its sender (\<^verbatim>\<open>ConfigureDownloads\<close> in \<^verbatim>\<open>client/client.go\<close>).  An answer is a
  final result; it is counted by the job it names.
\<close>

section \<open>Answers\<close>

fun answer :: "dl_event \<Rightarrow> string multiset" where
  "answer (EvResult r) = {#rs_job_id r#}"
| "answer _ = {#}"

fun action_answer :: "action \<Rightarrow> string multiset" where
  "action_answer (ASend ev) = answer ev"
| "action_answer _ = {#}"

definition answers :: "dl_event list \<Rightarrow> string multiset" where
  "answers evs = sum_list (map answer evs)"

definition action_answers :: "action list \<Rightarrow> string multiset" where
  "action_answers acts = sum_list (map action_answer acts)"

lemma answers_simps [simp]:
  "answers [] = {#}" "answers (ev # evs) = answer ev + answers evs" "answers (evs @ evs') = answers evs + answers evs'"
  "action_answers [] = {#}" "action_answers (a # acts) = action_answer a + action_answers acts"
  "action_answers (acts @ acts') = action_answers acts + action_answers acts'"
  by (simp_all add: answers_def action_answers_def)

text \<open>The answers that the jobs in flight still owe.\<close>

definition owed :: "(DownloadCommand \<times> action list) list \<Rightarrow> string multiset" where
  "owed rs = sum_list (map (\<lambda>(c, acts). action_answers acts) rs)"

lemma owed_simps [simp]:
  "owed [] = {#}" "owed (r # rs) = action_answers (snd r) + owed rs" "owed (rs @ rs') = owed rs + owed rs'"
  by (simp_all add: owed_def split: prod.split)

definition due :: "manager \<Rightarrow> string multiset" where
  "due m =
     mset (map dc_job_id (chan_buf (mgr_jobs m))) + owed (mgr_running m)
     + mset (map dc_job_id (mgr_rejecting m))"

text \<open>
  Whether an event asks for an answer: a command that is refused, a new one and one whose result is
  remembered do; one that is under way only gets its status, and a closed manager says nothing.
\<close>

fun asked :: "mgr_lib \<Rightarrow> manager \<Rightarrow> mgr_event \<Rightarrow> string multiset" where
  "asked L m (SubmitEvent now c) =
     (if validate (lib_uuid_ok L) (lib_parse L) now (mgr_cfg m) c \<noteq> None then {#dc_job_id c#}
      else if mgr_closed m then {#}
      else if mgr_completed m (commandAttemptKey L c) \<noteq> None then {#dc_job_id c#}
      else if mgr_active m (commandAttemptKey L c) \<noteq> None then {#}
      else {#dc_job_id c#})"
| "asked L m (RejectEvent c msg) = {#dc_job_id c#}"
| "asked L m e = {#}"

section \<open>The results of a job name the job\<close>

definition names_job :: "DownloadCommand \<Rightarrow> action \<Rightarrow> bool" where
  "names_job c a =
     (case a of ASend (EvResult r) \<Rightarrow> rs_job_id r = dc_job_id c | ARemember r \<Rightarrow> rs_job_id r = dc_job_id c | _ \<Rightarrow> True)"

lemma names_job_simps [simp]:
  "names_job c (failAt agent c e n)" "names_job c (fail agent c e)" "names_job c (pw_emit agent c p)"
  "names_job c (pw_final agent c n p)" "names_job c (ASetStatus st)"
  "names_job c (ARemember (completed_result agent c n h))" "names_job c (ASend (EvResult (completed_result agent c n h)))"
  by (simp_all add: names_job_def failAt_def fail_def pw_emit_def pw_final_def completed_result_def)

lemma copy_body_names: "copy_body agent c p cks rf = (w, e, p', acts) \<Longrightarrow> list_all (names_job c) acts"
proof (induction agent c p cks rf arbitrary: w e p' acts rule: copy_body.induct)
  case (1 agent c p rf)
  then show ?case by simp
next
  case (2 agent c p ck cks rf)
  then show ?case
    by (fastforce simp: pw_write_def Let_def split: if_splits prod.splits option.splits)
qed

lemma verify_names: "list_all (names_job c) (fst (run_verify sha env agent c d part n fs))"
  by (simp add: run_verify_def Let_def split: option.split)

lemma copy_names: "list_all (names_job c) (fst (run_copy sha env agent c d part resp fs))"
  using verify_names
  by (auto simp: run_copy_def Let_def dest: copy_body_names split: prod.split) (metis fst_conv)+

lemma transfer_names: "list_all (names_job c) (fst (run_transfer sha env agent c d part fs))"
  using copy_names by (auto simp: run_transfer_def Let_def split: sum.split request_error.split prod.split) (metis fst_conv)+

lemma run_names: "list_all (names_job c) (fst (run sha env cfg agent c fs))"
  using transfer_names by (auto simp: run_def Let_def split: sum.split option.split prod.split) (metis fst_conv)+

lemma action_answers_none: "list_all (\<lambda>a. \<not> is_result a) acts \<Longrightarrow> action_answers acts = {#}"
proof (induction acts)
  case (Cons a acts)
  then have "action_answer a = {#}" by (cases a rule: action_answer.cases) (auto simp: is_result_def split: dl_event.splits)
  with Cons show ?case by simp
qed simp

text \<open>A job owes one answer, to its own command.\<close>

lemma run_answers: "action_answers (fst (run sha env cfg agent c fs)) = {#dc_job_id c#}"
proof -
  let ?acts = "fst (run sha env cfg agent c fs)"
  have o: "?acts \<noteq> []" "is_result (last ?acts)" "list_all (\<lambda>a. \<not> is_result a) (butlast ?acts)"
    using run_one_result by (auto simp: one_result_def)
  have n: "names_job c (last ?acts)" using run_names o(1) by (metis last_in_set list_all_iff)
  have "action_answer (last ?acts) = {#dc_job_id c#}"
    using o(2) n by (auto simp: is_result_def names_job_def split: action.splits dl_event.splits)
  moreover have "action_answers ?acts = action_answers (butlast ?acts) + action_answer (last ?acts)"
    using answers_simps(6) [of "butlast ?acts" "[last ?acts]"] o(1) by simp
  ultimately show ?thesis using action_answers_none [OF o(3)] by simp
qed

section \<open>The key of an attempt names its job\<close>

lemma hex_char_not_nul: "n < 16 \<Longrightarrow> CHR 0x00 \<noteq> hex_char n"
proof
  assume "n < 16" "CHR 0x00 = hex_char n"
  then have "hex_val (CHR 0x00) = Some n" by simp
  then show False by (simp add: hex_val_def Let_def)
qed

lemma hex_encode_no_nul: "CHR 0x00 \<notin> set (hex_encode bs)"
proof (induction bs)
  case (Cons b bs)
  have "byte_nat b div 16 < 16" "byte_nat b mod 16 < 16" using byte_nat_less [of b] by (auto simp: less_mult_imp_div_less)
  with Cons hex_char_not_nul show ?case by auto
qed simp

lemma split_last:
  assumes "xs @ z # ys = xs' @ z # ys'" and "z \<notin> set ys" and "z \<notin> set ys'"
  shows "xs = xs' \<and> ys = ys'"
  using assms
proof (induction xs arbitrary: xs')
  case Nil
  then show ?case by (cases xs') auto
next
  case (Cons x xs)
  then show ?case by (cases xs') auto
qed

lemma commandAttemptKey_job: "commandAttemptKey L c = commandAttemptKey L c' \<Longrightarrow> dc_job_id c = dc_job_id c'"
  unfolding commandAttemptKey_def using split_last [OF _ hex_encode_no_nul hex_encode_no_nul] by simp

section \<open>One step\<close>

text \<open>What is remembered and what the workers will do names the right jobs.\<close>

definition names_ok :: "mgr_lib \<Rightarrow> manager \<Rightarrow> bool" where
  "names_ok L m \<longleftrightarrow>
     (\<forall>k r. mgr_completed m k = Some r \<longrightarrow> (\<exists>c. k = commandAttemptKey L c \<and> rs_job_id r = dc_job_id c))
     \<and> (\<forall>(c, acts) \<in> set (mgr_running m). list_all (names_job c) acts)"

lemma mgr_fail_answer [simp]: "answers (mgr_sent (mgr_fail c e m)) = add_mset (dc_job_id c) (answers (mgr_sent m))"
  "due (mgr_fail c e m) = due m" "names_ok L (mgr_fail c e m) = names_ok L m"
  by (simp_all add: mgr_fail_def fail_def failAt_def due_def names_ok_def)

lemma due_send [simp]: "due (mgr_send ev m) = due m" "names_ok L (mgr_send ev m) = names_ok L m"
  by (simp_all add: due_def names_ok_def)

lemma perform_answer:
  assumes "names_job c a" and "names_ok L m"
  shows "answers (mgr_sent (perform L c a m)) = answers (mgr_sent m) + action_answer a"
    and "due (perform L c a m) = due m" and "names_ok L (perform L c a m)"
proof -
  have "mgr_sent (remember k r m) = mgr_sent m" for k r by (simp add: remember_def Let_def)
  then show "answers (mgr_sent (perform L c a m)) = answers (mgr_sent m) + action_answer a"
    by (cases a) (simp_all add: perform_def setStatus_def status_message_def)
  show "due (perform L c a m) = due m"
    by (cases a) (simp_all add: perform_def setStatus_def due_def)
  have "names_ok L (remember (commandAttemptKey L c) r m)" if "rs_job_id r = dc_job_id c" for r
    using assms(2) that by (auto simp: names_ok_def remember_def Let_def)
  with assms show "names_ok L (perform L c a m)"
    by (cases a) (auto simp: perform_def setStatus_def names_ok_def names_job_def)
qed

lemma worker_take_answer:
  assumes "names_ok L m"
  shows "names_ok L (worker_take L env fs m)" and "mgr_sent (worker_take L env fs m) = mgr_sent m"
    and "due (worker_take L env fs m) \<subseteq># due m" and "\<not> mgr_cancelled m \<Longrightarrow> due (worker_take L env fs m) = due m"
proof -
  let ?acts = "\<lambda>c. fst (run (lib_sha L) (env\<lparr>env_interval := mgr_interval m\<rparr>) (mgr_cfg m) (mgr_agent m) c fs)"
  consider "worker_take L env fs m = m"
    | c q where "chan_try_recv (mgr_jobs m) = Some (c, q)" "worker_take L env fs m =
        m\<lparr>mgr_jobs := q, mgr_running := mgr_running m @ [(c, if mgr_cancelled m then [] else ?acts c)]\<rparr>"
  proof (cases "int (length (mgr_running m)) < cfg_max_concurrent (mgr_cfg m) \<and> chan_try_recv (mgr_jobs m) \<noteq> None")
    case True
    then obtain c q where "chan_try_recv (mgr_jobs m) = Some (c, q)" by fastforce
    with True that(2) show thesis by (simp add: worker_take_def Let_def)
  next
    case False
    then have "worker_take L env fs m = m"
      by (cases "chan_try_recv (mgr_jobs m)") (auto simp: worker_take_def)
    with that(1) show thesis .
  qed
  then have "names_ok L (worker_take L env fs m) \<and> mgr_sent (worker_take L env fs m) = mgr_sent m
    \<and> due (worker_take L env fs m) \<subseteq># due m \<and> (\<not> mgr_cancelled m \<longrightarrow> due (worker_take L env fs m) = due m)"
  proof cases
    case (2 c q)
    have "chan_buf (mgr_jobs m) = c # chan_buf q" using ch.recv_some [OF 2(1)] by simp
    with 2(2) assms run_names run_answers show ?thesis by (simp add: names_ok_def due_def)
  qed (use assms in simp)
  then show "names_ok L (worker_take L env fs m)" "mgr_sent (worker_take L env fs m) = mgr_sent m"
    "due (worker_take L env fs m) \<subseteq># due m" "\<not> mgr_cancelled m \<Longrightarrow> due (worker_take L env fs m) = due m" by blast+
qed

lemma worker_step_answer:
  assumes "names_ok L m"
  shows "names_ok L (worker_step L i m)"
    and "answers (mgr_sent (worker_step L i m)) + due (worker_step L i m) = answers (mgr_sent m) + due m"
proof -
  have "names_ok L (worker_step L i m)
    \<and> answers (mgr_sent (worker_step L i m)) + due (worker_step L i m) = answers (mgr_sent m) + due m"
  proof (cases "i < length (mgr_running m)")
    case True
    obtain c acts where r: "mgr_running m ! i = (c, acts)" by fastforce
    have l: "mgr_running m = take i (mgr_running m) @ (c, acts) # drop (i + 1) (mgr_running m)"
      using id_take_nth_drop [OF True] r by simp
    have n: "list_all (names_job c) acts" using assms True r by (metis (no_types, lifting) case_prodD names_ok_def nth_mem)
    show ?thesis
    proof (cases acts)
      case Nil
      let ?m = "m\<lparr>mgr_running := take i (mgr_running m) @ drop (i + 1) (mgr_running m)\<rparr>"
      have w: "worker_step L i m = finish (commandAttemptKey L c) ?m" using True r Nil by (simp add: worker_step_def)
      have "set (mgr_running ?m) \<subseteq> set (mgr_running m)" using set_take_subset set_drop_subset by fastforce
      then have "names_ok L ?m" using assms by (auto simp: names_ok_def)
      moreover have "due m = due ?m"
        using arg_cong [OF l, of owed] by (simp add: due_def Nil)
      ultimately show ?thesis by (simp add: w finish_def names_ok_def due_def)
    next
      case (Cons a as)
      let ?m = "m\<lparr>mgr_running := (mgr_running m)[i := (c, as)]\<rparr>"
      have w: "worker_step L i m = perform L c a ?m" using True r Cons by (simp add: worker_step_def)
      have u: "(mgr_running m)[i := (c, as)] = take i (mgr_running m) @ (c, as) # drop (i + 1) (mgr_running m)"
        using True by (simp add: upd_conv_take_nth_drop)
      have "set (mgr_running ?m) \<subseteq> insert (c, as) (set (mgr_running m))" by (simp add: set_update_subset_insert)
      then have "names_ok L ?m" using assms n Cons by (auto simp: names_ok_def)
      moreover have "due m = due ?m + action_answer a"
        using arg_cong [OF l, of owed] by (simp add: due_def Cons u ac_simps)
      moreover have "names_job c a" using n Cons by simp
      ultimately show ?thesis using perform_answer [of c a L ?m] by (simp add: w)
    qed
  qed (use assms in \<open>simp add: worker_step_def\<close>)
  then show "names_ok L (worker_step L i m)"
    "answers (mgr_sent (worker_step L i m)) + due (worker_step L i m) = answers (mgr_sent m) + due m" by blast+
qed

lemma Submit_answer:
  assumes "names_ok L m"
  shows "names_ok L (Submit L now c m)"
    and "answers (mgr_sent (Submit L now c m)) + due (Submit L now c m) = answers (mgr_sent m) + due m + asked L m (SubmitEvent now c)"
proof -
  let ?key = "commandAttemptKey L c"
  have r: "rs_job_id r = dc_job_id c" if "mgr_completed m ?key = Some r" for r
    using assms that commandAttemptKey_job unfolding names_ok_def by metis
  have "names_ok L (Submit L now c m)
    \<and> answers (mgr_sent (Submit L now c m)) + due (Submit L now c m) = answers (mgr_sent m) + due m + asked L m (SubmitEvent now c)"
  proof (cases "validate (lib_uuid_ok L) (lib_parse L) now (mgr_cfg m) c = None \<and> \<not> mgr_closed m
      \<and> mgr_completed m ?key = None \<and> mgr_active m ?key = None")
    case False
    then show ?thesis using assms r
      by (auto simp: Submit_def Let_def status_message_def split: option.split)
  next
    case True
    show ?thesis
    proof (cases "chan_try_send (mgr_jobs m) c")
      case None
      then show ?thesis using True assms by (simp add: Submit_def Let_def names_ok_def due_def)
    next
      case (Some q)
      have "chan_buf q = chan_buf (mgr_jobs m) @ [c]" using ch.send_some [OF Some] by simp
      with Some True assms show ?thesis by (simp add: Submit_def Let_def names_ok_def due_def)
    qed
  qed
  then show "names_ok L (Submit L now c m)"
    "answers (mgr_sent (Submit L now c m)) + due (Submit L now c m) = answers (mgr_sent m) + due m + asked L m (SubmitEvent now c)"
    by blast+
qed

lemma finish_reject_answer:
  assumes "names_ok L m"
  shows "names_ok L (finish_reject L m)"
    and "answers (mgr_sent (finish_reject L m)) + due (finish_reject L m) = answers (mgr_sent m) + due m"
proof -
  have f: "names_ok L (finish k (m\<lparr>mgr_rejecting := cs\<rparr>)) \<and> mgr_sent (finish k (m\<lparr>mgr_rejecting := cs\<rparr>)) = mgr_sent m"
    for k cs using assms by (simp add: finish_def names_ok_def)
  have "due (finish k (m\<lparr>mgr_rejecting := cs\<rparr>)) + {#dc_job_id c#} = due m" if "mgr_rejecting m = c # cs" for k c cs
    using that by (simp add: finish_def due_def)
  with f show "names_ok L (finish_reject L m)"
    "answers (mgr_sent (finish_reject L m)) + due (finish_reject L m) = answers (mgr_sent m) + due m"
    using assms by (fastforce simp: finish_reject_def split: list.split)+
qed

text \<open>
  A step asks for answers, gives them or moves them; only a manager that was cancelled forgets them, and
  none is ever invented.
\<close>

lemma mgr_step_answer:
  assumes "names_ok L m"
  shows "names_ok L (mgr_step L m e)"
    and "answers (mgr_sent (mgr_step L m e)) + due (mgr_step L m e) \<subseteq># answers (mgr_sent m) + due m + asked L m e"
    and "\<not> mgr_cancelled m \<Longrightarrow>
      answers (mgr_sent (mgr_step L m e)) + due (mgr_step L m e) = answers (mgr_sent m) + due m + asked L m e"
proof -
  have "names_ok L (mgr_step L m e)
    \<and> answers (mgr_sent (mgr_step L m e)) + due (mgr_step L m e) \<subseteq># answers (mgr_sent m) + due m + asked L m e
    \<and> (\<not> mgr_cancelled m \<longrightarrow>
      answers (mgr_sent (mgr_step L m e)) + due (mgr_step L m e) = answers (mgr_sent m) + due m + asked L m e)"
  proof (cases e)
    case (SubmitEvent now c)
    with Submit_answer [OF assms, of now c] show ?thesis by (simp del: asked.simps)
  next
    case FinishReject
    with finish_reject_answer [OF assms] show ?thesis by simp
  next
    case (RejectEvent c msg)
    with assms show ?thesis by (simp add: Reject_def)
  next
    case (Take env fs)
    with worker_take_answer [OF assms, of env fs] show ?thesis by simp
  next
    case (Work i)
    with worker_step_answer [OF assms, of i] show ?thesis by simp
  next
    case CloseEvent
    with assms show ?thesis by (simp add: Close_def names_ok_def due_def)
  qed
  then show "names_ok L (mgr_step L m e)"
    "answers (mgr_sent (mgr_step L m e)) + due (mgr_step L m e) \<subseteq># answers (mgr_sent m) + due m + asked L m e"
    "\<not> mgr_cancelled m \<Longrightarrow>
      answers (mgr_sent (mgr_step L m e)) + due (mgr_step L m e) = answers (mgr_sent m) + due m + asked L m e"
    by blast+
qed

lemma mgr_step_sent: "\<exists>new. mgr_sent (mgr_step L m e) = mgr_sent m @ new"
proof -
  have fail: "\<exists>new. mgr_sent (mgr_fail c err m') = mgr_sent m' @ new" for c err m'
    using mgr_fail_send [of c err m'] by auto
  have rem: "mgr_sent (remember k r m') = mgr_sent m'" for k r m' by (simp add: remember_def Let_def)
  show ?thesis
  proof (cases e)
    case (SubmitEvent now c)
    then show ?thesis using fail
      by (auto simp: Submit_def Let_def split: option.split)
  next
    case FinishReject
    have "\<exists>new. mgr_sent (mgr_fail c err (finish k (m\<lparr>mgr_rejecting := cs\<rparr>))) = mgr_sent m @ new" for c err k cs
      using fail [of c err "finish k (m\<lparr>mgr_rejecting := cs\<rparr>)"] by (simp add: finish_def)
    with FinishReject show ?thesis by (auto simp: finish_reject_def split: list.split)
  next
    case (RejectEvent c msg)
    then show ?thesis using fail by (simp add: Reject_def)
  next
    case (Take env fs)
    then show ?thesis by (auto simp: worker_take_def Let_def split: option.split)
  next
    case (Work i)
    then show ?thesis
      by (auto simp: worker_step_def perform_def setStatus_def finish_def rem split: prod.split list.split action.split)
  next
    case CloseEvent
    then show ?thesis by (simp add: Close_def)
  qed
qed

section \<open>The manager and its sender\<close>

text \<open>
  One step of either side.  What the manager sends goes to the outbox at once, in the goroutine that sends
  it; scans share the outbox.
\<close>

datatype link_event =
    ManagerStep mgr_event bool
  | ScanStep bool ScanResult
  | FlushTakeStep
  | FlushWriteStep bool
  | ConnectStep
  | DisconnectStep
  | StopStep

fun outbox_side :: "link_event \<Rightarrow> outbox \<Rightarrow> outbox" where
  "outbox_side (ManagerStep e w) ob = ob"
| "outbox_side (ScanStep w r) ob = outbox_step ob (SendEvent w (ScanEvent r))"
| "outbox_side FlushTakeStep ob = outbox_step ob FlushTake"
| "outbox_side (FlushWriteStep w) ob = outbox_step ob (FlushWrite w)"
| "outbox_side ConnectStep ob = outbox_step ob Connect"
| "outbox_side DisconnectStep ob = outbox_step ob Disconnect"
| "outbox_side StopStep ob = outbox_step ob StopEvent"

definition forward :: "bool \<Rightarrow> dl_event list \<Rightarrow> outbox \<Rightarrow> outbox" where
  "forward w evs ob = foldl (\<lambda>ob ev. outbox_step ob (SendEvent w (DownloadEvent ev))) ob evs"

fun link_step :: "mgr_lib \<Rightarrow> manager \<times> outbox \<Rightarrow> link_event \<Rightarrow> manager \<times> outbox" where
  "link_step L (m, ob) (ManagerStep e w) =
     (let m' = mgr_step L m e in (m', forward w (drop (length (mgr_sent m)) (mgr_sent m')) ob))"
| "link_step L (m, ob) e = (m, outbox_side e ob)"

fun link_asked :: "mgr_lib \<Rightarrow> manager \<times> outbox \<Rightarrow> link_event list \<Rightarrow> string multiset" where
  "link_asked L s [] = {#}"
| "link_asked L s (e # es) =
     (case e of ManagerStep e1 w \<Rightarrow> asked L (fst s) e1 | _ \<Rightarrow> {#}) + link_asked L (link_step L s e) es"

fun out_answer :: "outgoing \<Rightarrow> string multiset" where
  "out_answer (DownloadEvent ev) = answer ev"
| "out_answer (ScanEvent r) = {#}"

definition out_answers :: "outgoing list \<Rightarrow> string multiset" where
  "out_answers xs = sum_list (map out_answer xs)"

lemma out_answers_simps [simp]:
  "out_answers [] = {#}" "out_answers (x # xs) = out_answer x + out_answers xs"
  "out_answers (xs @ ys) = out_answers xs + out_answers ys"
  by (simp_all add: out_answers_def)

lemma out_answers_mset: "out_answers xs = sum_mset (image_mset out_answer (mset xs))"
  by (induction xs) simp_all

lemma out_answers_final: "out_answers (filter is_final_event xs) = out_answers xs"
proof (induction xs)
  case (Cons x xs)
  have "\<not> is_final_event x \<Longrightarrow> out_answer x = {#}"
    by (cases x rule: out_answer.cases) (auto simp: is_final_event_def split: dl_event.splits)
  with Cons show ?case by simp
qed simp

text \<open>Where the answers that were given are: on the wire, waiting, in the hand of the flush, or given up.\<close>

definition whereabouts :: "outbox \<Rightarrow> string multiset" where
  "whereabouts ob =
     out_answers (ob_wire ob) + out_answers (chan_buf (ob_pending ob)) + out_answers (held ob) + out_answers (ob_dropped ob)"

lemma whereabouts_submitted:
  assumes "outbox_inv ob"
  shows "whereabouts ob = out_answers (ob_submitted ob)"
proof -
  have "mset (filter is_final_event (ob_wire ob)) + mset (chan_buf (ob_pending ob)) + mset (held ob) + mset (ob_dropped ob)
      = mset (filter is_final_event (ob_submitted ob))" using assms by (simp add: outbox_inv_def)
  then have "mset (filter is_final_event (ob_wire ob) @ chan_buf (ob_pending ob) @ held ob @ ob_dropped ob)
      = mset (filter is_final_event (ob_submitted ob))" by (simp add: ac_simps)
  then have "out_answers (filter is_final_event (ob_wire ob) @ chan_buf (ob_pending ob) @ held ob @ ob_dropped ob)
      = out_answers (filter is_final_event (ob_submitted ob))" by (simp only: out_answers_mset)
  then show ?thesis by (simp add: out_answers_final whereabouts_def add.assoc)
qed

definition link_inv :: "mgr_lib \<Rightarrow> manager \<times> outbox \<Rightarrow> bool" where
  "link_inv L s \<longleftrightarrow> mgr_inv L (fst s) \<and> names_ok L (fst s) \<and> outbox_inv (snd s)
     \<and> (ob_stopping (snd s) \<or> out_answers (ob_submitted (snd s)) = answers (mgr_sent (fst s)))"

lemma send_submitted:
  "ob_stopping (outbox_step ob (SendEvent w msg)) = ob_stopping ob"
  "ob_submitted (outbox_step ob (SendEvent w msg)) = (if ob_stopping ob then ob_submitted ob else ob_submitted ob @ [msg])"
  by (simp_all add: sendDownloadEvent_def Let_def split: option.split)

lemma forward_ok:
  assumes "outbox_inv ob"
  shows "outbox_inv (forward w evs ob) \<and> ob_stopping (forward w evs ob) = ob_stopping ob
    \<and> (\<not> ob_stopping ob \<longrightarrow> out_answers (ob_submitted (forward w evs ob)) = out_answers (ob_submitted ob) + answers evs)"
  using assms
proof (induction evs arbitrary: ob)
  case (Cons ev evs)
  let ?ob = "outbox_step ob (SendEvent w (DownloadEvent ev))"
  have f: "forward w (ev # evs) ob = forward w evs ?ob" by (simp add: forward_def)
  have "outbox_inv ?ob" using Cons.prems by (rule outbox_step_inv)
  from Cons.IH [OF this] show ?case unfolding f send_submitted by (auto simp: ac_simps)
qed (simp add: forward_def)

lemma outbox_side_ok:
  assumes "link_inv L (m, ob)"
  shows "link_inv L (m, outbox_side e ob)"
proof -
  have ob: "outbox_inv ob" using assms by (simp add: link_inv_def)
  have i: "outbox_inv (outbox_side e ob)" using ob outbox_step_inv by (cases e) (simp_all del: outbox_step.simps)
  have s: "ob_stopping (outbox_side e ob) \<or> ob_stopping ob = ob_stopping (outbox_side e ob)
      \<and> out_answers (ob_submitted (outbox_side e ob)) = out_answers (ob_submitted ob)"
    using send_submitted
    by (cases e) (auto simp: flush_take_def flush_write_def Let_def simp del: outbox_step.simps(1) split: option.split)
  from assms i s show ?thesis by (auto simp: link_inv_def)
qed

lemma link_step_inv:
  assumes "link_inv L s"
  shows "link_inv L (link_step L s e)"
proof -
  obtain m ob where s: "s = (m, ob)" by fastforce
  have i: "mgr_inv L m" "names_ok L m" "outbox_inv ob"
    "ob_stopping ob \<or> out_answers (ob_submitted ob) = answers (mgr_sent m)"
    using assms by (simp_all add: link_inv_def s)
  show ?thesis
  proof (cases "\<exists>e1 w. e = ManagerStep e1 w")
    case True
    then obtain e1 w where e: "e = ManagerStep e1 w" by blast
    obtain new where n: "mgr_sent (mgr_step L m e1) = mgr_sent m @ new" using mgr_step_sent by blast
    have st: "link_step L s e = (mgr_step L m e1, forward w new ob)" by (simp add: s e Let_def n)
    have "mgr_inv L (mgr_step L m e1)" using i(1) by (rule mgr_step_inv)
    moreover have "names_ok L (mgr_step L m e1)" using i(2) by (rule mgr_step_answer)
    ultimately show ?thesis
      using forward_ok [OF i(3), of w new] i(4) unfolding st by (auto simp: link_inv_def n)
  next
    case False
    then have "link_step L s e = (m, outbox_side e ob)" by (cases e) (simp_all add: s)
    with outbox_side_ok assms s show ?thesis by metis
  qed
qed

lemma link_start:
  assumes "NewManager cwd l1 mk l2 cfg interval agent sender = Inr m"
  shows "link_inv L (m, new_outbox)" and "answers (mgr_sent m) + due m = {#}"
proof -
  obtain cfg2 where "m = started cfg2 interval agent" using NewManager_started [OF assms] by blast
  moreover have "mgr_inv L m" using assms NewManager_inv unfolding mgr_init_def by blast
  ultimately show "link_inv L (m, new_outbox)" "answers (mgr_sent m) + due m = {#}"
    using outbox_init by (simp_all add: link_inv_def names_ok_def due_def started_def new_outbox_def make_chan_def)
qed

interpretation link: event_machine "\<lambda>s. \<exists>cwd l1 mk l2 cfg i a b m. NewManager cwd l1 mk l2 cfg i a b = Inr m \<and> s = (m, new_outbox)"
  "link_step L" "link_inv L"
  by unfold_locales (auto intro: link_start link_step_inv)

lemma closed_stays: "mgr_closed m \<Longrightarrow> mgr_closed (mgr_step L m e)"
proof -
  assume c: "mgr_closed m"
  have f: "mgr_closed (mgr_fail k err m') = mgr_closed m'" for k err m' using mgr_fail_send [of k err m'] by auto
  show ?thesis using c
    by (cases e) (auto simp: Submit_def Let_def finish_reject_def finish_def Reject_def f worker_take_def worker_step_def perform_def
        setStatus_def Close_def split: option.split list.split prod.split action.split)
qed

lemma link_run_answers:
  "link_inv L s \<Longrightarrow> foldl (link_step L) s es = (m, ob) \<Longrightarrow>
     answers (mgr_sent m) + due m \<subseteq># answers (mgr_sent (fst s)) + due (fst s) + link_asked L s es
     \<and> (\<not> mgr_closed m \<longrightarrow> answers (mgr_sent m) + due m = answers (mgr_sent (fst s)) + due (fst s) + link_asked L s es)
     \<and> (mgr_closed (fst s) \<longrightarrow> mgr_closed m)"
proof (induction es arbitrary: s)
  case (Cons e es)
  obtain m0 ob0 where s: "s = (m0, ob0)" by fastforce
  note IH = Cons.IH [OF link_step_inv [OF Cons.prems(1), of e]]
  have i: "names_ok L m0" "mgr_closed m0 = mgr_cancelled m0"
    using Cons.prems(1) by (simp_all add: s link_inv_def mgr_inv_def)
  show ?case
  proof (cases "\<exists>e1 w. e = ManagerStep e1 w")
    case True
    then obtain e1 w where e: "e = ManagerStep e1 w" by blast
    have f: "fst (link_step L s e) = mgr_step L m0 e1" by (simp add: s e Let_def)
    have a: "link_asked L s (e # es) = asked L m0 e1 + link_asked L (link_step L s e) es" by (simp add: s e)
    note step = mgr_step_answer(2,3) [OF i(1), of e1]
    from IH Cons.prems(2) have r:
      "answers (mgr_sent m) + due m \<subseteq># answers (mgr_sent (mgr_step L m0 e1)) + due (mgr_step L m0 e1) + link_asked L (link_step L s e) es"
      "\<not> mgr_closed m \<Longrightarrow> answers (mgr_sent m) + due m
        = answers (mgr_sent (mgr_step L m0 e1)) + due (mgr_step L m0 e1) + link_asked L (link_step L s e) es"
      "mgr_closed (mgr_step L m0 e1) \<Longrightarrow> mgr_closed m"
      unfolding f by simp_all
    have "mgr_closed m0 \<Longrightarrow> mgr_closed m" using r(3) closed_stays by blast
    moreover have "answers (mgr_sent m) + due m \<subseteq># answers (mgr_sent m0) + due m0 + link_asked L s (e # es)"
      unfolding a by (rule subset_mset.order_trans [OF r(1)])
        (metis add.assoc mset_subset_eq_mono_add_right_cancel step(1))
    moreover have "answers (mgr_sent m) + due m = answers (mgr_sent m0) + due m0 + link_asked L s (e # es)" if "\<not> mgr_closed m"
      using r(2) [OF that] step(2) i(2) calculation(1) that unfolding a by (auto simp: ac_simps)
    ultimately show ?thesis by (simp add: s)
  next
    case False
    then have f: "fst (link_step L s e) = m0" "link_asked L s (e # es) = link_asked L (link_step L s e) es"
      by (cases e; simp add: s)+
    from IH Cons.prems(2) show ?thesis unfolding f by (simp add: s)
  qed
qed auto

text \<open>
  C25. Whatever the server, the disk and the connection do, every download command gets one answer, to the job
  it names: as long as neither side was closed, the final results on the wire, in the queue, in the hand
  of the flush and given up by a full queue are, together with those that the jobs in flight still
  owe, exactly the ones that were asked for.  No answer is given twice or invented, also after a close.
\<close>

theorem every_command_answered:
  assumes "NewManager cwd l1 mk l2 cfg interval agent sender = Inr m0"
    and "foldl (link_step L) (m0, new_outbox) es = (m, ob)" and "\<not> ob_stopping ob"
  shows "whereabouts ob + due m \<subseteq># link_asked L (m0, new_outbox) es
    \<and> (\<not> mgr_closed m \<longrightarrow> whereabouts ob + due m = link_asked L (m0, new_outbox) es)"
proof -
  note start = link_start(1) [OF assms(1), of L] link_start(2) [OF assms(1)]
  have "link_inv L (foldl (link_step L) (m0, new_outbox) es)" by (rule link.run_inv_from) (rule start(1))
  then have i: "outbox_inv ob" "out_answers (ob_submitted ob) = answers (mgr_sent m)"
    using assms(2,3) by (simp_all add: link_inv_def)
  with whereabouts_submitted have "whereabouts ob = answers (mgr_sent m)" by simp
  with link_run_answers [OF start(1) assms(2)] start(2) show ?thesis by simp
qed

section \<open>Example\<close>

definition sample_link_run :: "link_event list" where
  "sample_link_run =
     [ConnectStep, ManagerStep (SubmitEvent 5 sample_command) True, ManagerStep (SubmitEvent 5 sample_command) True]"

theorem every_command_answered_witness:
  "\<exists>m0 m ob. NewManager None (\<lambda>p. NotExist) True (\<lambda>p. Entry False) sample_cfg 0 ''A'' True = Inr m0
     \<and> foldl (link_step sample_lib) (m0, new_outbox) sample_link_run = (m, ob)
     \<and> whereabouts ob + due m = link_asked sample_lib (m0, new_outbox) sample_link_run"
proof -
  let ?r = "NewManager None (\<lambda>p. NotExist) True (\<lambda>p. Entry False) sample_cfg 0 ''A'' True"
  let ?ok = "\<lambda>s. \<not> ob_stopping (snd s) \<and> \<not> mgr_closed (fst s)"
  have c: "case ?r of Inl _ \<Rightarrow> False | Inr m0 \<Rightarrow> ?ok (foldl (link_step sample_lib) (m0, new_outbox) sample_link_run)"
    by code_simp
  then obtain m0 where r: "?r = Inr m0" by (auto split: sum.splits)
  obtain m ob where f: "foldl (link_step sample_lib) (m0, new_outbox) sample_link_run = (m, ob)" by fastforce
  from c have k: "\<not> ob_stopping ob" "\<not> mgr_closed m" by (simp_all add: r f)
  from every_command_answered [OF r f k(1)] k r f show ?thesis by blast
qed

end
