(* ===== verification/Serving.thy ===== *)
theory Serving
  imports Client Messages DownloadManager Antivirus AppsWorker HostServices
begin

text \<open>
  A connection that serves its messages: the handlers of \<^verbatim>\<open>runConnection\<close> in \<^verbatim>\<open>client/client.go\<close> over the machines
  of the components they call.  \<open>Messages\<close> decides what a frame asks for; here that is done, interleaved with
  the goroutines of the components.  Kill and power commands run in goroutines of their own.
\<close>

section \<open>State\<close>

datatype spawned = KillJob int | PowerJob string

datatype reply = KillReply kill_result | PowerReply power_result

record serving =
  sv_apps :: apps_worker
  sv_scans :: scan_manager
  sv_power :: HostServices.power_controller
  sv_downloads :: manager
  sv_performance :: "bool chan"
  sv_process :: "bool chan"
  sv_screen :: screen_streamer
  sv_spawned :: "spawned list"
  sv_killed :: "int list"
  sv_replies :: "reply list"
  sv_ended :: bool

text \<open>What a connection starts with: the managers are those of the client, the rest is its own.\<close>

definition new_connection :: "scan_manager \<Rightarrow> HostServices.power_controller \<Rightarrow> manager \<Rightarrow> bool \<Rightarrow> serving" where
  "new_connection scans ctl downloads capture =
     \<lparr>sv_apps = newInstalledAppsWorker, sv_scans = scans, sv_power = ctl, sv_downloads = downloads,
      sv_performance = make_chan 1, sv_process = make_chan 1, sv_screen = NewScreenStreamer capture,
      sv_spawned = [], sv_killed = [], sv_replies = [], sv_ended = False\<rparr>"

section \<open>Handlers\<close>

text \<open>The answers of the system while a frame is handled.\<close>

record frame_env =
  fe_now :: int
  fe_time :: string
  fe_is_abs :: "string \<Rightarrow> bool"
  fe_stat :: "string \<Rightarrow> string option"
  fe_taken :: bool

text \<open>
  One thing a frame asks for.  A send to a stream channel that would block is impossible
  (\<open>latest_request_wins\<close>), so that case leaves the channel alone.
\<close>

definition apply_effect :: "mgr_lib \<Rightarrow> frame_env \<Rightarrow> serving \<Rightarrow> effect \<Rightarrow> serving" where
  "apply_effect L fe s e =
     (case e of
        AppsSubmit r \<Rightarrow> s\<lparr>sv_apps := submit (fe_now fe) r (sv_apps s)\<rparr>
      | ScanReject c reason \<Rightarrow> s\<lparr>sv_scans := ScanManagerReject (fe_time fe) c reason (sv_scans s)\<rparr>
      | ScanSubmit c \<Rightarrow> s\<lparr>sv_scans := ScanManagerSubmit (fe_is_abs fe) (fe_stat fe) (fe_time fe) c (sv_scans s)\<rparr>
      | PowerStart r \<Rightarrow> s\<lparr>sv_spawned := sv_spawned s @ [PowerJob r]\<rparr>
      | DownloadReject c message \<Rightarrow> s\<lparr>sv_downloads := Reject c message (sv_downloads s)\<rparr>
      | DownloadSubmit c \<Rightarrow> s\<lparr>sv_downloads := Submit L (fe_now fe) c (sv_downloads s)\<rparr>
      | SetPerformance start \<Rightarrow>
          s\<lparr>sv_performance := (case setStreamState (fe_taken fe) start (sv_performance s) of None \<Rightarrow> sv_performance s | Some q \<Rightarrow> q)\<rparr>
      | SetProcess start \<Rightarrow>
          s\<lparr>sv_process := (case setStreamState (fe_taken fe) start (sv_process s) of None \<Rightarrow> sv_process s | Some q \<Rightarrow> q)\<rparr>
      | Messages.KillProcess pid \<Rightarrow> s\<lparr>sv_spawned := sv_spawned s @ [KillJob pid]\<rparr>
      | ScreenStart \<Rightarrow> s\<lparr>sv_screen := screen_step (sv_screen s) StartCall\<rparr>
      | ScreenStop \<Rightarrow> s\<lparr>sv_screen := screen_step (sv_screen s) StopCall\<rparr>)"

text \<open>
  The goroutine of a kill or power command.  \<open>killer\<close> is the process killer, \<open>directory\<close> says whether Windows
  tells its system directory.
\<close>

definition run_spawned :: "(int \<Rightarrow> bool) option \<Rightarrow> bool \<Rightarrow> spawned \<Rightarrow> serving \<Rightarrow> serving" where
  "run_spawned killer directory job s =
     (case job of
        KillJob pid \<Rightarrow>
          (case killProcess pid killer of
             (r, pids) \<Rightarrow> s\<lparr>sv_killed := sv_killed s @ pids, sv_replies := sv_replies s @ [KillReply r]\<rparr>)
      | PowerJob request \<Rightarrow>
          (case PowerShutdown (sv_ended s) directory (sv_power s) of
             (err, ctl) \<Rightarrow>
               (case handlePowerCommand (sv_ended s) (Some \<lparr>pc_mode = ''real'', pc_shutdown_ok = (err = None)\<rparr>) request of
                  (None, _) \<Rightarrow> s
                | (Some r, calls) \<Rightarrow>
                    s\<lparr>sv_power := (if calls = 0 then sv_power s else ctl), sv_replies := sv_replies s @ [PowerReply r]\<rparr>)))"

text \<open>
  Events: a frame arrives (a stop of the screen keeps the reader waiting), a goroutine of a command runs,
  a component goes on by itself, the connection ends, the client is closed.
\<close>

datatype serve_event =
    Frame frame_env bool nat "json option"
  | RunSpawned nat "(int \<Rightarrow> bool) option" bool
  | AppsWork "apps_result \<Rightarrow> nat option" apps_event
  | DownloadTake run_env files
  | DownloadWork nat
  | DownloadFinishReject
  | ScanWork nat string Report "string option"
  | ScansCancelled
  | PowerTimer
  | PowerCancelSeen
  | PowerEnded bool
  | PowerJoined
  | PerformanceTaken
  | ProcessTaken
  | ScreenWork frame_outcome
  | ScreenEnds
  | ConnectionEnded
  | CloseClient

definition serve_frame :: "mgr_lib \<Rightarrow> dispatch_env \<Rightarrow> frame_env \<Rightarrow> bool \<Rightarrow> nat \<Rightarrow> json option \<Rightarrow> serving \<Rightarrow> serving" where
  "serve_frame L env fe is_text len doc s =
     (if ss_waiting (sv_screen s) \<noteq> None \<or> sv_ended s then s
      else foldl (apply_effect L fe) s (read_step env is_text len doc))"

definition drain :: "bool chan \<Rightarrow> bool chan" where
  "drain q = (case chan_try_recv q of None \<Rightarrow> q | Some (_, q') \<Rightarrow> q')"

text \<open>The collector and the writer of the inventories; only frames submit.\<close>

definition apps_goes_on :: "(apps_result \<Rightarrow> nat option) \<Rightarrow> apps_event \<Rightarrow> apps_worker \<Rightarrow> apps_worker" where
  "apps_goes_on marshal a w = (case a of AppsSubmitEvent _ _ \<Rightarrow> w | _ \<Rightarrow> apps_step marshal w a)"

text \<open>\<^verbatim>\<open>Client.Close\<close>: power, downloads, scans, in this order.\<close>

definition close_client :: "serving \<Rightarrow> serving" where
  "close_client s =
     s\<lparr>sv_power := PowerClose (sv_power s), sv_downloads := Close (sv_downloads s),
       sv_scans := ScanManagerClose (sv_scans s)\<rparr>"

fun serve_step :: "mgr_lib \<Rightarrow> dispatch_env \<Rightarrow> serving \<Rightarrow> serve_event \<Rightarrow> serving" where
  "serve_step L env s (Frame fe is_text len doc) = serve_frame L env fe is_text len doc s"
| "serve_step L env s (RunSpawned i killer directory) =
     (if i < length (sv_spawned s)
      then run_spawned killer directory (sv_spawned s ! i)
             (s\<lparr>sv_spawned := take i (sv_spawned s) @ drop (i + 1) (sv_spawned s)\<rparr>)
      else s)"
| "serve_step L env s (AppsWork marshal a) = s\<lparr>sv_apps := apps_goes_on marshal a (sv_apps s)\<rparr>"
| "serve_step L env s (DownloadTake re fs) = s\<lparr>sv_downloads := worker_take L re fs (sv_downloads s)\<rparr>"
| "serve_step L env s (DownloadWork i) = s\<lparr>sv_downloads := worker_step L i (sv_downloads s)\<rparr>"
| "serve_step L env s DownloadFinishReject = s\<lparr>sv_downloads := finish_reject L (sv_downloads s)\<rparr>"
| "serve_step L env s (ScanWork i now report err) = s\<lparr>sv_scans := scan_step i now report err (sv_scans s)\<rparr>"
| "serve_step L env s ScansCancelled = s\<lparr>sv_scans := cancel_threads (sv_scans s)\<rparr>"
| "serve_step L env s PowerTimer = s\<lparr>sv_power := power_step (sv_power s) TimerFired\<rparr>"
| "serve_step L env s PowerCancelSeen = s\<lparr>sv_power := power_step (sv_power s) CancelSeen\<rparr>"
| "serve_step L env s (PowerEnded ok) = s\<lparr>sv_power := power_step (sv_power s) (CommandEnded ok)\<rparr>"
| "serve_step L env s PowerJoined = s\<lparr>sv_power := power_step (sv_power s) CloseReturned\<rparr>"
| "serve_step L env s PerformanceTaken = s\<lparr>sv_performance := drain (sv_performance s)\<rparr>"
| "serve_step L env s ProcessTaken = s\<lparr>sv_process := drain (sv_process s)\<rparr>"
| "serve_step L env s (ScreenWork r) = s\<lparr>sv_screen := screen_step (screen_step (sv_screen s) ScreenCancelled) (ScreenTick r)\<rparr>"
| "serve_step L env s ScreenEnds = s\<lparr>sv_screen := screen_step (sv_screen s) ScreenExit\<rparr>"
| "serve_step L env s ConnectionEnded = s\<lparr>sv_ended := True\<rparr>"
| "serve_step L env s CloseClient = close_client s"

section \<open>What the frames asked for\<close>

definition asked_by :: "dispatch_env \<Rightarrow> serve_event \<Rightarrow> effect list" where
  "asked_by env e = (case e of Frame fe is_text len doc \<Rightarrow> read_step env is_text len doc | _ \<Rightarrow> [])"

definition requested :: "dispatch_env \<Rightarrow> serve_event list \<Rightarrow> effect list" where
  "requested env es = concat (map (asked_by env) es)"

definition kills :: "effect list \<Rightarrow> int list" where
  "kills fs = List.map_filter (\<lambda>e. case e of Messages.KillProcess pid \<Rightarrow> Some pid | _ \<Rightarrow> None) fs"

definition shutdowns :: "effect list \<Rightarrow> string list" where
  "shutdowns fs = List.map_filter (\<lambda>e. case e of PowerStart r \<Rightarrow> Some r | _ \<Rightarrow> None) fs"

definition scans :: "effect list \<Rightarrow> ScanCommand list" where
  "scans fs = List.map_filter (\<lambda>e. case e of ScanSubmit c \<Rightarrow> Some c | _ \<Rightarrow> None) fs"

definition downloads :: "effect list \<Rightarrow> DownloadCommand list" where
  "downloads fs = List.map_filter (\<lambda>e. case e of DownloadSubmit c \<Rightarrow> Some c | _ \<Rightarrow> None) fs"

lemmas request_defs = kills_def shutdowns_def scans_def downloads_def

lemma request_append [simp]:
  "kills (fs @ gs) = kills fs @ kills gs" "shutdowns (fs @ gs) = shutdowns fs @ shutdowns gs"
  "scans (fs @ gs) = scans fs @ scans gs" "downloads (fs @ gs) = downloads fs @ downloads gs"
  "kills [] = []" "shutdowns [] = []" "scans [] = []" "downloads [] = []"
  by (simp_all add: request_defs map_filter_def)

text \<open>The goroutines of commands that have not run yet.\<close>

definition kill_jobs :: "spawned list \<Rightarrow> int list" where
  "kill_jobs js = List.map_filter (\<lambda>j. case j of KillJob pid \<Rightarrow> Some pid | PowerJob r \<Rightarrow> None) js"

definition power_jobs :: "spawned list \<Rightarrow> string list" where
  "power_jobs js = List.map_filter (\<lambda>j. case j of PowerJob r \<Rightarrow> Some r | KillJob pid \<Rightarrow> None) js"

lemma jobs_append [simp]:
  "kill_jobs (js @ ks) = kill_jobs js @ kill_jobs ks" "power_jobs (js @ ks) = power_jobs js @ power_jobs ks"
  "kill_jobs [] = []" "power_jobs [] = []"
  "kill_jobs (KillJob pid # js) = pid # kill_jobs js" "kill_jobs (PowerJob r # js) = kill_jobs js"
  "power_jobs (KillJob pid # js) = power_jobs js" "power_jobs (PowerJob r # js) = r # power_jobs js"
  by (simp_all add: kill_jobs_def power_jobs_def map_filter_def)

text \<open>
  The ledger of the connection: every action is paid for by a request, and none twice.  A shutdown that
  waits for its timer counts like one that started.
\<close>

definition paid :: "serving \<Rightarrow> effect list \<Rightarrow> bool" where
  "paid s fs \<longleftrightarrow>
     mset (sv_killed s) + mset (kill_jobs (sv_spawned s)) \<subseteq># mset (kills fs)
     \<and> (\<forall>pid \<in> set (sv_killed s). 0 < pid)
     \<and> pc_started (sv_power s) + (if pc_job (sv_power s) = Waiting then 1 else 0) + length (power_jobs (sv_spawned s))
         \<le> length (shutdowns fs)
     \<and> mset (sm_accepted (sv_scans s)) \<subseteq># mset (scans fs)
     \<and> mset (in_flight (sv_downloads s)) \<subseteq># mset (downloads fs)"

section \<open>Nothing is done unasked\<close>

lemma paid_more: "paid s fs \<Longrightarrow> paid s (fs @ gs)"
  unfolding paid_def by (auto intro: subset_mset.order_trans)

lemma Submit_in_flight: "mset (in_flight (Submit L now c m)) \<subseteq># add_mset c (mset (in_flight m))"
proof -
  have f: "in_flight (mgr_send ev m') = in_flight m'" for ev m' by (simp add: in_flight_def)
  have g: "in_flight (mgr_fail c err m') = in_flight m'" for err m' using mgr_fail_send [of c err m'] f by auto
  have "mset (in_flight (m\<lparr>mgr_active := a, mgr_jobs := q\<rparr>)) = add_mset c (mset (in_flight m))"
    if "chan_try_send (mgr_jobs m) c = Some q" for a q
    using ch.send_some [OF that] by (simp add: in_flight_def)
  moreover have "mset (in_flight (m\<lparr>mgr_active := a, mgr_rejecting := mgr_rejecting m @ [c]\<rparr>))
      = add_mset c (mset (in_flight m))" for a
    by (simp add: in_flight_def)
  ultimately show ?thesis by (simp add: Submit_def Let_def f g split: option.split)
qed

lemma request_one [simp]:
  "kills [e] = (case e of Messages.KillProcess pid \<Rightarrow> [pid] | _ \<Rightarrow> [])" "shutdowns [e] = (case e of PowerStart r \<Rightarrow> [r] | _ \<Rightarrow> [])"
  "scans [e] = (case e of ScanSubmit c \<Rightarrow> [c] | _ \<Rightarrow> [])" "downloads [e] = (case e of DownloadSubmit c \<Rightarrow> [c] | _ \<Rightarrow> [])"
  by (cases e; simp add: request_defs map_filter_def)+

lemma apply_effect_paid:
  assumes "paid s fs"
  shows "paid (apply_effect L fe s e) (fs @ [e])"
proof -
  have p: "paid s (fs @ [e])" using assms by (rule paid_more)
  show ?thesis
  proof (cases e)
    case (ScanSubmit c)
    then show ?thesis using assms p unfolding paid_def
      by (auto simp: apply_effect_def ScanManagerSubmit_def ScanManagerReject_def emit_def split: option.split)
  next
    case (DownloadSubmit c)
    then show ?thesis using assms Submit_in_flight [of L "fe_now fe" c "sv_downloads s"] unfolding paid_def
      by (auto simp: apply_effect_def intro: subset_mset.order_trans)
  next
    case (DownloadReject c msg)
    have "in_flight (Reject c msg (sv_downloads s)) = in_flight (sv_downloads s)"
      using mgr_fail_send [of c _ "sv_downloads s"] by (auto simp: Reject_def in_flight_def) (metis mgr_send_fields(4,8,9))+
    then show ?thesis using p DownloadReject by (simp add: apply_effect_def paid_def)
  qed (use assms p in \<open>auto simp: apply_effect_def paid_def ScanManagerReject_def emit_def\<close>)
qed

lemma frame_paid: "paid s fs \<Longrightarrow> paid (foldl (apply_effect L fe) s es) (fs @ es)"
proof (induction es arbitrary: s fs)
  case (Cons e es)
  from Cons.IH [OF apply_effect_paid [OF Cons.prems]] show ?case by simp
qed simp

lemma run_spawned_paid:
  assumes "sv_spawned s = js @ j # ks" and "paid s fs"
  shows "paid (run_spawned killer directory j (s\<lparr>sv_spawned := js @ ks\<rparr>)) fs"
proof (cases j)
  case (KillJob pid)
  have m: "mset (sv_killed s) + mset (kill_jobs js) + {#pid#} + mset (kill_jobs ks) \<subseteq># mset (kills fs)"
    using assms by (simp add: paid_def KillJob ac_simps)
  then have "mset (sv_killed s) + mset (kill_jobs js) + mset (kill_jobs ks) \<subseteq># mset (kills fs)"
    by (auto intro: subset_mset.order_trans [rotated])
  with m assms show ?thesis
    by (auto simp: KillJob run_spawned_def killProcess_def paid_def ac_simps split: option.split)
next
  case (PowerJob r)
  with assms show ?thesis
    by (auto simp: run_spawned_def handlePowerCommand_def PowerShutdown_def Let_def paid_def)
qed

lemma worker_in_flight:
  "mset (in_flight (worker_take L re fs m)) = mset (in_flight m)"
  "mset (in_flight (worker_step L i m)) \<subseteq># mset (in_flight m)"
  "mset (in_flight (finish_reject L m)) \<subseteq># mset (in_flight m)"
proof -
  show "mset (in_flight (worker_take L re fs m)) = mset (in_flight m)"
  proof (cases "chan_try_recv (mgr_jobs m)")
    case None
    then show ?thesis by (simp add: worker_take_def)
  next
    case (Some x)
    obtain c q where x: "x = (c, q)" by fastforce
    have "chan_buf (mgr_jobs m) = c # chan_buf q" using ch.recv_some [of "mgr_jobs m" c q] Some x by simp
    with Some x show ?thesis by (simp add: worker_take_def Let_def in_flight_def)
  qed
  have p: "in_flight (perform L c a m') = in_flight m'" for c a m'
    by (cases a) (simp_all add: perform_def setStatus_def in_flight_def)
  have f: "in_flight (finish k m') = in_flight m'" for k m' by (simp add: finish_def in_flight_def)
  show "mset (in_flight (worker_step L i m)) \<subseteq># mset (in_flight m)"
  proof (cases "i < length (mgr_running m)")
    case True
    obtain c acts where r: "mgr_running m ! i = (c, acts)" by fastforce
    have l: "map fst (mgr_running m) = map fst (take i (mgr_running m)) @ c # map fst (drop (i + 1) (mgr_running m))"
      using arg_cong [OF id_take_nth_drop [OF True], of "map fst"] r by simp
    show ?thesis
    proof (cases acts)
      case Nil
      with True r l show ?thesis by (simp add: worker_step_def f, simp add: in_flight_def)
    next
      case (Cons a as)
      have "map fst ((mgr_running m)[i := (c, as)]) = map fst (mgr_running m)"
        using True r by (metis fst_conv list_update_id map_update nth_map)
      with True r Cons show ?thesis by (simp add: worker_step_def p, simp add: in_flight_def)
    qed
  qed (simp add: worker_step_def)
  show "mset (in_flight (finish_reject L m)) \<subseteq># mset (in_flight m)"
  proof (cases "mgr_rejecting m")
    case (Cons c cs)
    have "in_flight (mgr_fail c err m') = in_flight m'" for err m'
      using mgr_fail_send [of c err m'] by (auto simp: in_flight_def)
    with Cons show ?thesis by (simp add: finish_reject_def f, simp add: in_flight_def)
  qed (simp add: finish_reject_def)
qed

lemma scan_accepted:
  "sm_accepted (scan_step i now rp err m) = sm_accepted m" "sm_accepted (cancel_threads m) = sm_accepted m"
  "sm_accepted (ScanManagerClose m) = sm_accepted m"
  by (simp_all add: scan_step_def Let_def cancel_threads_def ScanManagerClose_def split: scan_phase.split)

lemma power_paid:
  assumes "\<not> (\<exists>a b. e = ShutdownCall a b)"
  shows "pc_started (power_step c e) + (if pc_job (power_step c e) = Waiting then 1 else 0)
    \<le> pc_started c + (if pc_job c = Waiting then 1 else 0)"
  using assms by (cases e) (auto simp: power_step_def PowerClose_def)

lemma paid_parts:
  assumes "paid s fs"
  shows "mset (in_flight m) \<subseteq># mset (in_flight (sv_downloads s)) \<Longrightarrow> paid (s\<lparr>sv_downloads := m\<rparr>) fs"
    and "\<not> (\<exists>a b. pe = ShutdownCall a b) \<Longrightarrow> paid (s\<lparr>sv_power := power_step (sv_power s) pe\<rparr>) fs"
proof -
  show "paid (s\<lparr>sv_downloads := m\<rparr>) fs" if "mset (in_flight m) \<subseteq># mset (in_flight (sv_downloads s))"
    using assms that by (auto simp: paid_def intro: subset_mset.order_trans)
  show "paid (s\<lparr>sv_power := power_step (sv_power s) pe\<rparr>) fs" if "\<not> (\<exists>a b. pe = ShutdownCall a b)"
    using assms power_paid [OF that, of "sv_power s"] by (simp add: paid_def)
qed

lemma serve_step_paid:
  assumes "paid s fs"
  shows "paid (serve_step L env s e) (fs @ asked_by env e)"
proof (cases e)
  case (Frame fe t len doc)
  with frame_paid [OF assms] paid_more [OF assms] show ?thesis by (simp add: asked_by_def serve_frame_def)
next
  case (RunSpawned i killer directory)
  show ?thesis
  proof (cases "i < length (sv_spawned s)")
    case True
    from run_spawned_paid [OF id_take_nth_drop [OF True] assms] True RunSpawned show ?thesis by (simp add: asked_by_def)
  qed (use RunSpawned assms in \<open>simp add: asked_by_def\<close>)
next
  case CloseClient
  with assms show ?thesis by (simp add: asked_by_def close_client_def PowerClose_def Close_def scan_accepted paid_def in_flight_def)
qed (use assms paid_parts [OF assms] worker_in_flight in \<open>simp_all add: asked_by_def\<close>, simp_all add: paid_def scan_accepted)

lemma serve_run_paid: "paid s fs \<Longrightarrow> paid (foldl (serve_step L env) s es) (fs @ requested env es)"
proof (induction es arbitrary: s fs)
  case (Cons e es)
  from Cons.IH [OF serve_step_paid [OF Cons.prems]] show ?case by (simp add: requested_def)
qed (simp add: requested_def)

lemma new_connection_paid:
  assumes "NewManager cwd l1 mk l2 cfg interval agent sender = Inr m"
  shows "paid (new_connection new_scan_manager (NewPower d) m capture) []"
proof -
  obtain cfg2 where "m = started cfg2 interval agent" using NewManager_started [OF assms] by blast
  then show ?thesis
    by (simp add: paid_def new_connection_def new_scan_manager_def NewPower_def in_flight_def started_def make_chan_def)
qed

text \<open>A kill among the requests is a kill command in the text of a frame.\<close>

lemma on_message_no_kill: "Messages.KillProcess pid \<notin> set (on_message env len j)"
  by (auto simp: on_message_def handleVirusScan_def split: option.splits if_splits prod.splits)

lemma asked_kill:
  assumes "Messages.KillProcess pid \<in> set (asked_by env e)"
  shows "\<exists>fe len j. e = Frame fe True len (Some j) \<and> sc_kill (parseStreamCommand j) \<and> sc_kill_pid (parseStreamCommand j) = pid"
  using assms on_message_no_kill
  by (auto simp: asked_by_def read_step_def on_stream_command_def Let_def
      split: serve_event.splits option.splits if_splits streamKind.splits)

lemma requested_kill:
  "pid \<in> set (kills (requested env es)) \<Longrightarrow>
     \<exists>fe len j. Frame fe True len (Some j) \<in> set es \<and> sc_kill (parseStreamCommand j) \<and> sc_kill_pid (parseStreamCommand j) = pid"
proof (induction es)
  case (Cons e es)
  have "\<exists>x \<in> set (asked_by env e). x = Messages.KillProcess pid" if "pid \<in> set (kills (asked_by env e))"
    using that by (auto simp: kills_def map_filter_def split: effect.splits)
  with Cons show ?case using asked_kill [of pid env e] by (auto simp: requested_def)
qed (simp add: requested_def)


section \<open>A close is final\<close>

text \<open>The jobs that still have something to do.\<close>

definition busy_jobs :: "manager \<Rightarrow> DownloadCommand list" where
  "busy_jobs m = map fst (filter (\<lambda>(c, acts). acts \<noteq> []) (mgr_running m))"

definition live_inv :: "serving \<Rightarrow> bool" where
  "live_inv s \<longleftrightarrow> power_inv (sv_power s) \<and> mgr_closed (sv_downloads s) = mgr_cancelled (sv_downloads s)"

definition closed_inv :: "serving \<Rightarrow> bool" where
  "closed_inv s \<longleftrightarrow> live_inv s \<and> pc_closed (sv_power s) \<and> mgr_closed (sv_downloads s) \<and> sm_closed (sv_scans s)"

text \<open>What can only shrink once the client is closed.\<close>

definition no_more :: "serving \<Rightarrow> serving \<Rightarrow> bool" where
  "no_more s s' \<longleftrightarrow> pc_started (sv_power s') = pc_started (sv_power s) \<and> sm_accepted (sv_scans s') = sm_accepted (sv_scans s)
     \<and> mset (in_flight (sv_downloads s')) \<subseteq># mset (in_flight (sv_downloads s))
     \<and> mset (busy_jobs (sv_downloads s')) \<subseteq># mset (busy_jobs (sv_downloads s))"

lemma no_more_refl: "no_more s s" by (simp add: no_more_def)

lemma no_more_trans: "no_more s t \<Longrightarrow> no_more t u \<Longrightarrow> no_more s u"
  unfolding no_more_def by (auto intro: subset_mset.order_trans)

lemma mgr_flags:
  "mgr_closed (mgr_fail c e m) = mgr_closed m" "mgr_cancelled (mgr_fail c e m) = mgr_cancelled m"
  "mgr_running (mgr_fail c e m) = mgr_running m" "in_flight (mgr_fail c e m) = in_flight m"
  using mgr_fail_send [of c e m] by (auto simp: in_flight_def)

lemma Submit_flags:
  "mgr_closed (Submit L now c m) = mgr_closed m" "mgr_cancelled (Submit L now c m) = mgr_cancelled m"
  "mgr_closed m \<Longrightarrow> in_flight (Submit L now c m) = in_flight m \<and> mgr_running (Submit L now c m) = mgr_running m"
  by (auto simp: Submit_def Let_def mgr_flags split: option.split)

lemma perform_flags:
  "mgr_closed (perform L c a m) = mgr_closed m" "mgr_cancelled (perform L c a m) = mgr_cancelled m"
  "mgr_running (perform L c a m) = mgr_running m"
  by (cases a; simp add: perform_def setStatus_def)+

lemma worker_flags:
  "mgr_closed (worker_take L re fs m) = mgr_closed m" "mgr_cancelled (worker_take L re fs m) = mgr_cancelled m"
  "mgr_closed (worker_step L i m) = mgr_closed m" "mgr_cancelled (worker_step L i m) = mgr_cancelled m"
  "mgr_closed (finish_reject L m) = mgr_closed m" "mgr_cancelled (finish_reject L m) = mgr_cancelled m"
  "mgr_running (finish_reject L m) = mgr_running m"
  "mgr_closed (Reject c msg m) = mgr_closed m" "mgr_cancelled (Reject c msg m) = mgr_cancelled m"
  "mgr_running (Reject c msg m) = mgr_running m" "in_flight (Reject c msg m) = in_flight m"
  by (auto simp: worker_take_def worker_step_def finish_reject_def Reject_def Let_def finish_def perform_flags mgr_flags
      split: option.split list.split prod.split)

lemma busy_take: "mgr_cancelled m \<Longrightarrow> busy_jobs (worker_take L re fs m) = busy_jobs m"
  by (auto simp: worker_take_def Let_def busy_jobs_def split: option.split)

lemma busy_reject: "busy_jobs (finish_reject L m) = busy_jobs m"
  by (simp add: busy_jobs_def worker_flags)

lemma busy_step: "mset (busy_jobs (worker_step L i m)) \<subseteq># mset (busy_jobs m)"
proof (cases "i < length (mgr_running m)")
  case True
  obtain c acts where r: "mgr_running m ! i = (c, acts)" by fastforce
  have l: "busy_jobs m = map fst (filter (\<lambda>(c, acts). acts \<noteq> []) (take i (mgr_running m)))
      @ (if acts \<noteq> [] then [c] else []) @ map fst (filter (\<lambda>(c, acts). acts \<noteq> []) (drop (i + 1) (mgr_running m)))"
    unfolding busy_jobs_def by (subst id_take_nth_drop [OF True]) (simp add: r)
  show ?thesis
  proof (cases acts)
    case Nil
    with True r l show ?thesis by (simp add: worker_step_def busy_jobs_def finish_def)
  next
    case (Cons a as)
    have "(mgr_running m)[i := (c, as)] = take i (mgr_running m) @ (c, as) # drop (i + 1) (mgr_running m)"
      using True by (simp add: upd_conv_take_nth_drop)
    with True r l Cons show ?thesis by (auto simp: worker_step_def busy_jobs_def perform_flags)
  qed
qed (simp add: worker_step_def)

lemma PowerShutdown_flags:
  "power_inv c \<Longrightarrow> power_inv (snd (PowerShutdown ended directory c))"
  "pc_closed c \<Longrightarrow> snd (PowerShutdown ended directory c) = c"
  using power_step_inv [of c "ShutdownCall ended directory"] by (simp_all add: power_step_def PowerShutdown_def)

lemma run_spawned_parts:
  "sv_downloads (run_spawned killer directory j s) = sv_downloads s" "sv_scans (run_spawned killer directory j s) = sv_scans s"
  "sv_power (run_spawned killer directory j s) \<in> {sv_power s, snd (PowerShutdown (sv_ended s) directory (sv_power s))}"
  by (auto simp: run_spawned_def handlePowerCommand_def Let_def split: spawned.split prod.split option.split)

lemma apply_effect_live: "live_inv s \<Longrightarrow> live_inv (apply_effect L fe s e)"
  by (cases e) (simp_all add: apply_effect_def live_inv_def Submit_flags worker_flags)

lemma frame_live: "live_inv s \<Longrightarrow> live_inv (foldl (apply_effect L fe) s es)"
  by (induction es arbitrary: s) (simp_all add: apply_effect_live)

lemma serve_step_live:
  assumes "live_inv s"
  shows "live_inv (serve_step L env s e)"
proof (cases e)
  case (Frame fe t len doc)
  with assms frame_live show ?thesis by (simp add: serve_frame_def)
next
  case (RunSpawned i killer directory)
  with assms run_spawned_parts [of killer directory "sv_spawned s ! i" "s\<lparr>sv_spawned := take i (sv_spawned s) @ drop (i + 1) (sv_spawned s)\<rparr>"]
    PowerShutdown_flags(1) show ?thesis by (auto simp: live_inv_def)
next
  case CloseClient
  have "power_inv (PowerClose c)" if "power_inv c" for c using power_step_inv [OF that, of CloseCall] by (simp add: power_step_def)
  with CloseClient assms show ?thesis by (simp add: close_client_def live_inv_def Close_def)
qed (use assms power_step_inv worker_flags in \<open>simp_all add: live_inv_def\<close>)

lemma apply_effect_closed:
  assumes "closed_inv s"
  shows "closed_inv (apply_effect L fe s e) \<and> no_more s (apply_effect L fe s e)"
proof -
  have l: "live_inv (apply_effect L fe s e)" using assms apply_effect_live by (simp add: closed_inv_def)
  have c: "pc_closed (sv_power s)" "mgr_closed (sv_downloads s)" "sm_closed (sv_scans s)"
    using assms by (simp_all add: closed_inv_def)
  have "pc_closed (sv_power (apply_effect L fe s e)) \<and> mgr_closed (sv_downloads (apply_effect L fe s e))
      \<and> sm_closed (sv_scans (apply_effect L fe s e)) \<and> no_more s (apply_effect L fe s e)"
    using c Submit_flags(3) by (cases e)
      (auto simp: apply_effect_def no_more_def busy_jobs_def Submit_flags worker_flags ScanManagerSubmit_def ScanManagerReject_def emit_def
        split: option.split)
  with l show ?thesis by (simp add: closed_inv_def)
qed

lemma frame_closed: "closed_inv s \<Longrightarrow> closed_inv (foldl (apply_effect L fe) s es) \<and> no_more s (foldl (apply_effect L fe) s es)"
proof (induction es arbitrary: s)
  case (Cons e es)
  with apply_effect_closed [OF Cons.prems, of L fe e] no_more_trans show ?case by fastforce
qed (simp add: no_more_refl)

lemma scan_closed:
  "sm_closed (scan_step i now rp err m) = sm_closed m" "sm_closed (cancel_threads m) = sm_closed m"
  by (simp_all add: scan_step_def Let_def cancel_threads_def split: scan_phase.split)

lemma serve_step_closed:
  assumes "closed_inv s"
  shows "closed_inv (serve_step L env s e) \<and> no_more s (serve_step L env s e)"
proof -
  have l: "live_inv (serve_step L env s e)" using assms serve_step_live by (simp add: closed_inv_def)
  have c: "pc_closed (sv_power s)" "mgr_closed (sv_downloads s)" "mgr_cancelled (sv_downloads s)" "sm_closed (sv_scans s)" "power_inv (sv_power s)"
    using assms by (auto simp: closed_inv_def live_inv_def)
  show ?thesis
  proof (cases e)
    case (Frame fe t len doc)
    with assms frame_closed no_more_refl show ?thesis by (simp add: serve_frame_def)
  next
    case (RunSpawned i killer directory)
    let ?s = "s\<lparr>sv_spawned := take i (sv_spawned s) @ drop (i + 1) (sv_spawned s)\<rparr>"
    have "sv_power (run_spawned killer directory (sv_spawned s ! i) ?s) = sv_power s"
      using run_spawned_parts(3) [of killer directory "sv_spawned s ! i" ?s] PowerShutdown_flags(2) [OF c(1)] by simp
    with RunSpawned l c run_spawned_parts(1,2) [of killer directory "sv_spawned s ! i" ?s] show ?thesis
      by (simp add: closed_inv_def no_more_def)
  next
    case CloseClient
    with l c show ?thesis
      by (simp add: close_client_def closed_inv_def no_more_def PowerClose_def Close_def ScanManagerClose_def)
  qed (use l c closed_starts_nothing [OF c(5,1)] worker_in_flight busy_step busy_take busy_reject in
      \<open>simp_all add: closed_inv_def no_more_def worker_flags scan_closed scan_accepted\<close>)
qed

lemma closed_run_no_more: "closed_inv s \<Longrightarrow> no_more s (foldl (serve_step L env) s es)"
proof (induction es arbitrary: s)
  case (Cons e es)
  with serve_step_closed [OF Cons.prems, of L env e] no_more_trans show ?case by fastforce
qed (simp add: no_more_refl)

interpretation sv: event_machine "\<lambda>s. \<exists>m d c. mgr_closed m = mgr_cancelled m \<and> s = new_connection new_scan_manager (NewPower d) m c"
  "serve_step L env" live_inv
proof (unfold_locales, goal_cases)
  case (1 s)
  then show ?case by (auto simp: live_inv_def new_connection_def NewPower_def power_inv_def)
next
  case (2 s e)
  then show ?case by (intro serve_step_live)
qed

text \<open>
  C38. Closing the client is final: whatever frames are still handled and however the goroutines go on after
  it, no shutdown command starts, no scan is accepted, no download is accepted, and the jobs that
  still have something to do are among those that had it at the close.
\<close>

theorem close_is_final:
  assumes "NewManager cwd l1 mk l2 cfg interval agent sender = Inr m0"
    and "s = foldl (serve_step L env) (new_connection new_scan_manager (NewPower d) m0 capture) (es @ [CloseClient])"
    and "s' = foldl (serve_step L env) s fs"
  shows "pc_started (sv_power s') = pc_started (sv_power s)
    \<and> sm_accepted (sv_scans s') = sm_accepted (sv_scans s)
    \<and> mset (in_flight (sv_downloads s')) \<subseteq># mset (in_flight (sv_downloads s))
    \<and> mset (busy_jobs (sv_downloads s')) \<subseteq># mset (busy_jobs (sv_downloads s))"
proof -
  obtain cfg2 where "m0 = started cfg2 interval agent" using NewManager_started [OF assms(1)] by blast
  then have "mgr_closed m0 = mgr_cancelled m0" by (simp add: started_def)
  then have "live_inv (foldl (serve_step L env) (new_connection new_scan_manager (NewPower d) m0 capture) es)"
    by (intro sv.run_inv) blast
  then have "live_inv (close_client (foldl (serve_step L env) (new_connection new_scan_manager (NewPower d) m0 capture) es))"
    using serve_step_live [of _ L env CloseClient] by simp
  then have "closed_inv s"
    unfolding assms(2) by (simp add: closed_inv_def close_client_def PowerClose_def Close_def ScanManagerClose_def)
  from closed_run_no_more [OF this, of L env fs] show ?thesis unfolding assms(3) no_more_def .
qed

section \<open>Example\<close>

definition sample_frame_env :: frame_env where
  "sample_frame_env = \<lparr>fe_now = 5, fe_time = ''t'', fe_is_abs = (\<lambda>_. True), fe_stat = (\<lambda>_. None), fe_taken = False\<rparr>"

definition sample_serving :: "serve_event list" where
  "sample_serving =
     [Frame sample_frame_env True 99 (Some sample_power), Frame sample_frame_env True 60 (Some sample_kill),
      RunSpawned 1 (Some (\<lambda>_. True)) True, RunSpawned 0 None True, PowerTimer]"

lemma sample_started:
  obtains m0 where "NewManager None (\<lambda>p. NotExist) True (\<lambda>p. Entry False) sample_cfg 0 ''A'' True = Inr m0"
proof -
  have "case NewManager None (\<lambda>p. NotExist) True (\<lambda>p. Entry False) sample_cfg 0 ''A'' True of Inl _ \<Rightarrow> False | Inr _ \<Rightarrow> True"
    by code_simp
  then show thesis using that by (auto split: sum.splits)
qed


theorem close_is_final_witness:
  "\<exists>m0. NewManager None (\<lambda>p. NotExist) True (\<lambda>p. Entry False) sample_cfg 0 ''A'' True = Inr m0
     \<and> pc_started (sv_power (foldl (serve_step sample_lib sample_dispatch)
          (new_connection new_scan_manager (NewPower 5) m0 False) (CloseClient # sample_serving))) = 0"
proof -
  obtain m0 where m0: "NewManager None (\<lambda>p. NotExist) True (\<lambda>p. Entry False) sample_cfg 0 ''A'' True = Inr m0"
    by (rule sample_started)
  have "pc_started (sv_power (foldl (serve_step sample_lib sample_dispatch)
      (new_connection new_scan_manager (NewPower 5) m0 False) ([] @ [CloseClient]))) = 0"
    by (simp add: close_client_def new_connection_def NewPower_def PowerClose_def)
  with close_is_final [OF m0 refl refl, of sample_lib sample_dispatch 5 False "[]" sample_serving] m0
  show ?thesis by auto
qed

end
