(* ===== verification/IdentityLife.thy ===== *)
theory IdentityLife
  imports AgentRuntime KeyMigration
begin

text \<open>
  The identity over the life of an installation: the steps of \<^verbatim>\<open>run\<close> in \<^verbatim>\<open>internal/agent/runtime.go\<close> that read and write
  the identity and its enrollment, run after run, with key migrations in between, on the disk of \<open>Identity\<close> where
  every operation may fail.  Here too are the entry points of \<^verbatim>\<open>service/agent_id.go\<close> and \<^verbatim>\<open>registration.go\<close>.
\<close>

section \<open>Entry points\<close>

definition configFile :: string where "configFile = ''agent_config.json''"

definition LoadIdentity ::
    "id_lib \<Rightarrow> 's reader \<Rightarrow> 's writer \<Rightarrow> create_env \<Rightarrow> string \<Rightarrow> bool \<Rightarrow> 's \<Rightarrow> (id_error + AgentConfig) \<times> 's" where
  "LoadIdentity L rd wr env path allowCreate s = loadIdentity L rd wr env allowCreate False path s"

definition LoadServiceIdentity ::
    "id_lib \<Rightarrow> 's reader \<Rightarrow> 's writer \<Rightarrow> create_env \<Rightarrow> string \<Rightarrow> bool \<Rightarrow> 's \<Rightarrow> (id_error + AgentConfig) \<times> 's" where
  "LoadServiceIdentity L rd wr env path allowCreate s = loadIdentity L rd wr env allowCreate True path s"

definition LoadOrCreateAgentConfig ::
    "id_lib \<Rightarrow> 's reader \<Rightarrow> 's writer \<Rightarrow> create_env \<Rightarrow> 's \<Rightarrow> (id_error + AgentConfig) \<times> 's" where
  "LoadOrCreateAgentConfig L rd wr env s = LoadIdentity L rd wr env configFile True s"

definition GetOrCreateAgentID :: "id_lib \<Rightarrow> 's reader \<Rightarrow> 's writer \<Rightarrow> create_env \<Rightarrow> 's \<Rightarrow> (id_error + string) \<times> 's" where
  "GetOrCreateAgentID L rd wr env s =
     (case LoadOrCreateAgentConfig L rd wr env s of
        (Inl e, s1) \<Rightarrow> (Inl e, s1)
      | (Inr cfg, s1) \<Rightarrow> (Inr (ag_id cfg), s1))"

definition addKeyPair ::
    "(string \<times> string) option \<Rightarrow> (bool \<Rightarrow> string \<Rightarrow> string option) \<Rightarrow> AgentConfig \<Rightarrow> AgentConfig option" where
  "addKeyPair keys protect cfg = addKeyPairWithProtection keys protect False cfg"

definition saveAgentConfig :: "id_lib \<Rightarrow> 's writer \<Rightarrow> AgentConfig \<Rightarrow> 's \<Rightarrow> bool \<times> 's" where
  "saveAgentConfig L wr cfg s = wr s configFile (il_encode L (config_json cfg)) True"

definition EnsureRegistered ::
    "id_lib \<Rightarrow> (string \<Rightarrow> string) \<Rightarrow> 's reader \<Rightarrow> 's writer \<Rightarrow> create_env \<Rightarrow> string \<Rightarrow> enroll_round list \<Rightarrow> 's
      \<Rightarrow> (id_error + enroll_action list \<times> (enroll_error option) option) \<times> 's" where
  "EnsureRegistered L sha rd wr env api rs s =
     (case LoadOrCreateAgentConfig L rd wr env s of
        (Inl e, s1) \<Rightarrow> (Inl e, s1)
      | (Inr cfg, s1) \<Rightarrow>
          (case EnsureEnrollment L sha rd wr ''enrollment_state.json'' cfg api True rs s1 of
             (as, res, s2) \<Rightarrow> (Inr (as, res), s2)))"

section \<open>The identity in one run\<close>

text \<open>What a run meets: the surroundings of a creation, the server, and whether the set-up between both succeeds.\<close>

record identity_run =
  ir_create :: create_env
  ir_api :: string
  ir_rounds :: "enroll_round list"
  ir_goes_on :: bool

datatype identity_stop =
    SourceRefused | IdentityStopped id_error | MarkerStopped enroll_error | SetupStopped
  | EnrollmentStopped "(enroll_error option) option"

text \<open>\<^verbatim>\<open>run\<close> from the explicit migration to the enrollment: the identity it works with, how it ends, and the disk.\<close>

definition enroll_run ::
    "id_lib \<Rightarrow> (string \<Rightarrow> string) \<Rightarrow> 's reader \<Rightarrow> 's writer \<Rightarrow> app_paths \<Rightarrow> identity_run \<Rightarrow> options \<Rightarrow> AgentConfig \<Rightarrow> 's
      \<Rightarrow> identity_stop \<times> 's" where
  "enroll_run L sha rd wr paths e opt cfg s =
     (case ReadEnrollment L sha rd (ap_enrollment paths) cfg (ir_api e) s of
        (Inl err, s1) \<Rightarrow> (MarkerStopped err, s1)
      | (Inr _, s1) \<Rightarrow>
          if \<not> op_provision opt \<and> \<not> ir_goes_on e then (SetupStopped, s1)
          else (case EnsureEnrollment L sha rd wr (ap_enrollment paths) cfg (ir_api e)
                       (op_provision opt \<or> \<not> op_service opt) (ir_rounds e) s1 of
                  (_, res, s2) \<Rightarrow> (EnrollmentStopped res, s2)))"

definition agent_identity ::
    "id_lib \<Rightarrow> (string \<Rightarrow> string) \<Rightarrow> 's reader \<Rightarrow> 's writer \<Rightarrow> path_lib \<Rightarrow> app_paths \<Rightarrow> identity_run \<Rightarrow> options \<Rightarrow> 's
      \<Rightarrow> AgentConfig option \<times> identity_stop \<times> 's" where
  "agent_identity L sha rd wr P paths e opt s =
     (if op_source opt \<noteq> [] \<and> (\<not> op_provision opt \<or> \<not> pl_abs P (op_source opt)) then (None, SourceRefused, s)
      else case (if op_source opt = [] then (None, s)
                 else MigrateIdentity L rd wr (op_source opt) (ap_identity paths) s) of
             (Some err, s1) \<Rightarrow> (None, IdentityStopped err, s1)
           | (None, s1) \<Rightarrow>
               (case (if is_machine opt then LoadServiceIdentity else LoadIdentity) L rd wr (ir_create e)
                       (ap_identity paths) (\<not> op_service opt) s1 of
                  (Inl err, s2) \<Rightarrow> (None, IdentityStopped err, s2)
                | (Inr cfg, s2) \<Rightarrow>
                    (case enroll_run L sha rd wr paths e opt cfg s2 of (ending, s3) \<Rightarrow> (Some cfg, ending, s3))))"

section \<open>Runs and key migrations\<close>

datatype life_event = AgentRun identity_run options | ProtectKey codec

definition life_step :: "id_lib \<Rightarrow> (string \<Rightarrow> string) \<Rightarrow> path_lib \<Rightarrow> app_paths \<Rightarrow> disk \<Rightarrow> life_event \<Rightarrow> disk" where
  "life_step L sha P paths s ev =
     (case ev of
        AgentRun e opt \<Rightarrow> snd (snd (agent_identity L sha disk_read disk_write P paths e opt s))
      | ProtectKey codec \<Rightarrow>
          snd (migratePrivateKeyProtection L sha disk_read disk_write codec (ap_identity paths) (ap_enrollment paths) s))"

section \<open>What the disk holds\<close>

definition same_identity :: "AgentConfig \<Rightarrow> AgentConfig \<Rightarrow> bool" where
  "same_identity cfg cfg' \<longleftrightarrow>
     ag_id cfg' = ag_id cfg \<and> ag_algorithm cfg' = ag_algorithm cfg \<and> ag_public_key cfg' = ag_public_key cfg"

definition holds_identity :: "id_lib \<Rightarrow> string \<Rightarrow> AgentConfig \<Rightarrow> (string \<rightharpoonup> string) \<Rightarrow> bool" where
  "holds_identity L path cfg files \<longleftrightarrow>
     (\<exists>data cfg'. files path = Some data \<and> length data \<le> 2 ^ 20 \<and> DecodeIdentity L data = Inr cfg' \<and> same_identity cfg cfg')"

text \<open>
  What is assumed of a creation: the UUID is one, the public key has 32 bytes, DPAPI gives a ciphertext, and the
  JSON text of the identity fits in a mebibyte and parses to what was encoded.
\<close>

definition draws_ok :: "id_lib \<Rightarrow> create_env \<Rightarrow> bool \<Rightarrow> bool" where
  "draws_ok L env machine \<longleftrightarrow>
     length (cr_uuid env) = 36 \<and> il_uuid_ok L (cr_uuid env) \<and>
     (case cr_keys env of
        None \<Rightarrow> True
      | Some (public, private) \<Rightarrow>
          length public = 32 \<and>
          (case cr_protect env machine private of
             None \<Rightarrow> True
           | Some encrypted \<Rightarrow>
               encrypted \<noteq> [] \<and>
               (let j = config_json \<lparr>ag_id = cr_uuid env, ag_algorithm = keyAlgorithm, ag_public_key = b64_encode public,
                          ag_encrypted_key = b64_encode encrypted,
                          ag_protection = (if machine then MachinePrivateKeyProtection else '''')\<rparr>
                in length (il_encode L j) \<le> 2 ^ 20 \<and> il_parse L (il_encode L j) = Some j)))"

lemma config_json_decodes:
  "unmarshal False agent_config_fields (config_json cfg) = (m, bad) \<Longrightarrow> \<not> bad \<and> config_of m = cfg"
  by (cases cfg)
     (auto simp: config_json_def unmarshal_def agent_config_fields_def find_field_def conv_string_def config_of_def
       get_str_def split: if_splits)

lemma created_decodes:
  assumes "addKeyPairWithProtection (cr_keys env) (cr_protect env) machine
      \<lparr>ag_id = cr_uuid env, ag_algorithm = keyAlgorithm, ag_public_key = '''', ag_encrypted_key = '''', ag_protection = ''''\<rparr>
      = Some cfg" and "draws_ok L env machine"
  shows "length (il_encode L (config_json cfg)) \<le> 2 ^ 20 \<and> DecodeIdentity L (il_encode L (config_json cfg)) = Inr cfg"
proof -
  obtain public priv encrypted where k: "cr_keys env = Some (public, priv)" "cr_protect env machine priv = Some encrypted"
    and cfg: "cfg = \<lparr>ag_id = cr_uuid env, ag_algorithm = keyAlgorithm, ag_public_key = b64_encode public,
      ag_encrypted_key = b64_encode encrypted, ag_protection = (if machine then MachinePrivateKeyProtection else '''')\<rparr>"
    using assms(1) by (auto simp: addKeyPairWithProtection_def split: option.splits prod.splits)
  have d: "length (cr_uuid env) = 36" "il_uuid_ok L (cr_uuid env)" "length public = 32" "encrypted \<noteq> []"
    "length (il_encode L (config_json cfg)) \<le> 2 ^ 20" "il_parse L (il_encode L (config_json cfg)) = Some (config_json cfg)"
    using assms(2) by (simp_all add: draws_ok_def k cfg Let_def)
  obtain m bad where m: "unmarshal False agent_config_fields (config_json cfg) = (m, bad)" by fastforce
  from config_json_decodes [OF m] d show ?thesis by (simp add: DecodeIdentity_def m Let_def, simp add: cfg)
qed

context file_store
begin

lemma WriteEnrollment_other:
  "WriteEnrollment L sha wr path cfg api verified s = (ok, s') \<Longrightarrow> q \<noteq> path \<Longrightarrow> contents s' q = contents s q"
  by (simp add: WriteEnrollment_def write_other)

lemma enroll_loop_other:
  "enroll_loop L sha wr path cfg api interactive b rs s = (as, res, s') \<Longrightarrow> q \<noteq> path \<Longrightarrow> contents s' q = contents s q"
proof (induction rs arbitrary: b s as res s')
  case (Cons r rs)
  then show ?case
    by (auto simp: Let_def WriteEnrollment_other split: if_splits prod.splits sum.splits option.splits)
qed simp

lemma ReadEnrollment_pure: "ReadEnrollment L sha rd path cfg api s = (r, s') \<Longrightarrow> contents s' = contents s"
  by (auto simp: ReadEnrollment_def split: prod.splits sum.splits io_error.splits if_splits option.splits dest: read_pure)

lemma EnsureEnrollment_other:
  assumes "EnsureEnrollment L sha rd wr path cfg api interactive rs s = (as, res, s')" and "q \<noteq> path"
  shows "contents s' q = contents s q"
proof -
  obtain r s1 where r: "ReadEnrollment L sha rd path cfg api s = (r, s1)" by fastforce
  note ReadEnrollment_pure [OF r]
  with assms r show ?thesis
    by (cases r) (auto simp: EnsureEnrollment_def dest: enroll_loop_other [OF _ assms(2)])
qed

lemma enroll_run_other:
  assumes "enroll_run L sha rd wr paths e opt cfg s = (ending, s')" and "q \<noteq> ap_enrollment paths"
  shows "contents s' q = contents s q"
proof -
  obtain r s1 where r: "ReadEnrollment L sha rd (ap_enrollment paths) cfg (ir_api e) s = (r, s1)" by fastforce
  note ReadEnrollment_pure [OF r]
  with assms r show ?thesis
    by (cases r) (auto simp: enroll_run_def split: if_splits prod.splits dest: EnsureEnrollment_other [OF _ assms(2)])
qed

lemma readIdentity_ok:
  "readIdentity L rd path s = (Inr (data, cfg), s') \<Longrightarrow>
     contents s path = Some data \<and> length data \<le> 2 ^ 20 \<and> DecodeIdentity L data = Inr cfg"
  by (auto simp: readIdentity_def split: prod.splits sum.splits io_error.splits if_splits dest: read_data)

lemma loadIdentity_holds:
  assumes "loadIdentity L rd wr env create machine path s = (Inr cfg, s')" and "contents s path = None \<Longrightarrow> draws_ok L env machine"
  shows "holds_identity L path cfg (contents s')"
proof -
  obtain r s1 where r: "readIdentity L rd path s = (r, s1)" by fastforce
  note p = readIdentity_pure [OF r]
  show ?thesis
  proof (cases r)
    case (Inr x)
    then obtain data where x: "x = (data, cfg)" "s' = s1" using assms(1) r by (cases x) (auto simp: loadIdentity_def)
    with readIdentity_ok [of L path s data cfg s1] r Inr p show ?thesis
      by (auto simp: holds_identity_def same_identity_def)
  next
    case (Inl err)
    then have e: "err = FileMissing" using assms(1) r by (auto simp: loadIdentity_def split: if_splits)
    have "contents s path = None" using r Inl e read_missing
      by (auto simp: readIdentity_def DecodeIdentity_def Let_def split: prod.splits sum.splits io_error.splits if_splits option.splits)
    then have d: "draws_ok L env machine" by (rule assms(2))
    obtain c where c: "addKeyPairWithProtection (cr_keys env) (cr_protect env) machine
      \<lparr>ag_id = cr_uuid env, ag_algorithm = keyAlgorithm, ag_public_key = '''', ag_encrypted_key = '''', ag_protection = ''''\<rparr>
      = Some c"
      and w: "wr s1 path (il_encode L (config_json c)) True = (True, s')" and cc: "c = cfg"
      using assms(1) r Inl e by (auto simp: loadIdentity_def split: if_splits option.splits prod.splits)
    from created_decodes [OF c d] write_ok [OF w] cc show ?thesis by (auto simp: holds_identity_def same_identity_def)
  qed
qed

lemma same_identity_refl: "same_identity cfg cfg" by (simp add: same_identity_def)

lemma loadIdentity_again:
  assumes "holds_identity L path cfg (contents s)" and "loadIdentity L rd wr env create machine path s = (Inr cfg', s')"
  shows "same_identity cfg cfg'"
proof -
  obtain data c where d: "contents s path = Some data" "DecodeIdentity L data = Inr c" "same_identity cfg c"
    using assms(1) by (auto simp: holds_identity_def)
  have "holds_identity L path cfg' (contents s')" using loadIdentity_holds [OF assms(2)] d(1) by simp
  with loadIdentity_keeps [OF assms(2) d(1)] d show ?thesis by (auto simp: holds_identity_def same_identity_def)
qed

lemma agent_identity_parts:
  assumes "agent_identity L sha rd wr P paths e opt s = (r, ending, s')"
  obtains (stopped) "r = None" "s' = s"
  | (source) err where "r = None" "MigrateIdentity L rd wr (op_source opt) (ap_identity paths) s = (Some err, s')"
  | (loaded) s1 x s2 where "s1 = s \<or> MigrateIdentity L rd wr (op_source opt) (ap_identity paths) s = (None, s1)"
      "loadIdentity L rd wr (ir_create e) (\<not> op_service opt) (is_machine opt) (ap_identity paths) s1 = (x, s2)"
      "case x of Inl err \<Rightarrow> r = None \<and> s' = s2
        | Inr cfg \<Rightarrow> r = Some cfg \<and> enroll_run L sha rd wr paths e opt cfg s2 = (ending, s')"
proof -
  define m where "m = (if op_source opt = [] then (None, s) else MigrateIdentity L rd wr (op_source opt) (ap_identity paths) s)"
  obtain me s1 where ms: "m = (me, s1)" by fastforce
  obtain x s2 where l: "loadIdentity L rd wr (ir_create e) (\<not> op_service opt) (is_machine opt) (ap_identity paths) s1 = (x, s2)"
    by fastforce
  have f: "(if is_machine opt then LoadServiceIdentity else LoadIdentity) L rd wr (ir_create e) (ap_identity paths)
      (\<not> op_service opt) s1 = (x, s2)"
    using l by (cases "is_machine opt") (simp_all add: LoadServiceIdentity_def LoadIdentity_def)
  show thesis
  proof (cases "op_source opt \<noteq> [] \<and> (\<not> op_provision opt \<or> \<not> pl_abs P (op_source opt))")
    case True
    with assms show thesis by (intro stopped) (simp_all add: agent_identity_def)
  next
    case False
    have a: "(case (me, s1) of (Some err, s1) \<Rightarrow> (None, IdentityStopped err, s1)
        | (None, s1) \<Rightarrow>
            (case (if is_machine opt then LoadServiceIdentity else LoadIdentity) L rd wr (ir_create e)
                    (ap_identity paths) (\<not> op_service opt) s1 of
               (Inl err, s2) \<Rightarrow> (None, IdentityStopped err, s2)
             | (Inr cfg, s2) \<Rightarrow>
                 (case enroll_run L sha rd wr paths e opt cfg s2 of (ending, s3) \<Rightarrow> (Some cfg, ending, s3))))
        = (r, ending, s')"
      using assms False ms unfolding agent_identity_def m_def by (simp only: if_False)
    show thesis
    proof (cases me)
      case (Some err)
      with a ms show thesis by (intro source [of err]) (auto simp: m_def split: if_splits)
    next
      case None
      with a f ms l show thesis
        by (intro loaded [of s1 x s2]) (auto simp: m_def split: if_splits sum.splits prod.splits)
    qed
  qed
qed

lemma agent_identity_keeps:
  assumes "agent_identity L sha rd wr P paths e opt s = (r, ending, s')" and "contents s q = Some c"
    and "q \<noteq> ap_enrollment paths"
  shows "contents s' q = Some c"
  using assms(1)
proof (cases rule: agent_identity_parts)
  case (source err)
  with MigrateIdentity_keeps assms(2) show ?thesis by blast
next
  case (loaded s1 x s2)
  then have "contents s2 q = Some c" using MigrateIdentity_keeps loadIdentity_keeps assms(2) by metis
  with loaded(3) enroll_run_other [OF _ assms(3)] show ?thesis by (auto split: sum.splits)
qed (use assms(2) in simp)

lemma agent_identity_holds:
  assumes "agent_identity L sha rd wr P paths e opt s = (Some cfg, ending, s')" and "draws_ok L (ir_create e) (is_machine opt)"
    and "ap_identity paths \<noteq> ap_enrollment paths"
  shows "holds_identity L (ap_identity paths) cfg (contents s')"
  using assms(1)
proof (cases rule: agent_identity_parts)
  case (loaded s1 x s2)
  then have x: "x = Inr cfg" "enroll_run L sha rd wr paths e opt cfg s2 = (ending, s')" by (auto split: sum.splits)
  with loaded(2) loadIdentity_holds assms(2) have "holds_identity L (ap_identity paths) cfg (contents s2)" by metis
  with enroll_run_other [OF x(2) assms(3)] show ?thesis by (simp add: holds_identity_def)
qed simp_all

lemma agent_identity_again:
  assumes "agent_identity L sha rd wr P paths e opt s = (Some cfg', ending, s')"
    and "holds_identity L (ap_identity paths) cfg (contents s)"
  shows "same_identity cfg cfg'"
  using assms(1)
proof (cases rule: agent_identity_parts)
  case (loaded s1 x s2)
  have "holds_identity L (ap_identity paths) cfg (contents s1)"
    using assms(2) loaded(1) MigrateIdentity_keeps unfolding holds_identity_def by blast
  with loaded(2,3) loadIdentity_again show ?thesis by (auto split: sum.splits)
qed simp_all

end

section \<open>The identity is permanent\<close>

lemma life_step_holds:
  assumes "holds_identity L (ap_identity paths) cfg (dk_files s)" and "ap_identity paths \<noteq> ap_enrollment paths"
  shows "holds_identity L (ap_identity paths) cfg (dk_files (life_step L sha P paths s ev))"
proof (cases ev)
  case (AgentRun e opt)
  obtain r ending s' where a: "agent_identity L sha disk_read disk_write P paths e opt s = (r, ending, s')" by (metis prod_cases3)
  with disk.agent_identity_keeps [OF a _ assms(2)] assms(1) AgentRun show ?thesis
    unfolding holds_identity_def life_step_def by fastforce
next
  case (ProtectKey codec)
  obtain r s' where m: "migratePrivateKeyProtection L sha disk_read disk_write codec (ap_identity paths) (ap_enrollment paths) s
      = (r, s')" by fastforce
  have s': "life_step L sha P paths s ev = s'" by (simp add: life_step_def ProtectKey m)
  from disk.migration_safe [OF m] consider "dk_files s' (ap_identity paths) = dk_files s (ap_identity paths)"
    | original c key candidate where "dk_files s (ap_identity paths) = Some original"
        "dk_files s' (ap_identity paths) = Some candidate" "DecodeIdentity L original = Inr c"
        "verifyMigratedIdentity L candidate c key (co_unprotect codec)"
    by blast
  then show ?thesis
  proof cases
    case 1
    with assms(1) s' show ?thesis by (simp add: holds_identity_def)
  next
    case 2
    then obtain c' where "length candidate \<le> 2 ^ 20" "DecodeIdentity L candidate = Inr c'" "same_identity c c'"
      by (auto simp: verifyMigratedIdentity_def same_identity_def split: if_splits sum.splits)
    moreover have "same_identity cfg c" using assms(1) 2 by (auto simp: holds_identity_def)
    ultimately show ?thesis unfolding s' holds_identity_def using 2(2) by (auto simp: same_identity_def)
  qed
qed

interpretation life: event_machine "\<lambda>s. holds_identity L (ap_identity paths) cfg (dk_files s) \<and> ap_identity paths \<noteq> ap_enrollment paths"
  "life_step L sha P paths"
  "\<lambda>s. holds_identity L (ap_identity paths) cfg (dk_files s) \<and> ap_identity paths \<noteq> ap_enrollment paths"
  by unfold_locales (auto intro: life_step_holds)

text \<open>
  C9. The identity of an installation is permanent.  Once a run of the agent worked with an identity, created by it or
  found, then after any further runs and key migrations, in any order and whatever reads and writes fail in
  them, every run that gets an identity gets one with the same agent, algorithm and public key, every private
  key that loads belongs to that public key, and if no read fails the identity does load.
\<close>

theorem identity_permanent:
  assumes "agent_identity L sha disk_read disk_write P paths e opt s0 = (Some cfg, ending, s1)"
    and "draws_ok L (ir_create e) (is_machine opt)" and "ap_identity paths \<noteq> ap_enrollment paths"
    and "s2 = foldl (life_step L sha P paths) s1 es"
  shows "(case fst (agent_identity L sha disk_read disk_write P paths e' opt' s2) of None \<Rightarrow> True | Some cfg' \<Rightarrow>
        ag_id cfg' = ag_id cfg \<and> ag_algorithm cfg' = ag_algorithm cfg \<and> ag_public_key cfg' = ag_public_key cfg)
    \<and> (case fst (LoadPrivateKey L disk_read path_ok unprotect (ap_identity paths) s2) of Inl _ \<Rightarrow> True | Inr key \<Rightarrow>
        b64_decode False (ag_public_key cfg) = Some (drop 32 key))
    \<and> (dk_read_fails s2 = [] \<longrightarrow>
        (\<exists>cfg'. fst (LoadServiceIdentity L disk_read disk_write env (ap_identity paths) create s2) = Inr cfg'))"
proof -
  have h: "holds_identity L (ap_identity paths) cfg (dk_files s2)"
    using life.run_inv [of L paths cfg s1 sha P es] disk.agent_identity_holds [OF assms(1-3)] assms(3,4) by simp
  then obtain data c where d: "dk_files s2 (ap_identity paths) = Some data" "length data \<le> 2 ^ 20"
    "DecodeIdentity L data = Inr c" "same_identity cfg c"
    by (auto simp: holds_identity_def)
  obtain r ending' s3 where a: "agent_identity L sha disk_read disk_write P paths e' opt' s2 = (r, ending', s3)"
    by (metis prod_cases3)
  have "case r of None \<Rightarrow> True | Some cfg' \<Rightarrow> same_identity cfg cfg'"
    using disk.agent_identity_again [OF _ h] a by (auto split: option.split)
  moreover have "b64_decode False (ag_public_key cfg) = Some (drop 32 key)"
    if "fst (LoadPrivateKey L disk_read path_ok unprotect (ap_identity paths) s2) = Inr key" for key
  proof -
    have "LoadPrivateKey L disk_read path_ok unprotect (ap_identity paths) s2
        = (Inr key, snd (LoadPrivateKey L disk_read path_ok unprotect (ap_identity paths) s2))"
      using that by (simp add: prod_eq_iff)
    from LoadPrivateKey_ok [OF this] obtain data' c' s5 where
      r: "readIdentity L disk_read (ap_identity paths) s2 = (Inr (data', c'), s5)" and k: "b64_decode False (ag_public_key c') = Some (drop 32 key)"
      by blast
    from disk.readIdentity_ok [OF r] d k show ?thesis by (simp add: same_identity_def)
  qed
  moreover have "fst (LoadServiceIdentity L disk_read disk_write env (ap_identity paths) create s2) = Inr c" if "dk_read_fails s2 = []"
    using that d by (simp add: LoadServiceIdentity_def loadIdentity_def readIdentity_def disk_read_def Let_def)
  ultimately show ?thesis using a by (auto simp: same_identity_def split: option.splits sum.splits)
qed

section \<open>Witness\<close>

text \<open>A provisioning on an empty disk, whose identity the Service and the migrations keep.\<close>

definition sample_life_paths :: app_paths where
  "sample_life_paths =
     \<lparr>ap_install = ''/p'', ap_root = ''/d'', ap_identity = ''id'', ap_enrollment = ''en'', ap_config = ''c'', ap_log = ''l'',
      ap_downloads = ''w''\<rparr>"

definition sample_creation :: identity_run where
  "sample_creation =
     \<lparr>ir_create = \<lparr>cr_uuid = replicate 36 CHR ''a'', cr_keys = Some (sample_seed, sample_seed @ sample_seed),
                   cr_protect = (\<lambda>m k. Some (''m'' @ k)), cr_directory_ok = True\<rparr>,
      ir_api = ''http://h'', ir_rounds = [sample_round (Status 204)], ir_goes_on = True\<rparr>"

definition provisioning :: options where
  "provisioning = \<lparr>op_service = False, op_provision = True, op_source = ''''\<rparr>"

definition empty_disk :: disk where
  "empty_disk = \<lparr>dk_files = Map.empty, dk_read_fails = [], dk_writes = []\<rparr>"

lemma sample_draws: "draws_ok sample_id_lib (ir_create sample_creation) True"
  by (simp add: draws_ok_def sample_creation_def Let_def keyAlgorithm_def MachinePrivateKeyProtection_def)
     (simp add: sample_id_lib_def sample_identity_def)

lemma sample_created:
  "fst (agent_identity sample_id_lib id disk_read disk_write unix_paths sample_life_paths sample_creation provisioning empty_disk)
   = Some (sample_identity (''m'' @ sample_seed @ sample_seed) ''dpapi-machine-v1'')"
  by (simp add: agent_identity_def provisioning_def is_machine_def LoadServiceIdentity_def loadIdentity_def readIdentity_def
      disk_read_def disk_write_def empty_disk_def sample_life_paths_def sample_creation_def addKeyPairWithProtection_def
      statefile_write_def fine_write_def Let_def split: prod.split)
     (simp add: sample_identity_def keyAlgorithm_def MachinePrivateKeyProtection_def)

theorem identity_permanent_witness:
  "\<exists>s1. fst (agent_identity sample_id_lib id disk_read disk_write unix_paths sample_life_paths sample_creation provisioning empty_disk)
       = Some (sample_identity (''m'' @ sample_seed @ sample_seed) ''dpapi-machine-v1'')
     \<and> (case fst (LoadPrivateKey sample_id_lib disk_read True (co_unprotect sample_codec) ''id''
              (foldl (life_step sample_id_lib id unix_paths sample_life_paths) s1
                 [ProtectKey sample_codec, AgentRun sample_creation provisioning])) of
          Inl _ \<Rightarrow> True | Inr key \<Rightarrow> drop 32 key = sample_seed)"
proof -
  let ?cfg = "sample_identity (''m'' @ sample_seed @ sample_seed) ''dpapi-machine-v1''"
  obtain ending s1 where a: "agent_identity sample_id_lib id disk_read disk_write unix_paths sample_life_paths sample_creation
      provisioning empty_disk = (Some ?cfg, ending, s1)"
    using sample_created by (metis prod.collapse)
  have "draws_ok sample_id_lib (ir_create sample_creation) (is_machine provisioning)"
    using sample_draws by (simp add: is_machine_def provisioning_def)
  moreover have "ap_identity sample_life_paths \<noteq> ap_enrollment sample_life_paths" "ap_identity sample_life_paths = ''id''"
    by (simp_all add: sample_life_paths_def)
  ultimately show ?thesis
    using identity_permanent [OF a _ _ refl, where es = "[ProtectKey sample_codec, AgentRun sample_creation provisioning]"
        and path_ok = True and unprotect = "co_unprotect sample_codec"] sample_created
    by (intro exI [of _ s1]) (auto split: sum.splits)
qed

end
