(* ===== verification/FileHash.thy ===== *)
theory FileHash
  imports DownloadRun
begin

text \<open>
  The digest of a file read piece by piece, \<^verbatim>\<open>fileSHA256Context\<close> and \<^verbatim>\<open>contextReader\<close> in \<^verbatim>\<open>download/manager.go\<close>.  \<open>DownloadRun\<close> uses
  the digest of the whole contents; here the loop of \<^verbatim>\<open>io.Copy\<close> is shown to compute it.  The hash is an argument.
\<close>

record 'h hasher =
  h_new :: 'h
  h_write :: "'h \<Rightarrow> string \<Rightarrow> 'h"
  h_sum :: "'h \<Rightarrow> string"

datatype read_result = ReadBytes string | ReadEnd | ReadFailed

text \<open>\<^verbatim>\<open>contextReader.Read\<close>: a context that is done wins over the file.\<close>

definition context_read :: "bool \<Rightarrow> read_result \<Rightarrow> read_result" where
  "context_read cancelled r = (if cancelled then ReadFailed else r)"

text \<open>
  \<^verbatim>\<open>io.Copy\<close> into the hash; each read comes with the state of the context.  \<open>None\<close> is an error, or a
  file that goes on after the listed reads.
\<close>

fun copy_hash :: "'h hasher \<Rightarrow> (bool \<times> read_result) list \<Rightarrow> 'h \<Rightarrow> 'h option" where
  "copy_hash H [] h = None"
| "copy_hash H ((cancelled, r) # rs) h =
     (case context_read cancelled r of
        ReadBytes b \<Rightarrow> copy_hash H rs (h_write H h b)
      | ReadEnd \<Rightarrow> Some h
      | ReadFailed \<Rightarrow> None)"

definition fileSHA256Context :: "'h hasher \<Rightarrow> bool \<Rightarrow> (bool \<times> read_result) list \<Rightarrow> string option" where
  "fileSHA256Context H opened rs =
     (if \<not> opened then None else map_option (h_sum H) (copy_hash H rs (h_new H)))"

text \<open>What the reads deliver before the end of the file.\<close>

fun delivered :: "(bool \<times> read_result) list \<Rightarrow> string list option" where
  "delivered [] = None"
| "delivered ((_, r) # rs) =
     (case r of ReadBytes b \<Rightarrow> map_option (Cons b) (delivered rs) | ReadEnd \<Rightarrow> Some [] | ReadFailed \<Rightarrow> None)"

lemma copy_hash_delivered:
  "copy_hash H rs h \<noteq> None \<Longrightarrow> \<exists>bs. delivered rs = Some bs \<and> copy_hash H rs h = Some (foldl (h_write H) h bs)"
proof (induction rs arbitrary: h)
  case (Cons x rs)
  then show ?case
    by (cases x) (fastforce simp: context_read_def split: read_result.splits if_splits)
qed simp

lemma copy_hash_returns:
  "delivered rs = Some bs \<Longrightarrow> \<forall>x \<in> set rs. \<not> fst x \<Longrightarrow> copy_hash H rs h = Some (foldl (h_write H) h bs)"
  by (induction rs arbitrary: h bs) (auto simp: context_read_def split: read_result.splits)

text \<open>
  The streamed digest is the digest of \<open>DownloadRun\<close>: an error or the digest of the contents, and not an error
  when the file is opened, its reads reach the end and the context is never done.
\<close>

lemma streamed_digest:
  assumes "\<And>bs. h_sum H (foldl (h_write H) (h_new H) bs) = sha (concat bs)"
    and "\<And>bs. delivered rs = Some bs \<Longrightarrow> fs part = Some (concat bs)"
  shows "\<exists>ok. fileSHA256Context H opened rs = fileSHA256 sha ok part fs
    \<and> (opened \<and> delivered rs \<noteq> None \<and> (\<forall>x \<in> set rs. \<not> fst x) \<longrightarrow> ok)"
proof (cases "opened \<and> copy_hash H rs (h_new H) \<noteq> None")
  case True
  then have "copy_hash H rs (h_new H) \<noteq> None" by simp
  from copy_hash_delivered [OF this]
  obtain bs where "delivered rs = Some bs" "copy_hash H rs (h_new H) = Some (foldl (h_write H) (h_new H) bs)"
    by (elim exE conjE)
  with True assms show ?thesis by (intro exI [of _ True]) (simp add: fileSHA256Context_def fileSHA256_def)
next
  case False
  then have "opened \<Longrightarrow> copy_hash H rs (h_new H) = None" by simp
  moreover have "copy_hash H rs (h_new H) \<noteq> None" if "delivered rs = Some bs" "\<forall>x \<in> set rs. \<not> fst x" for bs
    using copy_hash_returns [OF that, of H "h_new H"] by simp
  ultimately have "\<not> (opened \<and> delivered rs \<noteq> None \<and> (\<forall>x \<in> set rs. \<not> fst x))"
    by (metis not_None_eq)
  with False show ?thesis
    by (intro exI [of _ False]) (simp add: fileSHA256Context_def fileSHA256_def)
qed

end
