(* ===== verification/Wire.thy ===== *)
theory Wire
  imports Prelude "HOL-Library.Multiset"
begin

text \<open>
  Writing on a connection, \<^verbatim>\<open>safeConnection\<close> and \<^verbatim>\<open>writeJSON\<close> in \<^verbatim>\<open>client/message.go\<close>: many goroutines write, one at a time
  under the mutex.  A message is what its JSON text is, if it can be encoded; the frame itself is the library's.
\<close>

datatype write_result = NotEncoded | NotWritten | Written_bytes nat

record safe_connection =
  cn_writer :: "(nat \<times> string) option"
  cn_waiting :: "(nat \<times> string) list"
  cn_frames :: "string list"
  cn_done :: "(nat \<times> write_result) list"

definition new_wire :: safe_connection where
  "new_wire = \<lparr>cn_writer = None, cn_waiting = [], cn_frames = [], cn_done = []\<rparr>"

text \<open>
  \<^verbatim>\<open>writeJSON\<close> of goroutine \<open>g\<close>: it encodes, waits for the mutex, writes, and the mutex is free again when the write
  returns.
\<close>

datatype wire_event = WriteJSON nat "string option" | LockTaken nat | WriteReturned bool

definition writeJSON :: "nat \<Rightarrow> string option \<Rightarrow> safe_connection \<Rightarrow> safe_connection" where
  "writeJSON g text c =
     (case text of
        None \<Rightarrow> c\<lparr>cn_done := cn_done c @ [(g, NotEncoded)]\<rparr>
      | Some data \<Rightarrow> c\<lparr>cn_waiting := cn_waiting c @ [(g, data)]\<rparr>)"

definition wire_write :: "bool \<Rightarrow> safe_connection \<Rightarrow> safe_connection" where
  "wire_write ok c =
     (case cn_writer c of
        None \<Rightarrow> c
      | Some (g, data) \<Rightarrow>
          c\<lparr>cn_writer := None, cn_frames := (if ok then cn_frames c @ [data] else cn_frames c),
            cn_done := cn_done c @ [(g, if ok then Written_bytes (length data) else NotWritten)]\<rparr>)"

fun wire_step :: "safe_connection \<Rightarrow> wire_event \<Rightarrow> safe_connection" where
  "wire_step c (WriteJSON g text) = writeJSON g text c"
| "wire_step c (LockTaken i) =
     (if cn_writer c = None \<and> i < length (cn_waiting c)
      then c\<lparr>cn_writer := Some (cn_waiting c ! i),
             cn_waiting := take i (cn_waiting c) @ drop (i + 1) (cn_waiting c)\<rparr>
      else c)"
| "wire_step c (WriteReturned ok) = wire_write ok c"

text \<open>The goroutines inside \<^verbatim>\<open>writeJSON\<close>, and those that called it.\<close>

definition inside :: "safe_connection \<Rightarrow> nat multiset" where
  "inside c = mset (map fst (cn_waiting c)) + (case cn_writer c of None \<Rightarrow> {#} | Some (g, _) \<Rightarrow> {#g#})"

definition callers :: "wire_event list \<Rightarrow> nat multiset" where
  "callers es = mset (List.map_filter (\<lambda>e. case e of WriteJSON g text \<Rightarrow> Some g | _ \<Rightarrow> None) es)"

definition frames_written :: "(nat \<times> write_result) list \<Rightarrow> nat list" where
  "frames_written rs = List.map_filter (\<lambda>(g, r). case r of Written_bytes n \<Rightarrow> Some n | _ \<Rightarrow> None) rs"

lemma callers_simps [simp]:
  "callers [] = {#}" "callers (WriteJSON g text # es) = add_mset g (callers es)"
  "callers (LockTaken i # es) = callers es" "callers (WriteReturned ok # es) = callers es"
  by (simp_all add: callers_def map_filter_def)

lemma frames_written_simps [simp]:
  "frames_written [] = []" "frames_written (rs @ [(g, NotEncoded)]) = frames_written rs"
  "frames_written (rs @ [(g, NotWritten)]) = frames_written rs"
  "frames_written (rs @ [(g, Written_bytes n)]) = frames_written rs @ [n]"
  by (simp_all add: frames_written_def map_filter_def)

lemma wire_step_calls:
  "inside (wire_step c e) + mset (map fst (cn_done (wire_step c e))) = inside c + mset (map fst (cn_done c)) + callers [e]"
proof (cases e)
  case (LockTaken i)
  show ?thesis
  proof (cases "cn_writer c = None \<and> i < length (cn_waiting c)")
    case True
    then have "map fst (cn_waiting c)
        = map fst (take i (cn_waiting c)) @ fst (cn_waiting c ! i) # map fst (drop (i + 1) (cn_waiting c))"
      using arg_cong [OF id_take_nth_drop, of i "cn_waiting c" "map fst"] by simp
    with True LockTaken show ?thesis by (simp add: inside_def split: prod.split)
  qed (use LockTaken in auto)
qed (auto simp: inside_def writeJSON_def wire_write_def split: option.split)

lemma wire_step_frames:
  "map length (cn_frames c) = frames_written (cn_done c) \<Longrightarrow>
     map length (cn_frames (wire_step c e)) = frames_written (cn_done (wire_step c e))"
  by (cases e) (auto simp: writeJSON_def wire_write_def split: option.split)

text \<open>
  No call of \<^verbatim>\<open>writeJSON\<close> is lost or answered twice, and the frames on the wire are, in order, the writes that
  reported success.
\<close>

lemma wire_run:
  assumes "c = foldl wire_step new_wire es"
  shows "inside c + mset (map fst (cn_done c)) = callers es \<and> map length (cn_frames c) = frames_written (cn_done c)"
proof -
  have "inside (foldl wire_step c es) + mset (map fst (cn_done (foldl wire_step c es)))
      = inside c + mset (map fst (cn_done c)) + callers es
    \<and> (map length (cn_frames c) = frames_written (cn_done c) \<longrightarrow>
        map length (cn_frames (foldl wire_step c es)) = frames_written (cn_done (foldl wire_step c es)))" for c
  proof (induction es arbitrary: c)
    case (Cons e es)
    from Cons.IH [of "wire_step c e"] wire_step_calls [of c e] wire_step_frames [of c e] show ?case
      by (cases e) (auto simp: ac_simps)
  qed simp
  from this [of new_wire] show ?thesis unfolding assms by (simp add: new_wire_def inside_def)
qed

end
