(* ===== verification/HelperPipe.thy ===== *)
theory HelperPipe
  imports DesktopCapture "HOL-Library.Sublist"
begin

text \<open>
  The Desktop Helper's end of the pipe, \<^verbatim>\<open>internal/desktopcapture/helper_windows.go\<close>: setting the pipe up, serving one
  Service with writes that may fail, and the endless loop of \<^verbatim>\<open>Run\<close>.  \<open>DesktopCapture\<close> has the answers and the
  loop without failing writes; here the bytes that reach the Service are a prefix of those.
\<close>

section \<open>Failing writes\<close>

text \<open>Why serving ended.\<close>

datatype helper_stop =
    NameRefused | AclFailed | PipeNotCreated | NoPipeFile | NotConnected | HelperEnded helper_end | WriteFailed

text \<open>\<^verbatim>\<open>file.Write\<close> on the pipe: \<open>Some n\<close> is a failure after at most \<open>n\<close> bytes; what is not listed succeeds.\<close>

definition pipe_write :: "nat option list \<Rightarrow> string \<Rightarrow> string \<times> bool \<times> nat option list" where
  "pipe_write ws data =
     (case ws of
        [] \<Rightarrow> (data, True, [])
      | None # rest \<Rightarrow> (data, True, rest)
      | Some n # rest \<Rightarrow> (take n data, False, rest))"

text \<open>The header of an answer, and its frame if there is one.\<close>

definition write_answer :: "nat option list \<Rightarrow> string option \<Rightarrow> string \<times> bool \<times> nat option list" where
  "write_answer ws capture =
     (let answer = helper_answer capture
      in case pipe_write ws (take frameHeaderSize answer) of
           (out, ok, rest) \<Rightarrow>
             if \<not> ok \<or> length answer \<le> frameHeaderSize then (out, ok, rest)
             else (case pipe_write rest (drop frameHeaderSize answer) of (out2, ok2, rest2) \<Rightarrow> (out @ out2, ok2, rest2)))"

fun serve_writes :: "nat option list \<Rightarrow> string \<Rightarrow> string option list \<Rightarrow> string \<times> helper_stop" where
  "serve_writes ws [] captures = ([], HelperEnded RequestUnread)"
| "serve_writes ws (r # rs) captures =
     (if r \<noteq> captureRequest then ([], HelperEnded (UnsupportedRequest r))
      else case captures of
             [] \<Rightarrow> ([], HelperEnded RequestUnread)
           | c # cs \<Rightarrow>
               (case write_answer ws c of
                  (out, ok, rest) \<Rightarrow>
                    if \<not> ok then (out, WriteFailed)
                    else (case serve_writes rest rs cs of (out2, e) \<Rightarrow> (out @ out2, e))))"

lemma pipe_write_prefix: "pipe_write ws data = (out, ok, rest) \<Longrightarrow> prefix out data \<and> (ok \<longrightarrow> out = data)"
  by (auto simp: pipe_write_def take_is_prefix split: list.splits option.splits)

lemma write_answer_prefix:
  assumes "write_answer ws c = (out, ok, rest)"
  shows "prefix out (helper_answer c) \<and> (ok \<longrightarrow> out = helper_answer c)"
proof -
  let ?a = "helper_answer c"
  obtain o1 k1 r1 where w1: "pipe_write ws (take frameHeaderSize ?a) = (o1, k1, r1)" by (metis prod_cases3)
  obtain o2 k2 r2 where w2: "pipe_write r1 (drop frameHeaderSize ?a) = (o2, k2, r2)" by (metis prod_cases3)
  note p1 = pipe_write_prefix [OF w1]
  note p2 = pipe_write_prefix [OF w2]
  show ?thesis
  proof (cases "\<not> k1 \<or> length ?a \<le> frameHeaderSize")
    case True
    with assms w1 p1 show ?thesis
      by (auto simp: write_answer_def Let_def intro: prefix_order.trans [OF _ take_is_prefix])
  next
    case False
    with assms w1 w2 have r: "out = take frameHeaderSize ?a @ o2" "ok = k2" using p1 by (auto simp: write_answer_def Let_def)
    then have "prefix out (take frameHeaderSize ?a @ drop frameHeaderSize ?a)" using p2 by (simp only: same_prefix_prefix)
    with r p2 show ?thesis by auto
  qed
qed

text \<open>Failing writes only cut the stream of bytes that the Service reads.\<close>

lemma serve_writes_prefix:
  "serve_writes ws rs cs = (out, e) \<Longrightarrow>
     prefix out (fst (serveConnection rs cs)) \<and> (e \<noteq> WriteFailed \<longrightarrow> (out, e) = map_prod id HelperEnded (serveConnection rs cs))"
proof (induction ws rs cs arbitrary: out e rule: serve_writes.induct)
  case (2 ws r rs captures)
  show ?case
  proof (cases "r = captureRequest \<and> captures \<noteq> []")
    case True
    then obtain c cs where cs: "captures = c # cs" by (cases captures) auto
    obtain o1 ok rest where w: "write_answer ws c = (o1, ok, rest)" by (metis prod_cases3)
    obtain o2 e2 where s: "serve_writes rest rs cs = (o2, e2)" by fastforce
    obtain out' e' where f: "serveConnection rs cs = (out', e')" by fastforce
    note p = write_answer_prefix [OF w]
    show ?thesis
    proof (cases ok)
      case True
      with "2.IH" [OF _ cs w [symmetric] refl _ s] \<open>r = captureRequest \<and> captures \<noteq> []\<close>
      have "prefix o2 out' \<and> (e2 \<noteq> WriteFailed \<longrightarrow> (o2, e2) = (out', HelperEnded e'))" using f by simp
      with "2.prems" True \<open>r = captureRequest \<and> captures \<noteq> []\<close> cs w s f p show ?thesis by auto
    next
      case False
      with "2.prems" \<open>r = captureRequest \<and> captures \<noteq> []\<close> cs w f p show ?thesis by (simp add: prefix_prefix)
    qed
  next
    case False
    with "2.prems" show ?thesis by (cases captures) auto
  qed
qed simp

section \<open>One connection and the loop\<close>

text \<open>Who may open the pipe: the system, administrators and the interactive user.\<close>

definition pipe_acl :: string where "pipe_acl = ''D:P(A;;GA;;;SY)(A;;GA;;;BA)(A;;GA;;;IU)''"

datatype pipe_connect = ServiceConnected | AlreadyConnected | ConnectFailed

record pipe_env =
  pe_name :: bool
  pe_acl :: "string \<Rightarrow> bool"
  pe_created :: bool
  pe_file :: bool
  pe_connect :: pipe_connect
  pe_requests :: string
  pe_captures :: "string option list"
  pe_writes :: "nat option list"

datatype pipe_event = CreatedPipe nat nat string | ClosedHandle | ClosedFile | WroteBytes string

text \<open>\<^verbatim>\<open>serveConnection\<close> with its set-up: one instance of the pipe, its buffers, and its deferred close.\<close>

definition serve_pipe :: "pipe_env \<Rightarrow> helper_stop \<times> pipe_event list" where
  "serve_pipe env =
     (if \<not> pe_name env then (NameRefused, [])
      else if \<not> pe_acl env pipe_acl then (AclFailed, [])
      else if \<not> pe_created env then (PipeNotCreated, [])
      else let opened = CreatedPipe maxFrameSize frameHeaderSize pipe_acl
           in if \<not> pe_file env then (NoPipeFile, [opened, ClosedHandle])
              else if pe_connect env = ConnectFailed then (NotConnected, [opened, ClosedFile])
              else (case serve_writes (pe_writes env) (pe_requests env) (pe_captures env) of
                      (out, e) \<Rightarrow> (e, [opened, WroteBytes out, ClosedFile])))"

text \<open>\<^verbatim>\<open>Run\<close> serves one connection after the other and never returns: the events of the connections so far.\<close>

definition helper_run :: "pipe_env list \<Rightarrow> pipe_event list" where
  "helper_run envs = concat (map (snd \<circ> serve_pipe) envs)"

text \<open>The pipes that are open after some events; \<open>None\<close> if one was closed that was not open or two are open.\<close>

fun open_pipes :: "bool \<Rightarrow> pipe_event list \<Rightarrow> bool option" where
  "open_pipes b [] = Some b"
| "open_pipes b (CreatedPipe i k acl # es) = (if b then None else open_pipes True es)"
| "open_pipes b (ClosedHandle # es) = (if b then open_pipes False es else None)"
| "open_pipes b (ClosedFile # es) = (if b then open_pipes False es else None)"
| "open_pipes b (WroteBytes out # es) = (if b then open_pipes b es else None)"

lemma open_pipes_serve: "open_pipes False (snd (serve_pipe env) @ es) = open_pipes False es"
  by (simp add: serve_pipe_def Let_def split: prod.split)

text \<open>The helper never has two pipes, writes only to the open one, and has closed every pipe between connections.\<close>

lemma helper_closes_pipes: "open_pipes False (helper_run envs) = Some False"
  by (induction envs) (simp_all add: helper_run_def open_pipes_serve)

text \<open>Every pipe is created for the system, administrators and the interactive user only.\<close>

lemma pipes_restricted: "CreatedPipe i k acl \<in> set (helper_run envs) \<Longrightarrow> acl = pipe_acl \<and> i = maxFrameSize"
  by (auto simp: helper_run_def serve_pipe_def Let_def split: if_splits prod.splits)

end
