(* ===== verification/Spec2Isabelle.thy ===== *)
theory Spec2Isabelle
  imports AgentAuth Backoff Transport Messages DownloadManager AppsWorker Client Enrollment RotatingLog AccessBoundary
    DesktopCapture HostServices HostInfo ProtectedLog CommandLine EndToEnd Answers Serving IdentityLife
    FileHash Wire HelperPipe
begin

text \<open>
  \<^bold>\<open>A verification development for the thesis agent\<close>, the Go program under \<^verbatim>\<open>src/\<close>: a laboratory agent that runs as a
  Windows Service (or on a console), enrolls with a server, authenticates a WebSocket by an Ed25519
  handshake, streams processes, performance and the screen, downloads verified files, scans them, lists
  the installed applications, and shuts the machine down on request.

  \<^bold>\<open>How the parts interact.\<close>  \<open>CommandLine\<close> (\<^verbatim>\<open>main.go\<close>) chooses a mode.  A run of the agent (\<open>AgentRuntime\<close>,
  \<^verbatim>\<open>internal/agent\<close>) takes the startup gate (\<open>RuntimeSecurity\<close>, over the classification of \<open>RuntimeAcl\<close>) or the
  plain lock (\<open>KeyMigration\<close>), reads the configuration (\<open>AppConfig\<close>), opens the log (\<open>ProtectedLog\<close>, the files of \<open>RotatingLog\<close> opened
  through \<open>AccessBoundary\<close> under the Service), checks the endpoints (\<open>Transport\<close>) and the download roots
  (\<open>DownloadPolicy\<close>), loads the identity (\<open>Identity\<close>) and its enrollment (\<open>Enrollment\<close>), and runs the client
  (\<open>Client\<close>): every connection starts with the handshake (\<open>AgentAuth\<close>), its messages are decided by \<open>Messages\<close>, its
  results wait in \<open>Outbox\<close>, lost connections are retried with \<open>Backoff\<close>.  Messages start downloads
  (\<open>DownloadManager\<close> over the jobs of \<open>DownloadRun\<close>), scans (\<open>Antivirus\<close>), inventories (\<open>AppsWorker\<close> over
  \<open>InstalledApps\<close>) and captures (\<open>DesktopCapture\<close>).  Under the Service manager all this runs inside \<open>ServiceHost\<close>;
  \<open>HostServices\<close> holds power, processes, network and DPAPI.

  \<^bold>\<open>Which theory models what.\<close>
    \<^item> \<open>Prelude\<close>: bytes, the functions of \<^verbatim>\<open>strings\<close> and \<^verbatim>\<open>strconv\<close> the program uses, and the locales shared by
      the components: \<open>event_machine\<close> (states, events and an invariant), \<open>refinement\<close> (a machine implements an
      abstract one) and the bounded channel with a non-blocking send.
    \<^item> \<open>Encoding\<close>, \<open>Json\<close>, \<open>FilePath\<close>, \<open>Doubles\<close>: base64, hexadecimal and UTF-8; the decoding of parsed JSON into
      struct fields; \<^verbatim>\<open>path/filepath\<close> on Unix and \<^verbatim>\<open>containsPath\<close>; the rounding of \<^verbatim>\<open>float64\<close>.
    \<^item> \<open>AgentAuth\<close>: \<^verbatim>\<open>internal/agentauth/protocol.go\<close>, \<^verbatim>\<open>client/auth.go\<close>.  The handshake is a function of the
      answers of the environment; its trace lists what was written, loaded, signed and cleared.
    \<^item> \<open>Backoff\<close>, \<open>Transport\<close>: \<^verbatim>\<open>internal/retry\<close>, \<^verbatim>\<open>internal/transportpolicy\<close>.
    \<^item> \<open>Messages\<close>: \<^verbatim>\<open>client/message.go\<close> and the command parsers; \<open>Client\<close>: \<^verbatim>\<open>client/client.go\<close>,
      \<^verbatim>\<open>performance.go\<close>, \<^verbatim>\<open>screen.go\<close>, \<^verbatim>\<open>power.go\<close>, \<^verbatim>\<open>heartbeat.go\<close>; \<open>Outbox\<close>: \<^verbatim>\<open>client/outbox.go\<close>.
    \<^item> \<open>DownloadPolicy\<close>, \<open>DownloadRun\<close>, \<open>DownloadManager\<close>: package \<^verbatim>\<open>download\<close>, from the accepted command over one
      job to the manager with its workers, queue and tables.
    \<^item> \<open>FileHash\<close>: the digest of a file read piece by piece refines the one \<open>DownloadRun\<close> uses; \<open>Wire\<close>: \<^verbatim>\<open>writeJSON\<close> under
      the mutex of a connection; \<open>HelperPipe\<close>: the pipe of the Desktop Helper and its failing writes.
    \<^item> \<open>Antivirus\<close>: package \<^verbatim>\<open>antivirus\<close>; \<open>InstalledApps\<close>, \<open>AppsWorker\<close>: package \<^verbatim>\<open>installedapps\<close> and
      \<^verbatim>\<open>client/installed_apps.go\<close>.
    \<^item> \<open>Identity\<close>, \<open>KeyMigration\<close>: \<^verbatim>\<open>service/agent_id.go\<close>, \<^verbatim>\<open>private_key.go\<close>, \<^verbatim>\<open>private_key_migration.go\<close>,
      \<^verbatim>\<open>internal/statefile\<close>, \<^verbatim>\<open>internal/runlock\<close>, \<^verbatim>\<open>internal/protectedpath/path_windows.go\<close>.  The disk is a
      \<open>file_store\<close> (a locale interpreted on the plain disk and on the checked one).
    \<^item> \<open>IdentityLife\<close>: the entry points of \<^verbatim>\<open>service/agent_id.go\<close> and the identity steps of \<^verbatim>\<open>internal/agent/runtime.go\<close>,
      run after run, with key migrations in between.
    \<^item> \<open>Enrollment\<close>: \<^verbatim>\<open>service/registration.go\<close>, \<^verbatim>\<open>enrollment_state.go\<close>.
    \<^item> \<open>RotatingLog\<close>: \<^verbatim>\<open>service/logging.go\<close>, \<open>ProtectedLog\<close> the same log as the program sets it up, under the Service
      through the boundary of \<open>AccessBoundary\<close>; \<open>AppPaths\<close>: \<^verbatim>\<open>internal/apppaths\<close>.
    \<^item> \<open>RuntimeAcl\<close>, \<open>RuntimeSecurity\<close>, \<open>AccessBoundary\<close>: \<^verbatim>\<open>internal/protectedpath\<close>.  Effects are an event history,
      and every answer of Windows is a function of the history so far, so it may change at any moment.
    \<^item> \<open>DesktopCapture\<close>, \<open>ServiceHost\<close>, \<open>HostServices\<close>, \<open>AppConfig\<close>, \<open>AgentRuntime\<close>, \<open>CommandLine\<close>:
      \<^verbatim>\<open>internal/desktopcapture\<close>, \<^verbatim>\<open>internal/servicehost\<close>, the host services of \<^verbatim>\<open>service/\<close>, \<^verbatim>\<open>config\<close>,
      \<^verbatim>\<open>internal/agent\<close> and \<^verbatim>\<open>main.go\<close>.
    \<^item> \<open>HostInfo\<close>: \<^verbatim>\<open>service/performance.go\<close>, \<^verbatim>\<open>screen.go\<close>, \<^verbatim>\<open>system_info.go\<close>, \<^verbatim>\<open>os_version_windows.go\<close> and \<^verbatim>\<open>model\<close>.
    \<^item> \<open>Answers\<close>: the download manager joined to the outbox that is its sender.
    \<^item> \<open>Serving\<close>: the handlers of \<^verbatim>\<open>runConnection\<close> over the machines of the components they call, and \<^verbatim>\<open>Client.Close\<close>.
    \<^item> \<open>EndToEnd\<close>: no code of its own, but properties of the runtime together with the handshake and with the
      downloads; there the answers that \<open>AgentRuntime\<close> takes from an environment are the models of those parts.

  \<^bold>\<open>What the lemmas show.\<close>  Protocol: a signed transcript determines the agent, the challenge and all nonces, a proof is
  sent only for an accepted challenge, success needs the whole exchange.  Keys: what a connection signs
  with belongs to the identity of the process; the migration of the key protection never loses the
  identity, whatever reads and writes fail, and the identity of an installation stays the same over all its
  runs.  Downloads: the destination changes only to content of the
  announced size and digest, every job ends with exactly one result, the manager's tables and queues
  stay bounded, duplicates start nothing, closing drains.  Client: only an explicit kill message
  terminates a process, final results are conserved, connections are installed after the handshake
  only, one capture goroutine exists at most.  Runtime: permissions change only under the lock on
  objects just found repairable, a grant means that everything was found canonical after the last
  repair, a refusal leaves nothing open; the client runs only validated, resources are released in
  reverse order; each mode of the command line changes only its own state.  End to end: no download changes
  the identity, the configuration, the log or the program, and every proof verifies under the public key
  of the enrolled identity, and every download command gets one answer, counted from the command to the wire.
  A connection does only what its frames asked for, and nothing new once the client is closed.

  \<^bold>\<open>Bounds and fuel.\<close>  Recursion is structural or measured, with these exceptions.  \<open>ipv6_groups\<close> reads at most eight groups
  and has fuel eight.  \<open>dir_chain\<close> has the length of the path as fuel, and \<open>dir_chain_enough\<close> shows that
  it reaches the root, because every step that changes a path shortens it.  Loops that wait for events
  are folds over the events that happen, so every finite behaviour is covered.

  \<^bold>\<open>Concurrency.\<close>  Where goroutines share state under a mutex, one event is one critical section or one
  channel operation, and the theorems hold for every sequence of events.

  \<^bold>\<open>Not modelled, and why.\<close>  Code that is only a call of the operating system or of a library is an argument of the
  model: DPAPI, Ed25519, SHA-256, the JSON text parser, \<^verbatim>\<open>url.Parse\<close>, HTTP and WebSocket framing, the
  registry, the Service manager, the task scheduler.  Left out: the readings of gopsutil and the pixels of a
  screen, which are arguments of \<open>HostInfo\<close>; the stubs of \<^verbatim>\<open>*_other.go\<close>;
  \<^verbatim>\<open>cmd/thesis-agent-desktop\<close>, which calls the helper of \<open>DesktopCapture\<close>; the free-space and
  rename calls of \<^verbatim>\<open>download/space_*.go\<close> and \<^verbatim>\<open>finalize_*.go\<close>; log texts; the scripts and the database of the server.
\<close>

end
